(* ===== verification/Atf_Errors.thy ===== *)
theory Atf_Errors
  imports Main
begin

text \<open>
  The exception hierarchy of \<open>reference/py/src/atf/errors.py\<close>, together with the classes of
  the language and of its standard library that the modelled code raises or catches.
  An exception value is a class and a message; \<open>is_a\<close> is the test an \<open>except\<close> clause makes.
  ATF's own messages are written out; a message made by a library is a short fixed text, because
  no modelled control flow depends on it.
\<close>

section \<open>Exception classes\<close>

datatype exn_class =
    PyException
  | ATFError
  | IdentityError
  | ManifestError
  | ManifestInvalidSignature
  | DelegationError
  | TokenExpired
  | TokenNotYetValid
  | TokenInsufficientScope
  | TokenInvalidSignature
  | TokenReplay
  | OutcomeError
  | OutcomeInvalidSignature
  | OutcomeSchemaMismatch
  | AuditError
  | CrossSignFailed
  | ValueError
  | LookupError
  | KeyError
  | IndexError
  | TypeError
  | AttributeError
  | ArithmeticError
  | OverflowError
  | InvalidSignature
  | SqliteError
  | ProgrammingError
  | IntegrityError
  | UsageError
  | AssertionError

text \<open>
  The class statement's base. \<open>JSONDecodeError\<close>, \<open>binascii.Error\<close> and the two Unicode errors
  are subclasses of \<open>ValueError\<close> that nothing in the code distinguishes, so they are
  \<open>ValueError\<close> here. \<open>InvalidSignature\<close> is the \<open>cryptography\<close> package's class.
\<close>

fun base_class :: "exn_class \<Rightarrow> exn_class option" where
  "base_class PyException = None"
| "base_class IdentityError = Some ATFError"
| "base_class ManifestError = Some ATFError"
| "base_class ManifestInvalidSignature = Some ManifestError"
| "base_class DelegationError = Some ATFError"
| "base_class TokenExpired = Some DelegationError"
| "base_class TokenNotYetValid = Some DelegationError"
| "base_class TokenInsufficientScope = Some DelegationError"
| "base_class TokenInvalidSignature = Some DelegationError"
| "base_class TokenReplay = Some DelegationError"
| "base_class OutcomeError = Some ATFError"
| "base_class OutcomeInvalidSignature = Some OutcomeError"
| "base_class OutcomeSchemaMismatch = Some OutcomeError"
| "base_class AuditError = Some ATFError"
| "base_class CrossSignFailed = Some AuditError"
| "base_class KeyError = Some LookupError"
| "base_class IndexError = Some LookupError"
| "base_class OverflowError = Some ArithmeticError"
| "base_class ProgrammingError = Some SqliteError"
| "base_class IntegrityError = Some SqliteError"
| "base_class _ = Some PyException"

text \<open>How many base-class steps a class is away from the root.\<close>

fun class_depth :: "exn_class \<Rightarrow> nat" where
  "class_depth PyException = 0"
| "class_depth ATFError = 1"
| "class_depth ManifestInvalidSignature = 3"
| "class_depth TokenExpired = 3"
| "class_depth TokenNotYetValid = 3"
| "class_depth TokenInsufficientScope = 3"
| "class_depth TokenInvalidSignature = 3"
| "class_depth TokenReplay = 3"
| "class_depth OutcomeInvalidSignature = 3"
| "class_depth OutcomeSchemaMismatch = 3"
| "class_depth CrossSignFailed = 3"
| "class_depth IdentityError = 2"
| "class_depth ManifestError = 2"
| "class_depth DelegationError = 2"
| "class_depth OutcomeError = 2"
| "class_depth AuditError = 2"
| "class_depth KeyError = 2"
| "class_depth IndexError = 2"
| "class_depth OverflowError = 2"
| "class_depth ProgrammingError = 2"
| "class_depth IntegrityError = 2"
| "class_depth _ = 1"

lemma base_class_depth: "base_class c = Some b \<Longrightarrow> class_depth b < class_depth c"
  by (cases c) auto

text \<open>The method resolution order: the class, its base, and so on up to the root.\<close>

function mro :: "exn_class \<Rightarrow> exn_class list" where
  "mro c = c # (case base_class c of None \<Rightarrow> [] | Some b \<Rightarrow> mro b)"
  by pat_completeness auto
termination
  by (relation "measure class_depth") (auto dest: base_class_depth)

declare mro.simps [simp del]

lemma mro_base:
  "base_class c = None \<Longrightarrow> mro c = [c]"
  "base_class c = Some b \<Longrightarrow> mro c = c # mro b"
  by (simp_all add: mro.simps [of c])

definition is_a :: "exn_class \<Rightarrow> exn_class \<Rightarrow> bool" where
  "is_a c d \<longleftrightarrow> d \<in> set (mro c)"

lemma is_a_cases: "is_a c d \<Longrightarrow> c = d \<or> (\<exists>b. base_class c = Some b \<and> is_a b d)"
  by (auto simp: is_a_def mro.simps [of c] split: option.splits)

lemma is_a_refl [simp]: "is_a c c"
  by (simp add: is_a_def mro.simps [of c])

lemma is_a_root [simp]: "is_a c PyException"
  by (cases c) (simp_all add: is_a_def mro_base)

text \<open>The classes an \<open>except ATFError\<close> clause catches are exactly those of errors.py.\<close>

definition atf_classes :: "exn_class list" where
  "atf_classes =
     [ATFError, IdentityError, ManifestError, ManifestInvalidSignature, DelegationError,
      TokenExpired, TokenNotYetValid, TokenInsufficientScope, TokenInvalidSignature, TokenReplay,
      OutcomeError, OutcomeInvalidSignature, OutcomeSchemaMismatch, AuditError, CrossSignFailed]"

lemma is_a_ATFError: "is_a c ATFError \<longleftrightarrow> c \<in> set atf_classes"
  by (cases c) (simp_all add: is_a_def mro_base atf_classes_def)

lemma is_a_antisym:
  assumes "is_a c d" and "is_a d c"
  shows "c = d"
proof -
  have deeper: "is_a c d \<Longrightarrow> c \<noteq> d \<Longrightarrow> class_depth d < class_depth c" for c d
  proof (induction c rule: mro.induct)
    case (1 c)
    then obtain b where b: "base_class c = Some b" "is_a b d"
      using is_a_cases by blast
    show ?case
      using 1 b base_class_depth [OF b(1)] by (cases "b = d") force+
  qed
  show ?thesis
    using assms deeper [of c d] deeper [of d c] by fastforce
qed

section \<open>Exception values\<close>

datatype exn = Exn (exn_cls: exn_class) (exn_msg: string)

text \<open>\<open>str(e)\<close>: what the code copies into the exception it raises instead.\<close>

definition str_exn :: "exn \<Rightarrow> string" where
  "str_exn e = exn_msg e"

end
