(* ===== verification/Atf_Prelude.thy ===== *)
theory Atf_Prelude
  imports Atf_Errors "HOL-Library.Word" "HOL-Library.Sublist" "HOL-Library.Char_ord"
    "HOL-Library.List_Lexorder"
begin

text \<open>
  What every component shares: results that are a value or an exception, the fact collections,
  the string operations of the language that the code calls, and the interface of an
  encoder with its decoder.
\<close>

type_synonym byte = "8 word"
type_synonym bytes = "byte list"

named_theorems result_simps \<open>rules that compute with results\<close>
named_theorems string_simps \<open>rules that compute with Python strings\<close>

section \<open>Results\<close>

text \<open>A call returns a value (\<open>Inr\<close>) or raises (\<open>Inl\<close>).\<close>

type_synonym 'a res = "exn + 'a"

definition raise :: "exn_class \<Rightarrow> string \<Rightarrow> 'a res" where
  "raise c m = Inl (Exn c m)"

definition bind_res :: "'a res \<Rightarrow> ('a \<Rightarrow> 'b res) \<Rightarrow> 'b res" where
  "bind_res m f = (case m of Inl e \<Rightarrow> Inl e | Inr x \<Rightarrow> f x)"

text \<open>\<open>try: m except Exception as e: raise g(e) from e\<close>.\<close>

definition rewrap :: "(exn \<Rightarrow> exn) \<Rightarrow> 'a res \<Rightarrow> 'a res" where
  "rewrap g m = (case m of Inl e \<Rightarrow> Inl (g e) | Inr x \<Rightarrow> Inr x)"

text \<open>A loop over a list that stops at the first exception.\<close>

fun map_res :: "('a \<Rightarrow> 'b res) \<Rightarrow> 'a list \<Rightarrow> 'b list res" where
  "map_res f [] = Inr []"
| "map_res f (x # xs) = bind_res (f x) (\<lambda>y. bind_res (map_res f xs) (\<lambda>ys. Inr (y # ys)))"

text \<open>A loop that returns \<open>True\<close> at the first element the test holds of, else \<open>False\<close>.\<close>

fun any_res :: "('a \<Rightarrow> bool res) \<Rightarrow> 'a list \<Rightarrow> bool res" where
  "any_res f [] = Inr False"
| "any_res f (x # xs) = bind_res (f x) (\<lambda>b. if b then Inr True else any_res f xs)"

text \<open>A loop whose body returns nothing and may raise.\<close>

fun each_res :: "('a \<Rightarrow> unit res) \<Rightarrow> 'a list \<Rightarrow> unit res" where
  "each_res f [] = Inr ()"
| "each_res f (x # xs) = bind_res (f x) (\<lambda>_. each_res f xs)"

text \<open>A sequence of state changes that stops at the first exception.\<close>

fun fold_res :: "('s \<Rightarrow> 'a \<Rightarrow> 's res) \<Rightarrow> 's \<Rightarrow> 'a list \<Rightarrow> 's res" where
  "fold_res f s [] = Inr s"
| "fold_res f s (x # xs) = bind_res (f s x) (\<lambda>s'. fold_res f s' xs)"

lemma bind_res_Inr [simp, result_simps]: "bind_res (Inr x) f = f x"
  by (simp add: bind_res_def)

lemma bind_res_Inl [simp, result_simps]: "bind_res (Inl e) f = Inl e"
  by (simp add: bind_res_def)

lemma bind_res_eq_Inr [simp, result_simps]:
  "bind_res m f = Inr y \<longleftrightarrow> (\<exists>x. m = Inr x \<and> f x = Inr y)"
  by (cases m) auto

lemma bind_res_eq_Inl [result_simps]:
  "bind_res m f = Inl e \<longleftrightarrow> m = Inl e \<or> (\<exists>x. m = Inr x \<and> f x = Inl e)"
  by (cases m) auto

lemma bind_res_raise [simp, result_simps]: "bind_res (raise c m) f = raise c m"
  by (simp add: raise_def)

lemma raise_eq_Inr [simp, result_simps]: "raise c m \<noteq> Inr x" "Inr x \<noteq> raise c m"
  by (simp_all add: raise_def)

lemma raise_eq_Inl [simp, result_simps]:
  "raise c m = Inl e \<longleftrightarrow> e = Exn c m" "Inl e = raise c m \<longleftrightarrow> e = Exn c m"
  by (auto simp: raise_def)

lemma rewrap_simps [simp, result_simps]:
  "rewrap g (Inr x) = Inr x" "rewrap g (Inl e) = Inl (g e)"
  by (simp_all add: rewrap_def)

lemma rewrap_raise [simp]: "rewrap g (raise c m) = Inl (g (Exn c m))"
  by (simp add: raise_def)

lemma rewrap_eq_Inr [simp, result_simps]: "rewrap g m = Inr x \<longleftrightarrow> m = Inr x"
  by (cases m) auto

lemma rewrap_eq_Inl [result_simps]: "rewrap g m = Inl e \<longleftrightarrow> (\<exists>e'. m = Inl e' \<and> e = g e')"
  by (cases m) auto

lemma any_res_Inr: "(\<And>x. x \<in> set xs \<Longrightarrow> f x = Inr (P x)) \<Longrightarrow> any_res f xs = Inr (\<exists>x \<in> set xs. P x)"
  by (induction xs) auto

lemma any_res_True: "any_res f xs = Inr True \<Longrightarrow> \<exists>x \<in> set xs. f x = Inr True"
  by (induction xs) (auto split: if_splits)

lemma each_res_Inr [simp]: "each_res f xs = Inr u \<longleftrightarrow> (\<forall>x \<in> set xs. f x = Inr ())"
  by (induction xs) auto

lemma each_res_Inl: "each_res f xs = Inl e \<Longrightarrow> \<exists>x \<in> set xs. f x = Inl e"
  by (induction xs) (auto simp: bind_res_eq_Inl)

lemma map_res_Inr: "(\<And>x. x \<in> set xs \<Longrightarrow> f x = Inr (g x)) \<Longrightarrow> map_res f xs = Inr (map g xs)"
  by (induction xs) auto

lemma map_res_eq_Inr: "map_res f xs = Inr ys \<longleftrightarrow> list_all2 (\<lambda>x y. f x = Inr y) xs ys"
proof (induction xs arbitrary: ys)
  case Nil
  then show ?case by auto
next
  case (Cons x xs)
  then show ?case by (cases ys) auto
qed

section \<open>Strings\<close>

text \<open>
  A Python \<open>str\<close> is a list of code points; here a code point is a \<open>char\<close>, so every string of
  the model has code points below 256. \<open>s.startswith(t)\<close> is \<open>prefix t s\<close>.
\<close>

text \<open>\<open>s.split(c)\<close>\<close>

fun split_on :: "char \<Rightarrow> string \<Rightarrow> string list" where
  "split_on c [] = [[]]"
| "split_on c (x # xs) =
     (if x = c then [] # split_on c xs
      else (case split_on c xs of [] \<Rightarrow> [[x]] | w # ws \<Rightarrow> (x # w) # ws))"

text \<open>\<open>s.split(c, 1)\<close> where \<open>c\<close> occurs in \<open>s\<close>: what is before its first occurrence and after it.\<close>

definition split_once :: "char \<Rightarrow> string \<Rightarrow> string \<times> string" where
  "split_once c s = (takeWhile (\<lambda>x. x \<noteq> c) s, tl (dropWhile (\<lambda>x. x \<noteq> c) s))"

text \<open>\<open>s.rsplit(c, 1)\<close> where \<open>c\<close> occurs in \<open>s\<close>: what is before its last occurrence and after it.\<close>

definition rsplit_once :: "char \<Rightarrow> string \<Rightarrow> string \<times> string" where
  "rsplit_once c s =
     (rev (tl (dropWhile (\<lambda>x. x \<noteq> c) (rev s))), rev (takeWhile (\<lambda>x. x \<noteq> c) (rev s)))"

text \<open>\<open>sep.join(xs)\<close>\<close>

fun join :: "string \<Rightarrow> string list \<Rightarrow> string" where
  "join sep [] = []"
| "join sep [x] = x"
| "join sep (x # y # zs) = x @ sep @ join sep (y # zs)"

lemma split_on_not_Nil [simp]: "split_on c s \<noteq> []"
  by (induction s) (auto split: list.splits)

lemma split_on_no_sep [string_simps]: "c \<notin> set s \<Longrightarrow> split_on c s = [s]"
  by (induction s) auto

lemma split_on_append [string_simps]:
  "c \<notin> set s \<Longrightarrow> split_on c (s @ c # t) = s # split_on c t"
  by (induction s) auto

lemma join_split_on: "join [c] (split_on c s) = s"
proof (induction s)
  case Nil
  then show ?case by simp
next
  case (Cons x xs)
  show ?case
  proof (cases "split_on c xs")
    case Nil
    then show ?thesis by simp
  next
    case (Cons w ws)
    with Cons.IH show ?thesis by (cases ws) auto
  qed
qed

lemma split_on_append_sep: "split_on c (s @ c # t) = split_on c s @ split_on c t"
proof (induction s)
  case (Cons x xs)
  then show ?case
    by (cases "split_on c xs") auto
qed simp

lemma join_append: "xs \<noteq> [] \<Longrightarrow> ys \<noteq> [] \<Longrightarrow> join sep (xs @ ys) = join sep xs @ sep @ join sep ys"
proof (induction xs)
  case (Cons x xs)
  then show ?case
    by (cases xs; cases ys) auto
qed simp

lemma split_on_inj: "split_on c a = split_on c b \<Longrightarrow> a = b"
  by (metis join_split_on)

lemma split_on_parts: "w \<in> set (split_on c s) \<Longrightarrow> c \<notin> set w"
  by (induction s arbitrary: w) (fastforce split: if_splits list.splits)+

lemma split_once_append [string_simps]:
  "c \<notin> set s \<Longrightarrow> split_once c (s @ c # t) = (s, t)"
  by (induction s) (auto simp: split_once_def)

lemma split_once_join: "c \<in> set s \<Longrightarrow> split_once c s = (a, b) \<Longrightarrow> s = a @ c # b \<and> c \<notin> set a"
proof (induction s arbitrary: a)
  case Nil
  then show ?case by simp
next
  case (Cons x xs)
  show ?case
  proof (cases "x = c")
    case True
    with Cons.prems show ?thesis by (auto simp: split_once_def)
  next
    case False
    with Cons.prems obtain a' where "a = x # a'" "split_once c xs = (a', b)" "c \<in> set xs"
      by (auto simp: split_once_def)
    with Cons.IH False show ?thesis by auto
  qed
qed

lemma rsplit_once_append [string_simps]: "c \<notin> set t \<Longrightarrow> rsplit_once c (s @ c # t) = (s, t)"
  using split_once_append [of c "rev t" "rev s"] by (simp add: rsplit_once_def split_once_def)

lemma rsplit_once_join: "c \<in> set s \<Longrightarrow> rsplit_once c s = (a, b) \<Longrightarrow> s = a @ c # b \<and> c \<notin> set b"
  using split_once_join [of c "rev s" "rev b" "rev a"] by (auto simp: rsplit_once_def split_once_def rev_swap)

section \<open>The interface of an encoder and its decoder\<close>

text \<open>
  \<open>dec\<close> inverts \<open>enc\<close> on the values \<open>ok\<close> accepts, up to the normal form \<open>norm\<close>
  (for JSON: the order of an object's keys). A client may then read what it wrote, and two
  values with one encoding are the same up to that normal form.
\<close>

locale codec =
  fixes enc :: "'a \<Rightarrow> 'b"
    and dec :: "'b \<Rightarrow> exn + 'a"
    and ok :: "'a \<Rightarrow> bool"
    and norm :: "'a \<Rightarrow> 'a"
  assumes dec_enc: "ok x \<Longrightarrow> dec (enc x) = Inr (norm x)"
begin

lemma enc_eq_norm:
  assumes "ok x" and "ok y" and "enc x = enc y"
  shows "norm x = norm y"
  using dec_enc [OF assms(1)] dec_enc [OF assms(2)] assms(3) by simp

lemma dec_no_raise: "ok x \<Longrightarrow> dec (enc x) \<noteq> Inl e"
  by (simp add: dec_enc)

end

text \<open>A codec whose normal form is the value itself.\<close>

locale exact_codec =
  fixes enc :: "'a \<Rightarrow> 'b"
    and dec :: "'b \<Rightarrow> exn + 'a"
    and ok :: "'a \<Rightarrow> bool"
  assumes dec_enc_exact: "ok x \<Longrightarrow> dec (enc x) = Inr x"
begin

sublocale codec enc dec ok "\<lambda>x. x"
  by unfold_locales (rule dec_enc_exact)

lemma enc_inj: "inj_on enc {x. ok x}"
  by (rule inj_onI) (use enc_eq_norm in blast)

end

section \<open>Refinement maps\<close>

text \<open>A state machine that implements a more abstract one: under its invariant every step is a step of
  the abstract machine or leaves the abstract state alone. Then every run is an abstract run.\<close>

locale refinement_map =
  fixes step :: "'s \<Rightarrow> 's \<Rightarrow> bool"
    and spec :: "'t \<Rightarrow> 't \<Rightarrow> bool"
    and inv :: "'s \<Rightarrow> bool"
    and view :: "'s \<Rightarrow> 't"
  assumes step_inv: "step s s' \<Longrightarrow> inv s \<Longrightarrow> inv s'"
    and step_view: "step s s' \<Longrightarrow> inv s \<Longrightarrow> view s' = view s \<or> spec (view s) (view s')"
begin

lemma run_inv: "step\<^sup>*\<^sup>* s s' \<Longrightarrow> inv s \<Longrightarrow> inv s'"
  by (induction rule: rtranclp_induct) (blast intro: step_inv)+

lemma run_view: "step\<^sup>*\<^sup>* s s' \<Longrightarrow> inv s \<Longrightarrow> spec\<^sup>*\<^sup>* (view s) (view s')"
proof (induction rule: rtranclp_induct)
  case (step s1 s2)
  then have "view s2 = view s1 \<or> spec (view s1) (view s2)"
    using step_view run_inv by blast
  then show ?case
    using step by (auto intro: rtranclp.rtrancl_into_rtrancl)
qed simp

end

end
