(* ===== verification/Atf_Text.thy ===== *)
theory Atf_Text
  imports Atf_Prelude
begin

text \<open>
  Decimal and hexadecimal numerals, and the UTF-8 codec: the conversions between numbers,
  text and bytes that the JSON, SHA-256 and base64 models are built on.
\<close>

section \<open>Numerals\<close>

definition digit_char :: "nat \<Rightarrow> char" where
  "digit_char d = char_of (48 + d)"

definition is_digit :: "char \<Rightarrow> bool" where
  "is_digit c \<longleftrightarrow> 48 \<le> (of_char c :: nat) \<and> (of_char c :: nat) \<le> 57"

definition digit_val :: "char \<Rightarrow> nat" where
  "digit_val c = of_char c - 48"

text \<open>\<open>str(n)\<close> for \<open>n \<ge> 0\<close>, and \<open>str(i)\<close>.\<close>

fun nat_str :: "nat \<Rightarrow> string" where
  "nat_str n = (if n < 10 then [digit_char n] else nat_str (n div 10) @ [digit_char (n mod 10)])"

declare nat_str.simps [simp del]

definition int_str :: "int \<Rightarrow> string" where
  "int_str i = (if i < 0 then CHR ''-'' # nat_str (nat (- i)) else nat_str (nat i))"

text \<open>The value of a run of decimal digits, most significant first.\<close>

definition digits_val :: "string \<Rightarrow> nat" where
  "digits_val ds = foldl (\<lambda>a c. 10 * a + digit_val c) 0 ds"

lemma digit_char_facts [simp]:
  assumes "d < 10"
  shows "is_digit (digit_char d)" and "digit_val (digit_char d) = d"
  using assms by (simp_all add: is_digit_def digit_val_def digit_char_def)

lemma digits_val_Nil [simp]: "digits_val [] = 0"
  by (simp add: digits_val_def)

lemma digits_val_snoc [simp]: "digits_val (ds @ [c]) = 10 * digits_val ds + digit_val c"
  by (simp add: digits_val_def)

lemma digits_val_append: "digits_val (xs @ ys) = digits_val xs * 10 ^ length ys + digits_val ys"
proof (induction ys rule: rev_induct)
  case Nil
  then show ?case by simp
next
  case (snoc c ys)
  have "digits_val (xs @ ys @ [c]) = 10 * digits_val (xs @ ys) + digit_val c"
    using digits_val_snoc [of "xs @ ys" c] by simp
  with snoc show ?case by (simp add: algebra_simps)
qed

lemma digits_val_zeros [simp]: "digits_val (replicate n (CHR ''0'')) = 0"
  by (induction n) (simp_all add: digits_val_def digit_val_def)

lemma digits_val_zeros_append [simp]: "digits_val (replicate n (CHR ''0'') @ ds) = digits_val ds"
  by (simp add: digits_val_append)

lemma digits_val_append_zeros [simp]:
  "digits_val (ds @ replicate n (CHR ''0'')) = digits_val ds * 10 ^ n"
  by (simp add: digits_val_append)

lemma nat_str_digits: "c \<in> set (nat_str n) \<Longrightarrow> is_digit c"
proof (induction n rule: nat_str.induct)
  case (1 n)
  then show ?case
    by (cases "n < 10") (auto simp: nat_str.simps [of n])
qed

lemma nat_str_not_Nil [simp]: "nat_str n \<noteq> []"
  by (simp add: nat_str.simps [of n])

lemma digits_val_nat_str [simp]: "digits_val (nat_str n) = n"
proof (induction n rule: nat_str.induct)
  case (1 n)
  show ?case
  proof (cases "n < 10")
    case True
    then show ?thesis
      using digits_val_snoc [of "[]" "digit_char n"] by (simp add: nat_str.simps [of n])
  next
    case False
    with 1 show ?thesis by (simp add: nat_str.simps [of n])
  qed
qed

lemma nat_str_inj: "nat_str m = nat_str n \<Longrightarrow> m = n"
  by (metis digits_val_nat_str)

lemma nat_str_hd: "0 < n \<Longrightarrow> hd (nat_str n) \<noteq> CHR ''0''"
proof (induction n rule: nat_str.induct)
  case (1 n)
  show ?case
  proof (cases "n < 10")
    case True
    with 1 have "digit_val (hd (nat_str n)) \<noteq> 0"
      by (simp add: nat_str.simps [of n])
    then show ?thesis by (auto simp: digit_val_def)
  next
    case False
    with 1 show ?thesis by (simp add: nat_str.simps [of n] hd_append)
  qed
qed

lemma nat_str_0: "nat_str 0 = ''0''"
  by (simp add: nat_str.simps digit_char_def char_of_eq_iff)

lemma is_digit_not [simp]:
  "is_digit c \<Longrightarrow> c \<noteq> CHR ''-''" "is_digit c \<Longrightarrow> c \<noteq> CHR ''.''"
  "is_digit c \<Longrightarrow> c \<noteq> CHR ''e''" "is_digit c \<Longrightarrow> c \<noteq> CHR ''E''"
  "is_digit c \<Longrightarrow> c \<noteq> CHR ''+''" "is_digit c \<Longrightarrow> c \<noteq> CHR 0x22"
  by (auto simp: is_digit_def)

text \<open>Lower-case hexadecimal, two digits to a byte.\<close>

definition hex_char :: "nat \<Rightarrow> char" where
  "hex_char d = (if d < 10 then char_of (48 + d) else char_of (87 + d))"

definition hex_val :: "char \<Rightarrow> nat option" where
  "hex_val c =
     (let n = (of_char c :: nat) in
      if 48 \<le> n \<and> n \<le> 57 then Some (n - 48)
      else if 97 \<le> n \<and> n \<le> 102 then Some (n - 87)
      else if 65 \<le> n \<and> n \<le> 70 then Some (n - 55)
      else None)"

definition hex_byte :: "nat \<Rightarrow> string" where
  "hex_byte n = [hex_char (n div 16), hex_char (n mod 16)]"

lemma hex_val_char [simp]: "d < 16 \<Longrightarrow> hex_val (hex_char d) = Some d"
  by (auto simp: hex_val_def hex_char_def)

section \<open>UTF-8\<close>

text \<open>
  \<open>s.encode("utf-8")\<close> and \<open>b.decode("utf-8")\<close> for text whose code points are below 256:
  one byte below 128, two from there on. The decoder raises on every other byte sequence; on a
  well-formed encoding of a code point from 256 on, where Python would return text the model's
  strings do not hold, it raises as well.
\<close>

definition utf8_char :: "char \<Rightarrow> bytes" where
  "utf8_char c =
     (let n = (of_char c :: nat) in
      if n < 128 then [word_of_nat n]
      else [word_of_nat (192 + n div 64), word_of_nat (128 + n mod 64)])"

definition utf8_encode :: "string \<Rightarrow> bytes" where
  "utf8_encode s = concat (map utf8_char s)"

fun utf8_decode :: "bytes \<Rightarrow> string res" where
  "utf8_decode [] = Inr []"
| "utf8_decode (b # bs) =
     (if b < 128 then bind_res (utf8_decode bs) (\<lambda>s. Inr (char_of (unat b) # s))
      else if b = 194 \<or> b = 195 then
        (case bs of
           c # bs' \<Rightarrow>
             if 128 \<le> c \<and> c < 192
             then bind_res (utf8_decode bs')
                    (\<lambda>s. Inr (char_of ((unat b - 192) * 64 + (unat c - 128)) # s))
             else raise ValueError ''invalid continuation byte''
         | [] \<Rightarrow> raise ValueError ''unexpected end of data'')
      else raise ValueError ''invalid start byte'')"

text \<open>\<open>s.encode("ascii")\<close>\<close>

definition ascii_encode :: "string \<Rightarrow> bytes res" where
  "ascii_encode s =
     (if \<forall>c \<in> set s. (of_char c :: nat) < 128 then Inr (map (\<lambda>c. word_of_nat (of_char c)) s)
      else raise ValueError ''ordinal not in range(128)'')"

lemma unat_word_of_nat_8 [simp]: "n < 256 \<Longrightarrow> unat (word_of_nat n :: byte) = n"
  by (simp add: unat_of_nat)

lemma utf8_decode_char:
  "utf8_decode (utf8_char c @ bs) = bind_res (utf8_decode bs) (\<lambda>s. Inr (c # s))"
proof (cases "(of_char c :: nat) < 128")
  case True
  then have "(word_of_nat (of_char c) :: byte) < 128"
    by (simp add: word_less_nat_alt)
  with True show ?thesis
    by (simp add: utf8_char_def Let_def)
next
  case False
  define n where "n = (of_char c :: nat)"
  define b :: byte where "b = word_of_nat (192 + n div 64)"
  define d :: byte where "d = word_of_nat (128 + n mod 64)"
  have n: "128 \<le> n" "n < 256"
    using False by (simp_all add: n_def)
  have b: "unat b = 192 + n div 64"
    using n by (simp add: b_def del: of_nat_add)
  have d: "unat d = 128 + n mod 64"
    using n by (simp add: d_def del: of_nat_add)
  have "2 \<le> n div 64" "n div 64 < 4"
    using n by (simp_all add: less_eq_div_iff_mult_less_eq div_less_iff_less_mult)
  then have "n div 64 = 2 \<or> n div 64 = 3"
    by linarith
  then have "b = 194 \<or> b = 195"
    by (auto simp: b_def)
  moreover have "128 \<le> d \<and> d < 192"
    using d by (simp add: word_le_nat_alt word_less_nat_alt)
  moreover have "\<not> b < 128"
    using b by (simp add: word_less_nat_alt)
  moreover have "char_of ((unat b - 192) * 64 + (unat d - 128)) = c"
    using b d by (simp add: n_def)
  moreover have "utf8_char c = [b, d]"
    using False by (simp add: utf8_char_def Let_def b_def d_def n_def)
  ultimately show ?thesis by simp
qed

lemma utf8_roundtrip: "utf8_decode (utf8_encode s) = Inr s"
  by (induction s) (simp_all add: utf8_encode_def utf8_decode_char)

interpretation utf8: exact_codec utf8_encode utf8_decode "\<lambda>_. True"
  by unfold_locales (rule utf8_roundtrip)

lemma utf8_encode_inj: "utf8_encode s = utf8_encode t \<Longrightarrow> s = t"
  using utf8.enc_inj by (auto simp: inj_on_def)

lemma utf8_encode_append: "utf8_encode (s @ t) = utf8_encode s @ utf8_encode t"
  by (simp add: utf8_encode_def)

lemma ascii_encode_ok: "(\<And>c. c \<in> set s \<Longrightarrow> (of_char c :: nat) < 128) \<Longrightarrow>
    ascii_encode s = Inr (utf8_encode s)"
  by (induction s) (auto simp: ascii_encode_def utf8_encode_def utf8_char_def Let_def)

lemma ascii_encode_Inr: "ascii_encode s = Inr b \<Longrightarrow> b = utf8_encode s"
  using ascii_encode_ok by (auto simp: ascii_encode_def split: if_splits)

end
