(* ===== verification/Atf_Base64.thy ===== *)
theory Atf_Base64
  imports Atf_Text
begin

text \<open>
  \<open>reference/py/src/atf/_b64.py\<close>: base64url without padding, over the standard library's
  \<open>base64.urlsafe_b64encode\<close> and \<open>base64.urlsafe_b64decode\<close>. The decoder is CPython's lenient one:
  it skips every character outside the alphabet, stops at a padding sequence that completes a
  quad, and raises when the data characters left over do not make whole bytes.
\<close>

section \<open>The alphabet\<close>

definition b64_char :: "nat \<Rightarrow> char" where
  "b64_char v =
     (if v < 26 then char_of (65 + v)
      else if v < 52 then char_of (71 + v)
      else if v < 62 then char_of (v - 4)
      else if v = 62 then CHR ''-'' else CHR ''_'')"

definition b64_val :: "char \<Rightarrow> nat option" where
  "b64_val c =
     (let n = (of_char c :: nat) in
      if 65 \<le> n \<and> n \<le> 90 then Some (n - 65)
      else if 97 \<le> n \<and> n \<le> 122 then Some (n - 71)
      else if 48 \<le> n \<and> n \<le> 57 then Some (n + 4)
      else if c = CHR ''-'' \<or> c = CHR ''+'' then Some 62
      else if c = CHR ''_'' \<or> c = CHR ''/'' then Some 63
      else None)"

lemma b64_val_char [simp]:
  assumes "v < 64"
  shows "b64_val (b64_char v) = Some v"
proof -
  consider "v < 26" | "26 \<le> v" "v < 52" | "52 \<le> v" "v < 62" | "v = 62" | "v = 63"
    using assms by linarith
  then show ?thesis
    by cases (auto simp: b64_val_def b64_char_def Let_def)
qed

lemma b64_char_code:
  assumes "v < 64"
  shows "(of_char (b64_char v) :: nat) \<in> {65..90} \<union> {97..122} \<union> {48..57} \<union> {45, 95}"
proof -
  consider "v < 26" | "26 \<le> v" "v < 52" | "52 \<le> v" "v < 62" | "v = 62" | "v = 63"
    using assms by linarith
  then show ?thesis
    by cases (auto simp: b64_char_def)
qed

lemma b64_char_plain:
  assumes "v < 64"
  shows "b64_char v \<noteq> CHR ''=''" and "b64_char v \<noteq> CHR ''.''" and "(of_char (b64_char v) :: nat) < 128"
  using b64_char_code [OF assms] by auto

section \<open>Encoding\<close>

text \<open>\<open>base64.urlsafe_b64encode\<close>, padding included.\<close>

fun b64_encode :: "bytes \<Rightarrow> string" where
  "b64_encode [] = []"
| "b64_encode [a] =
     [b64_char (unat a div 4), b64_char (unat a mod 4 * 16), CHR ''='', CHR ''='']"
| "b64_encode [a, b] =
     [b64_char (unat a div 4), b64_char (unat a mod 4 * 16 + unat b div 16),
      b64_char (unat b mod 16 * 4), CHR ''='']"
| "b64_encode (a # b # c # rest) =
     b64_char (unat a div 4) # b64_char (unat a mod 4 * 16 + unat b div 16)
     # b64_char (unat b mod 16 * 4 + unat c div 64) # b64_char (unat c mod 64)
     # b64_encode rest"

text \<open>\<open>s.rstrip("=")\<close>\<close>

definition rstrip_pad :: "string \<Rightarrow> string" where
  "rstrip_pad s = rev (dropWhile (\<lambda>c. c = CHR ''='') (rev s))"

definition b64url_encode :: "bytes \<Rightarrow> string" where
  "b64url_encode data = rstrip_pad (b64_encode data)"

section \<open>Decoding\<close>

text \<open>
  \<open>binascii.a2b_base64\<close>: \<open>quad\<close> counts the data characters of the current quad, \<open>left\<close> holds
  the bits of the last one that no byte has taken yet, \<open>pads\<close> counts consecutive padding.
\<close>

fun a2b_base64 :: "nat \<Rightarrow> nat \<Rightarrow> nat \<Rightarrow> string \<Rightarrow> bytes res" where
  "a2b_base64 quad left pads [] =
     (if quad = 0 then Inr []
      else if quad = 1 then raise ValueError ''Invalid base64-encoded string''
      else raise ValueError ''Incorrect padding'')"
| "a2b_base64 quad left pads (c # cs) =
     (if c = CHR ''='' then
        (if 2 \<le> quad then
           (if 4 \<le> quad + (pads + 1) then Inr [] else a2b_base64 quad left (pads + 1) cs)
         else a2b_base64 quad left pads cs)
      else
        (case b64_val c of
           None \<Rightarrow> a2b_base64 quad left pads cs
         | Some v \<Rightarrow>
             if quad = 0 then a2b_base64 1 v 0 cs
             else if quad = 1 then
               bind_res (a2b_base64 2 (v mod 16) 0 cs)
                 (\<lambda>bs. Inr (word_of_nat (left * 4 + v div 16) # bs))
             else if quad = 2 then
               bind_res (a2b_base64 3 (v mod 4) 0 cs)
                 (\<lambda>bs. Inr (word_of_nat (left * 16 + v div 4) # bs))
             else
               bind_res (a2b_base64 0 0 0 cs)
                 (\<lambda>bs. Inr (word_of_nat (left * 64 + v) # bs))))"

definition urlsafe_b64decode :: "string \<Rightarrow> bytes res" where
  "urlsafe_b64decode s =
     (if \<forall>c \<in> set s. (of_char c :: nat) < 128 then a2b_base64 0 0 0 s
      else raise ValueError ''string argument should contain only ASCII characters'')"

definition b64url_decode :: "string \<Rightarrow> bytes res" where
  "b64url_decode s =
     (let pad = replicate (nat ((- int (length s)) mod 4)) (CHR ''='')
      in urlsafe_b64decode (s @ pad))"

section \<open>The round trip\<close>

lemma unat_byte_lt: "unat (a :: byte) < 256"
proof -
  have "unat a < 2 ^ LENGTH(8)"
    by (rule unsigned_less)
  then show ?thesis by simp
qed

lemma unat_byte_bounds [simp]:
  fixes a b :: byte
  shows "unat a div 4 < 64" "unat a mod 4 * 16 < 64" "unat a mod 16 * 4 < 64"
    "unat a mod 4 * 16 + unat b div 16 < 64" "unat a mod 16 * 4 + unat b div 64 < 64"
    "unat a mod 64 < 64"
  using unat_byte_lt [of a] unat_byte_lt [of b] by auto

lemma byte_regroup:
  fixes a b :: byte
  shows "(unat a mod 4 * 16 + unat b div 16) div 16 = unat a mod 4"
    "(unat a mod 4 * 16 + unat b div 16) mod 16 = unat b div 16"
    "(unat a mod 16 * 4 + unat b div 64) div 4 = unat a mod 16"
    "(unat a mod 16 * 4 + unat b div 64) mod 4 = unat b div 64"
    "unat b div 16 mod 16 = unat b div 16" "unat b div 64 mod 4 = unat b div 64"
  using unat_byte_lt [of a] unat_byte_lt [of b] by auto

lemma byte_rejoin:
  fixes b :: byte
  shows "word_of_nat (unat b div 4 * 4 + unat b mod 4) = b"
    and "word_of_nat (unat b div 16 * 16 + unat b mod 16) = b"
    and "word_of_nat (unat b div 64 * 64 + unat b mod 64) = b"
  by simp_all

lemma a2b_encode: "a2b_base64 0 0 0 (b64_encode bs) = Inr bs"
proof (induction bs rule: b64_encode.induct)
  case (2 a)
  then show ?case
    by (simp add: b64_char_plain byte_rejoin del: of_nat_add of_nat_mult)
next
  case (3 a b)
  then show ?case
    by (simp add: b64_char_plain byte_regroup byte_rejoin del: of_nat_add of_nat_mult)
next
  case (4 a b c rest)
  then show ?case
    by (simp add: b64_char_plain byte_regroup byte_rejoin del: of_nat_add of_nat_mult)
qed simp

text \<open>The data characters of the encoding, and how much padding follows them.\<close>

fun b64_data :: "bytes \<Rightarrow> string" where
  "b64_data [] = []"
| "b64_data [a] = [b64_char (unat a div 4), b64_char (unat a mod 4 * 16)]"
| "b64_data [a, b] =
     [b64_char (unat a div 4), b64_char (unat a mod 4 * 16 + unat b div 16),
      b64_char (unat b mod 16 * 4)]"
| "b64_data (a # b # c # rest) =
     b64_char (unat a div 4) # b64_char (unat a mod 4 * 16 + unat b div 16)
     # b64_char (unat b mod 16 * 4 + unat c div 64) # b64_char (unat c mod 64)
     # b64_data rest"

fun b64_pad :: "bytes \<Rightarrow> nat" where
  "b64_pad [] = 0"
| "b64_pad [a] = 2"
| "b64_pad [a, b] = 1"
| "b64_pad (a # b # c # rest) = b64_pad rest"

lemma b64_encode_split: "b64_encode bs = b64_data bs @ replicate (b64_pad bs) (CHR ''='')"
  by (induction bs rule: b64_encode.induct) (simp_all add: numeral_2_eq_2)

lemma b64_data_chars:
  "c \<in> set (b64_data bs) \<Longrightarrow> c \<noteq> CHR ''='' \<and> c \<noteq> CHR ''.'' \<and> (of_char c :: nat) < 128"
  by (induction bs rule: b64_data.induct) (auto simp: b64_char_plain)

lemma b64_length: "(length (b64_data bs) + b64_pad bs) mod 4 = 0"
  by (induction bs rule: b64_data.induct) simp_all

lemma b64_pad_less: "b64_pad bs < 3"
  by (induction bs rule: b64_pad.induct) simp_all

text \<open>What \<open>rstrip\<close> removes is exactly what the decoder's caller puts back.\<close>

lemma b64url_encode_data: "b64url_encode bs = b64_data bs"
proof -
  have "dropWhile (\<lambda>c. c = CHR ''='') (replicate n (CHR ''='') @ rev (b64_data bs))
      = rev (b64_data bs)" for n
    by (induction n) (use b64_data_chars [of "last (b64_data bs)" bs] in
      \<open>cases "b64_data bs" rule: rev_cases, auto\<close>)
  then show ?thesis
    by (simp add: b64url_encode_def rstrip_pad_def b64_encode_split)
qed

lemma neg_mod_4:
  assumes "(l + p) mod 4 = (0::nat)" and "p < 3"
  shows "nat ((- int l) mod 4) = p"
proof -
  obtain k where "l + p = 4 * k"
    using assms(1) by auto
  then have "- int l = int p + (- int k) * 4"
    by linarith
  then have "(- int l) mod 4 = int p mod 4"
    by (simp only: mod_mult_self1)
  with assms(2) show ?thesis by simp
qed

lemma b64url_encode_padded:
  "b64url_encode bs @ replicate (nat ((- int (length (b64url_encode bs))) mod 4)) (CHR ''='')
     = b64_encode bs"
  by (simp only: b64url_encode_data b64_encode_split neg_mod_4 [OF b64_length b64_pad_less])

lemma b64url_encode_no_dot [simp]: "CHR ''.'' \<notin> set (b64url_encode bs)"
  using b64_data_chars by (auto simp: b64url_encode_data)

lemma b64url_encode_ascii: "c \<in> set (b64url_encode bs) \<Longrightarrow> (of_char c :: nat) < 128"
  using b64_data_chars by (simp add: b64url_encode_data)

lemma b64_encode_ascii: "c \<in> set (b64_encode bs) \<Longrightarrow> (of_char c :: nat) < 128"
  using b64_data_chars by (auto simp: b64_encode_split)

lemma b64url_inverse: "b64url_decode (b64url_encode bs) = Inr bs"
  by (simp only: b64url_decode_def Let_def b64url_encode_padded)
    (simp add: urlsafe_b64decode_def b64_encode_ascii a2b_encode)

interpretation b64: exact_codec b64url_encode b64url_decode "\<lambda>_. True"
  by unfold_locales (rule b64url_inverse)

text \<open>Decoding an unpadded base64url string that \<open>b64url_encode\<close> made gives the bytes back,
  the string never contains the dot that separates the parts of a compact JWS, and no two byte
  strings share an encoding.\<close>

theorem b64url_roundtrip:
  "b64url_decode (b64url_encode bs) = Inr bs \<and> CHR ''.'' \<notin> set (b64url_encode bs)
   \<and> (b64url_encode bs = b64url_encode bs' \<longleftrightarrow> bs = bs')"
  using b64.enc_inj b64url_inverse [of bs] by (auto simp: inj_on_def)

end
