(* ===== verification/Atf_Json.thy ===== *)
theory Atf_Json
  imports Atf_Text
begin

text \<open>
  Python's dynamically typed values as the code handles them: what \<open>json.loads\<close> returns and
  \<open>json.dumps\<close> takes, with the operations of the language the code applies to such values
  (indexing, \<open>get\<close>, iteration, comparison, \<open>str\<close>, \<open>int\<close>, \<open>dict\<close>), each with the exceptions it
  raises on the wrong type, and the serializer.

  A finite float is the decimal it prints as: \<open>JFloat s m e\<close> is \<open>m * 10 ^ e\<close>, negated if \<open>s\<close>.
  For literals of at most 15 significant digits in the range of a double this is what Python
  computes with and prints; longer literals, which Python rounds, and the non-finite floats are
  outside the model.
\<close>

section \<open>Values\<close>

datatype json =
    JNull
  | JBool bool
  | JInt int
  | JFloat bool nat int
  | JStr string
  | JList "json list"
  | JDict "(string \<times> json) list"

type_synonym dict = "(string \<times> json) list"

lemma size_member [termination_simp]:
  "(k, v) \<in> set kvs \<Longrightarrow> size v < Suc (size_list (size_prod (size_list size) size) kvs)"
  by (induction kvs) auto

lemma size_member' [termination_simp]:
  "p \<in> set kvs \<Longrightarrow> size (snd p) < Suc (size_list (size_prod (size_list size) size) kvs)"
  using size_member [of "fst p" "snd p" kvs] by simp

lemma json_induct [case_names Null Bool Int Float Str List Dict]:
  assumes "P JNull" and "\<And>b. P (JBool b)" and "\<And>i. P (JInt i)" and "\<And>s m e. P (JFloat s m e)"
    and "\<And>s. P (JStr s)"
    and "\<And>xs. (\<And>x. x \<in> set xs \<Longrightarrow> P x) \<Longrightarrow> P (JList xs)"
    and "\<And>kvs. (\<And>k v. (k, v) \<in> set kvs \<Longrightarrow> P v) \<Longrightarrow> P (JDict kvs)"
  shows "P v"
proof (induction v)
  case (JDict kvs)
  show ?case
  proof (rule assms(7))
    fix k v
    assume "(k, v) \<in> set kvs"
    then show "P v" by (rule JDict.IH) simp
  qed
qed (use assms in auto)

text \<open>
  Normal values: a float's mantissa has no trailing zero, and an object has each key once.
  Every Python value is normal; the decoder returns normal values only.
\<close>

fun normal :: "json \<Rightarrow> bool" where
  "normal (JFloat s m e) \<longleftrightarrow> (if m = 0 then e = 0 else m mod 10 \<noteq> 0)"
| "normal (JList xs) \<longleftrightarrow> (\<forall>x \<in> set xs. normal x)"
| "normal (JDict kvs) \<longleftrightarrow> distinct (map fst kvs) \<and> (\<forall>p \<in> set kvs. normal (snd p))"
| "normal _ \<longleftrightarrow> True"

lemma normal_member: "normal (JDict kvs) \<Longrightarrow> map_of kvs k = Some v \<Longrightarrow> normal v"
  by (force dest: map_of_SomeD)

lemma normal_element: "normal (JList xs) \<Longrightarrow> x \<in> set xs \<Longrightarrow> normal x"
  by simp

text \<open>\<open>sort_keys=True\<close>: every object's members in the order of their keys.\<close>

fun sort_json :: "json \<Rightarrow> json" where
  "sort_json (JList xs) = JList (map sort_json xs)"
| "sort_json (JDict kvs) = JDict (sort_key fst (map (\<lambda>p. (fst p, sort_json (snd p))) kvs))"
| "sort_json v = v"

section \<open>Operations on values\<close>

text \<open>\<open>repr\<close> of a string: single quotes unless only double quotes avoid an escape.\<close>

definition str_repr_char :: "char \<Rightarrow> char \<Rightarrow> string" where
  "str_repr_char q c =
     (let n = (of_char c :: nat) in
      if c = q \<or> c = CHR 0x5C then [CHR 0x5C, c]
      else if n = 9 then [CHR 0x5C, CHR ''t'']
      else if n = 10 then [CHR 0x5C, CHR ''n'']
      else if n = 13 then [CHR 0x5C, CHR ''r'']
      else if n < 32 \<or> (127 \<le> n \<and> n \<le> 160) \<or> n = 173 then [CHR 0x5C, CHR ''x''] @ hex_byte n
      else [c])"

definition str_repr :: "string \<Rightarrow> string" where
  "str_repr s =
     (let q = (if CHR 0x27 \<in> set s \<and> CHR 0x22 \<notin> set s then CHR 0x22 else CHR 0x27)
      in q # concat (map (str_repr_char q) s) @ [q])"

text \<open>\<open>d[k] = v\<close>: an existing key keeps its place.\<close>

fun dict_put :: "string \<Rightarrow> json \<Rightarrow> dict \<Rightarrow> dict" where
  "dict_put k v [] = [(k, v)]"
| "dict_put k v (p # ps) = (if fst p = k then (k, v) # ps else p # dict_put k v ps)"

text \<open>\<open>d.get(k, default)\<close>, and \<open>d.get(k)\<close>.\<close>

definition py_get_or :: "json \<Rightarrow> string \<Rightarrow> json \<Rightarrow> json res" where
  "py_get_or d k dflt =
     (case d of
        JDict kvs \<Rightarrow> Inr (case map_of kvs k of None \<Rightarrow> dflt | Some v \<Rightarrow> v)
      | _ \<Rightarrow> raise AttributeError ''object has no attribute 'get' '')"

definition py_get :: "json \<Rightarrow> string \<Rightarrow> json res" where
  "py_get d k = py_get_or d k JNull"

text \<open>\<open>d[k]\<close> with a string key.\<close>

definition py_index :: "json \<Rightarrow> string \<Rightarrow> json res" where
  "py_index d k =
     (case d of
        JDict kvs \<Rightarrow> (case map_of kvs k of None \<Rightarrow> raise KeyError (str_repr k) | Some v \<Rightarrow> Inr v)
      | _ \<Rightarrow> raise TypeError ''indices must be integers'')"

text \<open>\<open>for x in v\<close>\<close>

definition py_iter :: "json \<Rightarrow> json list res" where
  "py_iter v =
     (case v of
        JList xs \<Rightarrow> Inr xs
      | JDict kvs \<Rightarrow> Inr (map (\<lambda>p. JStr (fst p)) kvs)
      | JStr s \<Rightarrow> Inr (map (\<lambda>c. JStr [c]) s)
      | _ \<Rightarrow> raise TypeError ''object is not iterable'')"

text \<open>\<open>bool(v)\<close>\<close>

fun py_true :: "json \<Rightarrow> bool" where
  "py_true JNull \<longleftrightarrow> False"
| "py_true (JBool b) \<longleftrightarrow> b"
| "py_true (JInt i) \<longleftrightarrow> i \<noteq> 0"
| "py_true (JFloat s m e) \<longleftrightarrow> m \<noteq> 0"
| "py_true (JStr s) \<longleftrightarrow> s \<noteq> []"
| "py_true (JList xs) \<longleftrightarrow> xs \<noteq> []"
| "py_true (JDict kvs) \<longleftrightarrow> kvs \<noteq> []"

text \<open>\<open>v or {}\<close>\<close>

definition or_empty :: "json \<Rightarrow> json" where
  "or_empty v = (if py_true v then v else JDict [])"

text \<open>
  \<open>a == b\<close>: numbers of any type by value, objects regardless of the order of their keys. Two
  values are equal when their forms with integral numbers as integers and sorted keys are.
\<close>

definition num_form :: "bool \<Rightarrow> nat \<Rightarrow> int \<Rightarrow> json" where
  "num_form s m e =
     (if m = 0 then JInt 0
      else if 0 \<le> e then JInt ((if s then -1 else 1) * int m * 10 ^ nat e)
      else JFloat s m e)"

fun eq_form :: "json \<Rightarrow> json" where
  "eq_form (JBool b) = JInt (if b then 1 else 0)"
| "eq_form (JFloat s m e) = num_form s m e"
| "eq_form (JList xs) = JList (map eq_form xs)"
| "eq_form (JDict kvs) = JDict (sort_key fst (map (\<lambda>p. (fst p, eq_form (snd p))) kvs))"
| "eq_form v = v"

definition py_eq :: "json \<Rightarrow> json \<Rightarrow> bool" where
  "py_eq a b \<longleftrightarrow> eq_form a = eq_form b"

lemma num_form_not_Str [simp]: "num_form s m e \<noteq> JStr t"
  by (simp add: num_form_def)

lemma py_eq_Str [simp]: "py_eq v (JStr s) \<longleftrightarrow> v = JStr s" "py_eq (JStr s) v \<longleftrightarrow> v = JStr s"
  by (cases v; auto simp: py_eq_def dest: sym)+

lemma py_eq_refl [simp]: "py_eq v v"
  by (simp add: py_eq_def)

text \<open>Whether a value may be a dict key or a set member.\<close>

definition hashable :: "json \<Rightarrow> bool" where
  "hashable v \<longleftrightarrow> (case v of JList _ \<Rightarrow> False | JDict _ \<Rightarrow> False | _ \<Rightarrow> True)"

text \<open>\<open>n >= v\<close> for an integer \<open>n\<close>; \<open>n < v\<close> is its negation on the same values.\<close>

definition int_ge_json :: "int \<Rightarrow> json \<Rightarrow> bool res" where
  "int_ge_json n v =
     (case v of
        JInt i \<Rightarrow> Inr (i \<le> n)
      | JBool b \<Rightarrow> Inr ((if b then 1 else 0) \<le> n)
      | JFloat s m e \<Rightarrow>
          Inr (let x = (if s then - int m else int m)
               in if 0 \<le> e then x * 10 ^ nat e \<le> n else x \<le> n * 10 ^ nat (- e))
      | _ \<Rightarrow> raise TypeError ''comparison not supported between these types'')"

definition int_lt_json :: "int \<Rightarrow> json \<Rightarrow> bool res" where
  "int_lt_json n v = bind_res (int_ge_json n v) (\<lambda>b. Inr (\<not> b))"

section \<open>Text of values\<close>

text \<open>\<open>repr\<close> of a float.\<close>

definition float_exp_part :: "int \<Rightarrow> string" where
  "float_exp_part x =
     CHR ''e'' # (if x < 0 then CHR ''-'' else CHR ''+'')
     # (let ds = nat_str (nat \<bar>x\<bar>) in if length ds < 2 then CHR ''0'' # ds else ds)"

definition float_digits :: "nat \<Rightarrow> int \<Rightarrow> string" where
  "float_digits m e =
     (let ds = nat_str m;
          n = int (length ds);
          decpt = n + e
      in if decpt \<le> -4 \<or> 16 < decpt then
           hd ds # (if tl ds = [] then [] else CHR ''.'' # tl ds) @ float_exp_part (decpt - 1)
         else if decpt \<le> 0 then ''0.'' @ replicate (nat (- decpt)) (CHR ''0'') @ ds
         else if n \<le> decpt then ds @ replicate (nat (decpt - n)) (CHR ''0'') @ ''.0''
         else take (nat decpt) ds @ CHR ''.'' # drop (nat decpt) ds)"

definition float_repr :: "bool \<Rightarrow> nat \<Rightarrow> int \<Rightarrow> string" where
  "float_repr s m e = (if s then CHR ''-'' # float_digits m e else float_digits m e)"

fun py_repr :: "json \<Rightarrow> string" where
  "py_repr JNull = ''None''"
| "py_repr (JBool b) = (if b then ''True'' else ''False'')"
| "py_repr (JInt i) = int_str i"
| "py_repr (JFloat s m e) = float_repr s m e"
| "py_repr (JStr s) = str_repr s"
| "py_repr (JList xs) = ''['' @ join '', '' (map py_repr xs) @ '']''"
| "py_repr (JDict kvs) =
     ''{'' @ join '', '' (map (\<lambda>p. str_repr (fst p) @ '': '' @ py_repr (snd p)) kvs) @ ''}''"

text \<open>\<open>str(v)\<close>\<close>

definition py_str :: "json \<Rightarrow> string" where
  "py_str v = (case v of JStr s \<Rightarrow> s | _ \<Rightarrow> py_repr v)"

text \<open>
  \<open>int(v)\<close>: an integer, a float cut towards zero, or a decimal string with optional sign,
  surrounding white space and single underscores between digits.
\<close>

definition py_space :: "char \<Rightarrow> bool" where
  "py_space c \<longleftrightarrow> (of_char c :: nat) \<in> {9, 10, 11, 12, 13, 32, 133, 160}"

definition py_strip :: "string \<Rightarrow> string" where
  "py_strip s = rev (dropWhile py_space (rev (dropWhile py_space s)))"

definition int_of_digits :: "string \<Rightarrow> int res" where
  "int_of_digits s =
     (if list_all (\<lambda>w. w \<noteq> [] \<and> list_all is_digit w) (split_on (CHR ''_'') s)
      then Inr (int (digits_val (filter is_digit s)))
      else raise ValueError ''invalid literal for int() with base 10'')"

definition int_of_str :: "string \<Rightarrow> int res" where
  "int_of_str s =
     (case py_strip s of
        c # cs \<Rightarrow>
          if c = CHR ''-'' then bind_res (int_of_digits cs) (\<lambda>i. Inr (- i))
          else if c = CHR ''+'' then int_of_digits cs
          else int_of_digits (c # cs)
      | [] \<Rightarrow> raise ValueError ''invalid literal for int() with base 10'')"

definition py_int :: "json \<Rightarrow> int res" where
  "py_int v =
     (case v of
        JInt i \<Rightarrow> Inr i
      | JBool b \<Rightarrow> Inr (if b then 1 else 0)
      | JFloat s m e \<Rightarrow>
          Inr (let x = (if 0 \<le> e then int m * 10 ^ nat e else int m div 10 ^ nat (- e))
               in if s then - x else x)
      | JStr s \<Rightarrow> int_of_str s
      | _ \<Rightarrow> raise TypeError ''int() argument must be a string or a real number'')"

text \<open>
  \<open>dict(v)\<close>: a copy of an object, or an object from a sequence of two-element sequences. A pair
  whose first element is not a string would make a key JSON has no form for; the model raises.
\<close>

definition py_pair :: "json \<Rightarrow> (string \<times> json) res" where
  "py_pair v =
     bind_res (py_iter v)
       (\<lambda>xs. case xs of
          [JStr k, x] \<Rightarrow> Inr (k, x)
        | [_, _] \<Rightarrow> raise TypeError ''key is not a string''
        | _ \<Rightarrow> raise ValueError ''dictionary update sequence element has the wrong length'')"

definition py_dict :: "json \<Rightarrow> dict res" where
  "py_dict v =
     (case v of
        JDict kvs \<Rightarrow> Inr kvs
      | _ \<Rightarrow> bind_res (py_iter v)
               (\<lambda>xs. bind_res (map_res py_pair xs)
                  (\<lambda>ps. Inr (foldl (\<lambda>d p. dict_put (fst p) (snd p) d) [] ps))))"

section \<open>json.dumps\<close>

text \<open>
  A string literal. With \<open>ensure_ascii\<close> everything outside printable ASCII is escaped, without
  it only the control characters below 32; quote and backslash always are.
\<close>

definition escape_char :: "bool \<Rightarrow> char \<Rightarrow> string" where
  "escape_char ascii c =
     (let n = (of_char c :: nat) in
      if n = 34 \<or> n = 92 then [CHR 0x5C, c]
      else if n = 10 then [CHR 0x5C, CHR ''n'']
      else if n = 13 then [CHR 0x5C, CHR ''r'']
      else if n = 9 then [CHR 0x5C, CHR ''t'']
      else if n = 12 then [CHR 0x5C, CHR ''f'']
      else if n = 8 then [CHR 0x5C, CHR ''b'']
      else if n < 32 \<or> (ascii \<and> 127 \<le> n) then [CHR 0x5C, CHR ''u'', CHR ''0'', CHR ''0''] @ hex_byte n
      else [c])"

definition quote :: "bool \<Rightarrow> string \<Rightarrow> string" where
  "quote ascii s = CHR 0x22 # concat (map (escape_char ascii) s) @ [CHR 0x22]"

text \<open>\<open>json.dumps(v, separators=(",", ":"), ensure_ascii=ascii)\<close>\<close>

fun render :: "bool \<Rightarrow> json \<Rightarrow> string" where
  "render a JNull = ''null''"
| "render a (JBool b) = (if b then ''true'' else ''false'')"
| "render a (JInt i) = int_str i"
| "render a (JFloat s m e) = float_repr s m e"
| "render a (JStr s) = quote a s"
| "render a (JList xs) = ''['' @ join '','' (map (render a) xs) @ '']''"
| "render a (JDict kvs) =
     ''{'' @ join '','' (map (\<lambda>p. quote a (fst p) @ '':'' @ render a (snd p)) kvs) @ ''}''"

text \<open>\<open>json.dumps(v, sort_keys=True, separators=(",", ":"), ensure_ascii=ascii)\<close>\<close>

definition dumps :: "bool \<Rightarrow> json \<Rightarrow> string" where
  "dumps a v = render a (sort_json v)"

section \<open>Laws of the value operations\<close>

lemma py_get_Dict [simp]:
  "py_get (JDict kvs) k = Inr (case map_of kvs k of None \<Rightarrow> JNull | Some v \<Rightarrow> v)"
  by (simp add: py_get_def py_get_or_def)

lemma py_get_or_Dict [simp]:
  "py_get_or (JDict kvs) k d = Inr (case map_of kvs k of None \<Rightarrow> d | Some v \<Rightarrow> v)"
  by (simp add: py_get_or_def)

lemma py_index_Inr: "py_index d k = Inr v \<longleftrightarrow> (\<exists>kvs. d = JDict kvs \<and> map_of kvs k = Some v)"
  by (cases d) (auto simp: py_index_def split: option.splits)

lemma py_index_Dict [simp]:
  "py_index (JDict kvs) k = (case map_of kvs k of None \<Rightarrow> raise KeyError (str_repr k) | Some v \<Rightarrow> Inr v)"
  by (simp add: py_index_def)

lemma py_iter_List [simp]: "py_iter (JList xs) = Inr xs"
  by (simp add: py_iter_def)

lemma py_dict_Dict [simp]: "py_dict (JDict kvs) = Inr kvs"
  by (simp add: py_dict_def)

lemma or_empty_Dict [simp]: "or_empty (JDict kvs) = JDict kvs"
  by (simp add: or_empty_def)

lemma or_empty_Null [simp]: "or_empty JNull = JDict []"
  by (simp add: or_empty_def)

lemma py_int_Int [simp]: "py_int (JInt i) = Inr i"
  by (simp add: py_int_def)

lemma py_str_Str [simp]: "py_str (JStr s) = s"
  by (simp add: py_str_def)

lemma int_ge_json_Int [simp]: "int_ge_json n (JInt i) = Inr (i \<le> n)"
  by (simp add: int_ge_json_def)

lemma int_lt_json_Int [simp]: "int_lt_json n (JInt i) = Inr (n < i)"
  by (simp add: int_lt_json_def not_le)

lemma dict_put_keys: "fst ` set (dict_put k v d) = insert k (fst ` set d)"
  by (induction d) auto

lemma dict_put_distinct: "distinct (map fst d) \<Longrightarrow> distinct (map fst (dict_put k v d))"
proof (induction d)
  case Nil
  then show ?case by simp
next
  case (Cons p ps)
  then show ?case
    using dict_put_keys [of k v ps] by (auto simp: image_iff)
qed

lemma dict_put_lookup: "map_of (dict_put k v d) x = (if x = k then Some v else map_of d x)"
  by (induction d) auto

lemma dict_put_new: "k \<notin> fst ` set d \<Longrightarrow> dict_put k v d = d @ [(k, v)]"
  by (induction d) auto

lemma dict_put_values: "p \<in> set (dict_put k v d) \<Longrightarrow> p = (k, v) \<or> p \<in> set d"
  by (induction d) (auto split: if_splits)

end
