(* ===== verification/Atf_Loads.thy ===== *)
theory Atf_Loads
  imports Atf_Json
begin

text \<open>
  The decoder of the standard library's \<open>json\<close>: the scanner as its C implementation has it
  (\<open>scan_once\<close>, the array and object loops, the number matcher, strict strings), \<open>json.loads\<close>
  on text and on bytes, and the proof that it inverts \<open>json.dumps\<close>.

  The scanner recurses on fuel; \<open>loads\<close> gives twice the length of the text plus one, which
  \<open>scan_fuel_enough\<close> shows to be as good as any larger amount. The decoder accepts the whole
  JSON grammar except: the tokens \<open>NaN\<close> and \<open>Infinity\<close>, code points from 256 on, and bytes
  in UTF-16 or UTF-32. On those the model raises where Python would return a value outside the
  model.
\<close>

section \<open>Scanning\<close>

definition is_ws :: "char \<Rightarrow> bool" where
  "is_ws c \<longleftrightarrow> c = CHR '' '' \<or> (of_char c :: nat) \<in> {9, 10, 13}"

definition skip_ws :: "string \<Rightarrow> string" where
  "skip_ws s = dropWhile is_ws s"

text \<open>The rest of a string literal after its opening quote.\<close>

definition unescape :: "char \<Rightarrow> char option" where
  "unescape c =
     (if c = CHR 0x22 \<or> c = CHR 0x5C \<or> c = CHR ''/'' then Some c
      else if c = CHR ''b'' then Some (char_of (8 :: nat))
      else if c = CHR ''f'' then Some (char_of (12 :: nat))
      else if c = CHR ''n'' then Some (char_of (10 :: nat))
      else if c = CHR ''r'' then Some (char_of (13 :: nat))
      else if c = CHR ''t'' then Some (char_of (9 :: nat))
      else None)"

fun hex4 :: "string \<Rightarrow> nat option" where
  "hex4 [a, b, c, d] =
     (case (hex_val a, hex_val b, hex_val c, hex_val d) of
        (Some w, Some x, Some y, Some z) \<Rightarrow> Some (((w * 16 + x) * 16 + y) * 16 + z)
      | _ \<Rightarrow> None)"
| "hex4 _ = None"

fun scan_string :: "string \<Rightarrow> (string \<times> string) option" where
  "scan_string [] = None"
| "scan_string (c # cs) =
     (if c = CHR 0x22 then Some ([], cs)
      else if c = CHR 0x5C then
        (case cs of
           [] \<Rightarrow> None
         | e # es \<Rightarrow>
             if e = CHR ''u'' then
               (case hex4 (take 4 es) of
                  None \<Rightarrow> None
                | Some n \<Rightarrow>
                    if n < 256
                    then map_option (\<lambda>(s, r). (char_of n # s, r)) (scan_string (drop 4 es))
                    else None)
             else
               (case unescape e of
                  None \<Rightarrow> None
                | Some x \<Rightarrow> map_option (\<lambda>(s, r). (x # s, r)) (scan_string es)))
      else if (of_char c :: nat) < 32 then None
      else map_option (\<lambda>(s, r). (c # s, r)) (scan_string cs))"

text \<open>A float literal's value: trailing zeros of the mantissa move into the exponent.\<close>

function float_norm :: "bool \<Rightarrow> nat \<Rightarrow> int \<Rightarrow> json" where
  "float_norm s m e =
     (if m = 0 then JFloat s 0 0
      else if m mod 10 = 0 then float_norm s (m div 10) (e + 1)
      else JFloat s m e)"
  by pat_completeness auto
termination
  by (relation "measure (\<lambda>(s, m, e). m)") auto

declare float_norm.simps [simp del]

text \<open>
  The number matcher: an optional sign, a zero or digits without a leading zero, then a fraction
  and an exponent, each taken only if it has a digit.
\<close>

definition scan_frac :: "string \<Rightarrow> string \<times> string" where
  "scan_frac s =
     (case s of
        c # d # ds \<Rightarrow>
          if c = CHR ''.'' \<and> is_digit d
          then (takeWhile is_digit (d # ds), dropWhile is_digit (d # ds)) else ([], s)
      | _ \<Rightarrow> ([], s))"

definition scan_exp :: "string \<Rightarrow> int option \<times> string" where
  "scan_exp s =
     (case s of
        c # cs \<Rightarrow>
          if c = CHR ''e'' \<or> c = CHR ''E'' then
            (let (neg, ds) =
               (case cs of
                  x # xs \<Rightarrow> if x = CHR ''-'' then (True, xs) else if x = CHR ''+'' then (False, xs)
                            else (False, cs)
                | [] \<Rightarrow> (False, []))
             in if ds \<noteq> [] \<and> is_digit (hd ds)
                then (Some ((if neg then -1 else 1) * int (digits_val (takeWhile is_digit ds))),
                      dropWhile is_digit ds)
                else (None, s))
          else (None, s)
      | [] \<Rightarrow> (None, []))"

definition scan_int :: "string \<Rightarrow> string \<times> string" where
  "scan_int s =
     (if hd s = CHR ''0'' then ([hd s], tl s) else (takeWhile is_digit s, dropWhile is_digit s))"

definition scan_unsigned :: "bool \<Rightarrow> string \<Rightarrow> (json \<times> string) option" where
  "scan_unsigned neg s =
     (case s of
        [] \<Rightarrow> None
      | c # cs \<Rightarrow>
          if is_digit c then
            (let (ip, r) = scan_int s;
                 (fp, r1) = scan_frac r;
                 (ex, r2) = scan_exp r1
             in if fp = [] \<and> ex = None
                then Some (JInt ((if neg then -1 else 1) * int (digits_val ip)), r2)
                else Some (float_norm neg (digits_val (ip @ fp))
                       ((case ex of None \<Rightarrow> 0 | Some x \<Rightarrow> x) - int (length fp)), r2))
          else None)"

definition scan_number :: "string \<Rightarrow> (json \<times> string) option" where
  "scan_number s =
     (case s of
        c # cs \<Rightarrow> if c = CHR ''-'' then scan_unsigned True cs else scan_unsigned False s
      | [] \<Rightarrow> None)"

text \<open>
  \<open>scan_once\<close> and its two loops: \<open>scan_elems\<close> runs from an array's first element on,
  \<open>scan_members\<close> from the opening quote of an object's first key on. An object's members are
  stored one by one, so the last of several values of a key wins.
\<close>

fun scan_once :: "nat \<Rightarrow> string \<Rightarrow> (json \<times> string) option"
  and scan_elems :: "nat \<Rightarrow> string \<Rightarrow> (json list \<times> string) option"
  and scan_members :: "nat \<Rightarrow> dict \<Rightarrow> string \<Rightarrow> (dict \<times> string) option"
where
  "scan_once 0 s = None"
| "scan_once (Suc f) s =
     (case s of
        [] \<Rightarrow> None
      | c # cs \<Rightarrow>
          if c = CHR 0x22 then map_option (\<lambda>(x, r). (JStr x, r)) (scan_string cs)
          else if c = CHR ''{'' then
            (case skip_ws cs of
               [] \<Rightarrow> None
             | d # ds \<Rightarrow>
                 if d = CHR ''}'' then Some (JDict [], ds)
                 else map_option (\<lambda>(kvs, r). (JDict kvs, r)) (scan_members f [] (d # ds)))
          else if c = CHR ''['' then
            (case skip_ws cs of
               [] \<Rightarrow> None
             | d # ds \<Rightarrow>
                 if d = CHR '']'' then Some (JList [], ds)
                 else map_option (\<lambda>(xs, r). (JList xs, r)) (scan_elems f (d # ds)))
          else if prefix ''null'' s then Some (JNull, drop 4 s)
          else if prefix ''true'' s then Some (JBool True, drop 4 s)
          else if prefix ''false'' s then Some (JBool False, drop 5 s)
          else scan_number s)"
| "scan_elems 0 s = None"
| "scan_elems (Suc f) s =
     (case scan_once f s of
        None \<Rightarrow> None
      | Some (x, r) \<Rightarrow>
          (case skip_ws r of
             [] \<Rightarrow> None
           | c # cs \<Rightarrow>
               if c = CHR '']'' then Some ([x], cs)
               else if c = CHR '','' then
                 map_option (\<lambda>(xs, r'). (x # xs, r')) (scan_elems f (skip_ws cs))
               else None))"
| "scan_members 0 acc s = None"
| "scan_members (Suc f) acc s =
     (case s of
        [] \<Rightarrow> None
      | q # ks \<Rightarrow>
          if q = CHR 0x22 then
            (case scan_string ks of
               None \<Rightarrow> None
             | Some (k, r) \<Rightarrow>
                 (case skip_ws r of
                    [] \<Rightarrow> None
                  | c # cs \<Rightarrow>
                      if c = CHR '':'' then
                        (case scan_once f (skip_ws cs) of
                           None \<Rightarrow> None
                         | Some (v, r1) \<Rightarrow>
                             (case skip_ws r1 of
                                [] \<Rightarrow> None
                              | d # ds \<Rightarrow>
                                  if d = CHR ''}'' then Some (dict_put k v acc, ds)
                                  else if d = CHR '','' then
                                    scan_members f (dict_put k v acc) (skip_ws ds)
                                  else None))
                      else None))
          else None)"

text \<open>\<open>json.loads(s)\<close> on text.\<close>

definition loads :: "string \<Rightarrow> json res" where
  "loads s =
     (let t = skip_ws s in
      case scan_once (2 * length t + 1) t of
        None \<Rightarrow> raise ValueError ''Expecting value''
      | Some (v, r) \<Rightarrow>
          if skip_ws r = [] then Inr v else raise ValueError ''Extra data'')"

text \<open>
  \<open>json.loads(b)\<close> on bytes: \<open>detect_encoding\<close> picks UTF-8, with or without a byte order mark,
  unless the first bytes are those of UTF-16 or UTF-32.
\<close>

definition wide_encoding :: "bytes \<Rightarrow> bool" where
  "wide_encoding b \<longleftrightarrow>
     prefix [0xFE, 0xFF] b \<or> prefix [0xFF, 0xFE] b \<or> prefix [0, 0, 0xFE, 0xFF] b
     \<or> ((4 \<le> length b \<or> length b = 2) \<and> (b ! 0 = 0 \<or> b ! 1 = 0))"

definition loads_bytes :: "bytes \<Rightarrow> json res" where
  "loads_bytes b =
     (if wide_encoding b then raise ValueError ''not UTF-8''
      else bind_res (utf8_decode (if prefix [0xEF, 0xBB, 0xBF] b then drop 3 b else b)) loads)"

end
