(* ===== verification/Atf_Roundtrip.thy ===== *)
theory Atf_Roundtrip
  imports Atf_Loads
begin

text \<open>
  \<open>json.loads\<close> inverts \<open>json.dumps\<close>: strings, numbers, then whole values, with the fuel the
  scanner is given. What follows a rendered value inside another one is a comma, a closing
  bracket or nothing; \<open>stops\<close> says so.
\<close>

section \<open>Strings\<close>

lemma hex4_hex_byte:
  assumes "n < 256"
  shows "hex4 (CHR ''0'' # CHR ''0'' # hex_byte n) = Some n"
proof -
  have "hex_val (CHR ''0'') = Some 0"
    by (simp add: hex_val_def)
  then show ?thesis
    using assms by (simp add: hex_byte_def less_mult_imp_div_less)
qed

lemma char_code: "\<exists>n :: nat. n < 256 \<and> c = char_of n"
  by (intro exI [of _ "of_char c"]) simp

lemma scan_string_escape:
  "scan_string (escape_char a c @ t) = map_option (\<lambda>(s, r). (c # s, r)) (scan_string t)"
proof -
  obtain n :: nat where n: "n < 256" "c = char_of n"
    using char_code by blast
  consider "n = 34 \<or> n = 92" | "n \<in> {8, 9, 10, 12, 13}"
    | "n < 32 \<or> a \<and> 127 \<le> n" "n \<notin> {8, 9, 10, 12, 13}" "n \<noteq> 34" "n \<noteq> 92"
    | "32 \<le> n" "\<not> (a \<and> 127 \<le> n)" "n \<noteq> 34" "n \<noteq> 92"
    by fastforce
  then show ?thesis
  proof cases
    case 1
    then have "c = CHR 0x22 \<or> c = CHR 0x5C"
      by (auto simp: n char_of_eq_iff)
    then show ?thesis
      by (auto simp: escape_char_def unescape_def)
  next
    case 2
    then show ?thesis
      by (auto simp: n(2) escape_char_def unescape_def)
  next
    case 3
    then have "escape_char a c = [CHR 0x5C, CHR ''u'', CHR ''0'', CHR ''0''] @ hex_byte n"
      using n by (auto simp: escape_char_def Let_def)
    moreover have "take 4 ([CHR ''0'', CHR ''0''] @ hex_byte n @ t) = CHR ''0'' # CHR ''0'' # hex_byte n"
      by (simp add: hex_byte_def)
    moreover have "drop 4 ([CHR ''0'', CHR ''0''] @ hex_byte n @ t) = t"
      by (simp add: hex_byte_def)
    ultimately show ?thesis
      using n hex4_hex_byte [OF n(1)] by simp
  next
    case 4
    then have "escape_char a c = [c]"
      using n by (auto simp: escape_char_def Let_def)
    moreover have "c \<noteq> CHR 0x22" "c \<noteq> CHR 0x5C" "\<not> (of_char c :: nat) < 32"
      using 4 n by (simp_all add: char_of_eq_iff take_bit_eq_mod)
    ultimately show ?thesis by simp
  qed
qed

lemma scan_string_escapes:
  "scan_string (concat (map (escape_char a) s) @ CHR 0x22 # rest) = Some (s, rest)"
  by (induction s) (simp_all add: scan_string_escape)

section \<open>Numbers\<close>

definition stops :: "string \<Rightarrow> bool" where
  "stops r \<longleftrightarrow> r = [] \<or> hd r \<in> {CHR '','', CHR '']'', CHR ''}''} \<or> is_ws (hd r)"

lemma stops_simps [simp]:
  "stops []" "stops (CHR '','' # r)" "stops (CHR '']'' # r)" "stops (CHR ''}'' # r)"
  by (simp_all add: stops_def)

definition no_digit :: "string \<Rightarrow> bool" where
  "no_digit r \<longleftrightarrow> (case r of [] \<Rightarrow> True | c # _ \<Rightarrow> \<not> is_digit c)"

lemma no_digit_simps [simp]:
  "no_digit []" "no_digit (CHR ''.'' # r)" "no_digit (CHR ''e'' # r)" "stops r \<Longrightarrow> no_digit r"
  by (auto simp: no_digit_def stops_def is_digit_def is_ws_def split: list.splits)

lemma digit_span:
  assumes "list_all is_digit ds" and "no_digit r"
  shows "takeWhile is_digit (ds @ r) = ds" and "dropWhile is_digit (ds @ r) = r"
  using assms by (induction ds) (auto simp: no_digit_def split: list.splits)

lemma nat_str_all_digits [simp]: "list_all is_digit (nat_str n)"
  using nat_str_digits by (auto simp: list_all_iff)

lemma zeros_all_digits [simp]: "list_all is_digit (replicate n (CHR ''0''))"
  by (auto simp: list_all_iff is_digit_def)

text \<open>An integer part: a lone zero or digits that do not start with one.\<close>

definition int_part :: "string \<Rightarrow> bool" where
  "int_part ip \<longleftrightarrow> ip = ''0'' \<or> ip \<noteq> [] \<and> list_all is_digit ip \<and> hd ip \<noteq> CHR ''0''"

lemma int_part_nat_str: "int_part (nat_str n)"
  by (cases "n = 0") (auto simp: int_part_def nat_str_0 nat_str_hd)

lemma scan_unsigned_parts:
  assumes "int_part ip" and "no_digit r" and "scan_frac r = (fp, r1)" and "scan_exp r1 = (ex, r2)"
  shows "scan_unsigned neg (ip @ r) =
    (if fp = [] \<and> ex = None
     then Some (JInt ((if neg then -1 else 1) * int (digits_val ip)), r2)
     else Some (float_norm neg (digits_val (ip @ fp))
            ((case ex of None \<Rightarrow> 0 | Some x \<Rightarrow> x) - int (length fp)), r2))"
proof -
  obtain c cs where ip: "ip = c # cs"
    using assms(1) by (cases ip) (auto simp: int_part_def)
  have c: "is_digit c"
    using assms(1) ip by (auto simp: int_part_def is_digit_def)
  have "scan_int (ip @ r) = (ip, r)"
    using assms(1,2) ip digit_span [of ip r] by (auto simp: int_part_def scan_int_def)
  then show ?thesis
    using assms(3,4) c ip by (simp add: scan_unsigned_def)
qed

lemma scan_frac_stop: "stops r \<or> (\<exists>t. r = CHR ''e'' # t) \<Longrightarrow> scan_frac r = ([], r)"
  by (auto simp: scan_frac_def stops_def is_ws_def split: list.splits)

lemma scan_exp_stop: "stops r \<Longrightarrow> scan_exp r = (None, r)"
  by (auto simp: scan_exp_def stops_def is_ws_def split: list.splits)

lemma scan_unsigned_int:
  assumes "stops r"
  shows "scan_unsigned neg (nat_str n @ r) = Some (JInt ((if neg then -1 else 1) * int n), r)"
  using scan_unsigned_parts [OF int_part_nat_str, of r "[]" r None r neg n] assms
  by (simp add: scan_frac_stop scan_exp_stop)

lemma scan_number_int:
  assumes "stops r"
  shows "scan_number (int_str i @ r) = Some (JInt i, r)"
proof (cases "i < 0")
  case True
  then show ?thesis
    using scan_unsigned_int [OF assms, of True "nat (- i)"] by (simp add: int_str_def scan_number_def)
next
  case False
  obtain c cs where c: "nat_str (nat i) = c # cs"
    by (cases "nat_str (nat i)") auto
  then have "is_digit c"
    using nat_str_digits [of c "nat i"] by simp
  with False c show ?thesis
    using scan_unsigned_int [OF assms, of False "nat i"] by (auto simp: int_str_def scan_number_def)
qed

lemma float_norm_shift:
  "m mod 10 \<noteq> 0 \<Longrightarrow> float_norm s (m * 10 ^ k) e = JFloat s m (e + int k)"
proof (induction k arbitrary: e)
  case 0
  then show ?case by (auto simp: float_norm.simps [of s m])
next
  case (Suc k)
  then have "m * 10 ^ Suc k \<noteq> 0" by auto
  moreover have "m * 10 ^ Suc k mod 10 = 0" "m * 10 ^ Suc k div 10 = m * 10 ^ k" by simp_all
  ultimately have "float_norm s (m * 10 ^ Suc k) e = float_norm s (m * 10 ^ k) (e + 1)"
    by (subst float_norm.simps) (simp only: if_False if_True simp_thms)
  with Suc show ?case by simp
qed

lemma scan_exp_part:
  assumes "stops r"
  shows "scan_exp (float_exp_part x @ r) = (Some x, r)"
proof -
  obtain ds where ds: "float_exp_part x = CHR ''e'' # (if x < 0 then CHR ''-'' else CHR ''+'') # ds"
      "list_all is_digit ds" "ds \<noteq> []" "digits_val ds = nat \<bar>x\<bar>"
  proof (cases "length (nat_str (nat \<bar>x\<bar>)) < 2")
    case True
    have "digits_val (CHR ''0'' # nat_str (nat \<bar>x\<bar>)) = nat \<bar>x\<bar>"
      using digits_val_zeros_append [of 1 "nat_str (nat \<bar>x\<bar>)"] by simp
    with True show ?thesis
      using that [of "CHR ''0'' # nat_str (nat \<bar>x\<bar>)"]
      by (simp add: float_exp_part_def Let_def is_digit_def)
  next
    case False
    then show ?thesis
      using that [of "nat_str (nat \<bar>x\<bar>)"] by (simp add: float_exp_part_def Let_def)
  qed
  have "is_digit (hd (ds @ r))" "ds @ r \<noteq> []"
    using ds(2,3) by (cases ds; simp)+
  moreover have "takeWhile is_digit (ds @ r) = ds" "dropWhile is_digit (ds @ r) = r"
    using digit_span [OF ds(2), of r] assms by simp_all
  ultimately show ?thesis
    using ds(1,4) by (auto simp: scan_exp_def)
qed

lemma scan_frac_digits:
  assumes "fp \<noteq> []" and "list_all is_digit fp" and "no_digit r"
  shows "scan_frac (CHR ''.'' # fp @ r) = (fp, r)"
proof -
  obtain d ds where "fp = d # ds"
    using assms(1) by (cases fp) auto
  with assms digit_span [of fp r] show ?thesis
    by (simp add: scan_frac_def)
qed

text \<open>A number with a fraction, an exponent or both.\<close>

lemma scan_unsigned_frac:
  assumes "int_part ip" and "fp \<noteq> []" and "list_all is_digit fp" and "stops r"
  shows "scan_unsigned neg (ip @ CHR ''.'' # fp @ r) =
    Some (float_norm neg (digits_val (ip @ fp)) (- int (length fp)), r)"
  using scan_unsigned_parts [OF assms(1), of "CHR ''.'' # fp @ r" fp r None r neg] assms
  by (simp add: scan_frac_digits scan_exp_stop)

lemma scan_unsigned_exp:
  assumes "int_part ip" and "list_all is_digit fp" and "stops r"
  shows "scan_unsigned neg (ip @ (if fp = [] then [] else CHR ''.'' # fp) @ float_exp_part x @ r) =
    Some (float_norm neg (digits_val (ip @ fp)) (x - int (length fp)), r)"
proof -
  have e: "\<exists>t. float_exp_part x @ r = CHR ''e'' # t"
    by (simp add: float_exp_part_def)
  then have "no_digit (float_exp_part x @ r)"
    by auto
  with e show ?thesis
    using scan_unsigned_parts [OF assms(1),
        of "(if fp = [] then [] else CHR ''.'' # fp) @ float_exp_part x @ r" fp
           "float_exp_part x @ r" "Some x" r neg] assms
    by (auto simp: scan_frac_digits scan_frac_stop scan_exp_part)
qed

lemma digits_val_take_drop: "digits_val (take k ds @ drop k ds) = digits_val ds"
  by simp

lemma int_part_take:
  assumes "0 < m" and "0 < k"
  shows "int_part (take k (nat_str m))"
proof -
  have "take k (nat_str m) \<noteq> []" "hd (take k (nat_str m)) = hd (nat_str m)"
    using assms by simp_all
  then show ?thesis
    using assms nat_str_hd [of m] nat_str_all_digits [of m]
    by (auto simp: int_part_def list_all_iff dest: in_set_takeD)
qed

lemma scan_unsigned_float:
  assumes "normal (JFloat s m e)" and "stops r"
  shows "scan_unsigned neg (float_digits m e @ r) = Some (JFloat neg m e, r)"
proof (cases "m = 0")
  case True
  then have "float_digits m e = ''0'' @ CHR ''.'' # ''0''"
    using assms(1) by (simp add: float_digits_def nat_str_0)
  moreover have "float_norm neg (digits_val (''0'' @ ''0'')) (- int (length ''0'')) = JFloat neg 0 0"
    by (simp add: digits_val_def digit_val_def float_norm.simps)
  ultimately show ?thesis
    using scan_unsigned_frac [of "''0''" "''0''" r neg] assms True
    by (simp add: int_part_def is_digit_def)
next
  case False
  define ds where "ds = nat_str m"
  define n where "n = int (length ds)"
  have m: "m mod 10 \<noteq> 0" "0 < m"
    using assms(1) False by simp_all
  have ds: "list_all is_digit ds" "ds \<noteq> []" "digits_val ds = m" "0 < n"
    by (simp_all add: ds_def n_def)
  have norm: "float_norm neg m e = JFloat neg m e" for e
    using float_norm_shift [OF m(1), of neg 0 e] by simp
  consider "n + e \<le> -4 \<or> 16 < n + e" | "-4 < n + e" "n + e \<le> 0"
    | "0 < n + e" "n + e \<le> 16" "n \<le> n + e" | "0 < n + e" "n + e \<le> 16" "n + e < n"
    by linarith
  then show ?thesis
  proof cases
    case 1
    have "float_digits m e = [hd ds] @ (if tl ds = [] then [] else CHR ''.'' # tl ds)
        @ float_exp_part (n + e - 1)"
      using 1 by (auto simp: float_digits_def Let_def ds_def n_def)
    moreover have "int_part [hd ds]" "list_all is_digit (tl ds)"
      using ds(1,2) nat_str_hd [OF m(2)] by (cases ds; simp add: int_part_def ds_def)+
    moreover have "digits_val ([hd ds] @ tl ds) = m" "n + e - 1 - int (length (tl ds)) = e"
      using ds by (cases ds; simp add: n_def)+
    ultimately show ?thesis
      using scan_unsigned_exp [of "[hd ds]" "tl ds" r neg "n + e - 1"] norm assms(2)
      by (simp del: append_Cons append_Nil)
  next
    case 2
    have "float_digits m e = ''0'' @ CHR ''.'' # replicate (nat (- (n + e))) (CHR ''0'') @ ds"
      using 2 by (simp add: float_digits_def Let_def ds_def n_def)
    moreover have "digits_val (''0'' @ replicate (nat (- (n + e))) (CHR ''0'') @ ds) = m"
      using ds(3) digits_val_zeros_append [of "Suc (nat (- (n + e)))" ds] by simp
    moreover have "- int (length (replicate (nat (- (n + e))) (CHR ''0'') @ ds)) = e"
      using 2 by (simp add: n_def)
    ultimately show ?thesis
      using scan_unsigned_frac [of "''0''" "replicate (nat (- (n + e))) (CHR ''0'') @ ds" r neg]
        norm assms(2) ds(1,2)
      by (simp add: int_part_def del: append_Cons append_Nil) (simp add: append_Cons)
  next
    case 3
    have "float_digits m e = (ds @ replicate (nat e) (CHR ''0'')) @ CHR ''.'' # ''0''"
      using 3 by (simp add: float_digits_def Let_def ds_def n_def)
    moreover have "int_part (ds @ replicate (nat e) (CHR ''0''))"
      using ds(1,2) nat_str_hd [OF m(2)] by (simp add: int_part_def ds_def)
    moreover have "digits_val ((ds @ replicate (nat e) (CHR ''0'')) @ ''0'') = m * 10 ^ Suc (nat e)"
      using digits_val_append_zeros [of ds "Suc (nat e)"] ds(3)
      by (simp add: replicate_append_same [symmetric])
    moreover have "float_norm neg (m * 10 ^ Suc (nat e)) (- 1) = JFloat neg m e"
      using float_norm_shift [OF m(1), of neg "Suc (nat e)" "-1"] 3 by simp
    ultimately show ?thesis
      using scan_unsigned_frac [of "ds @ replicate (nat e) (CHR ''0'')" "''0''" r neg] assms(2)
      by (simp add: is_digit_def)
  next
    case 4
    define k where "k = nat (n + e)"
    have k: "0 < k" "k < length ds"
      using 4 by (simp_all add: k_def n_def)
    have "float_digits m e = take k ds @ CHR ''.'' # drop k ds"
      using 4 by (simp add: float_digits_def Let_def ds_def n_def k_def)
    moreover have "int_part (take k ds)"
      using int_part_take [OF m(2) k(1)] by (simp add: ds_def)
    moreover have "drop k ds \<noteq> []" "list_all is_digit (drop k ds)"
      using k ds(1) by (auto simp: list_all_iff dest: in_set_dropD)
    moreover have "- int (length (drop k ds)) = e"
      using k 4 by (simp add: k_def n_def)
    ultimately show ?thesis
      using scan_unsigned_frac [of "take k ds" "drop k ds" r neg] assms(2) norm ds(3) by simp
  qed
qed

lemma float_digits_hd: "is_digit (hd (float_digits m e)) \<and> float_digits m e \<noteq> []"
proof -
  have "is_digit (hd (nat_str m))" "nat_str m \<noteq> []"
    using nat_str_digits [of "hd (nat_str m)" m] by simp_all
  then show ?thesis
    by (auto simp: float_digits_def Let_def hd_append is_digit_def)
qed

lemma scan_number_float:
  assumes "normal (JFloat s m e)" and "stops r"
  shows "scan_number (float_repr s m e @ r) = Some (JFloat s m e, r)"
proof (cases s)
  case True
  then show ?thesis
    using scan_unsigned_float [OF assms, of True] by (simp add: float_repr_def scan_number_def)
next
  case False
  obtain c cs where c: "float_digits m e = c # cs"
    using float_digits_hd [of m e] by (cases "float_digits m e") auto
  then have "c \<noteq> CHR ''-''"
    using float_digits_hd [of m e] by auto
  with False c show ?thesis
    using scan_unsigned_float [OF assms, of False] by (simp add: float_repr_def scan_number_def)
qed

section \<open>Values\<close>

text \<open>How a rendered value starts: never with white space or a closing bracket.\<close>

definition starts_value :: "string \<Rightarrow> bool" where
  "starts_value s \<longleftrightarrow>
     s \<noteq> [] \<and> \<not> is_ws (hd s) \<and> hd s \<noteq> CHR '']'' \<and> hd s \<noteq> CHR ''}'' \<and> hd s \<noteq> CHR '',''"

definition starts_number :: "string \<Rightarrow> bool" where
  "starts_number s \<longleftrightarrow> s \<noteq> [] \<and> (is_digit (hd s) \<or> hd s = CHR ''-'')"

lemma starts_number_value: "starts_number s \<Longrightarrow> starts_value s"
  by (auto simp: starts_number_def starts_value_def is_digit_def is_ws_def)

lemma int_str_starts: "starts_number (int_str i)"
  using nat_str_digits [of "hd (nat_str (nat i))" "nat i"]
  by (simp add: starts_number_def int_str_def)

lemma float_repr_starts: "starts_number (float_repr s m e)"
  using float_digits_hd [of m e] by (simp add: starts_number_def float_repr_def)

lemma render_starts: "starts_value (render a v)"
proof (cases v)
  case (JInt i)
  then show ?thesis using int_str_starts starts_number_value by simp
next
  case (JFloat s m e)
  then show ?thesis using float_repr_starts starts_number_value by simp
qed (auto simp: starts_value_def is_ws_def quote_def)

lemma skip_ws_start: "starts_value s \<Longrightarrow> skip_ws (s @ r) = s @ r"
  by (cases s) (auto simp: starts_value_def skip_ws_def)

lemma starts_value_Cons:
  assumes "starts_value t"
  obtains d ds where "t = d # ds" and "d \<noteq> CHR '']''" and "d \<noteq> CHR ''}''"
    and "skip_ws (t @ r) = t @ r"
  using assms skip_ws_start [OF assms, of r] by (cases t) (auto simp: starts_value_def)

lemma skip_ws_plain [simp]:
  "skip_ws [] = []" "skip_ws (CHR '','' # r) = CHR '','' # r" "skip_ws (CHR '']'' # r) = CHR '']'' # r"
  "skip_ws (CHR ''}'' # r) = CHR ''}'' # r" "skip_ws (CHR '':'' # r) = CHR '':'' # r"
  "skip_ws (CHR 0x22 # r) = CHR 0x22 # r"
  by (simp_all add: skip_ws_def is_ws_def)

lemma scan_once_number:
  assumes "starts_number s"
  shows "scan_once (Suc f) (s @ r) = scan_number (s @ r)"
proof -
  obtain c cs where s: "s = c # cs" and c: "is_digit c \<or> c = CHR ''-''"
    using assms by (cases s) (auto simp: starts_number_def)
  then have "c \<noteq> CHR 0x22" "c \<noteq> CHR ''{''" "c \<noteq> CHR ''[''" "c \<noteq> CHR ''n''" "c \<noteq> CHR ''t''"
    "c \<noteq> CHR ''f''"
    by (auto simp: is_digit_def)
  then show ?thesis
    by (simp add: s)
qed

text \<open>
  Lists of elements and of members, for any rendering of the values, with white space where JSON
  allows it: \<open>w\<close> after a comma, \<open>w'\<close> before the closing bracket, \<open>w''\<close> after a colon.
\<close>

lemma skip_ws_all: "list_all is_ws w \<Longrightarrow> skip_ws (w @ s) = skip_ws s"
  by (induction w) (simp_all add: skip_ws_def)

lemma stops_ws: "list_all is_ws w \<Longrightarrow> stops s \<Longrightarrow> stops (w @ s)"
  by (cases w) (simp_all add: stops_def)

lemma starts_value_join:
  "starts_value y \<Longrightarrow> starts_value (join sep (y # ys))"
  by (cases ys) (auto simp: starts_value_def)

lemma scan_elems_join:
  assumes "xs \<noteq> []"
    and "\<And>x f r. x \<in> set xs \<Longrightarrow> stops r \<Longrightarrow> 2 * length (g x) + 1 \<le> f \<Longrightarrow> scan_once f (g x @ r) = Some (x, r)"
    and "\<And>x. x \<in> set xs \<Longrightarrow> starts_value (g x)" and "list_all is_ws w" and "list_all is_ws w'"
    and "2 * length (join (CHR '','' # w) (map g xs)) + 2 \<le> f"
  shows "scan_elems f (join (CHR '','' # w) (map g xs) @ w' @ CHR '']'' # r) = Some (xs, r)"
  using assms(1-3,6)
proof (induction xs arbitrary: f)
  case Nil
  then show ?case by simp
next
  case (Cons x xs)
  then obtain f' where f: "f = Suc f'"
    by (cases f) auto
  show ?case
  proof (cases xs)
    case Nil
    have "stops (w' @ CHR '']'' # r)"
      using assms(5) by (simp add: stops_ws)
    then show ?thesis
      using Nil Cons.prems(2) [of x "w' @ CHR '']'' # r" f'] Cons.prems(4) f skip_ws_all [OF assms(5)] by simp
  next
    case xs: (Cons y ys)
    define t where "t = join (CHR '','' # w) (map g xs)"
    have join: "join (CHR '','' # w) (map g (x # xs)) = g x @ CHR '','' # w @ t"
      by (simp add: t_def xs)
    have "starts_value t"
      using Cons.prems(3) starts_value_join by (simp add: t_def xs)
    moreover have "scan_elems f' (t @ w' @ CHR '']'' # r) = Some (xs, r)"
      unfolding t_def
      using Cons.prems xs f join by (intro Cons.IH) (auto simp: t_def)
    moreover have "scan_once f' (g x @ CHR '','' # w @ t @ w' @ CHR '']'' # r)
        = Some (x, CHR '','' # w @ t @ w' @ CHR '']'' # r)"
      using Cons.prems(2) [of x "CHR '','' # w @ t @ w' @ CHR '']'' # r" f'] Cons.prems(4) f join by simp
    ultimately show ?thesis
      unfolding join f by (simp add: skip_ws_start skip_ws_all [OF assms(4)])
  qed
qed

definition member_text :: "bool \<Rightarrow> string \<Rightarrow> (json \<Rightarrow> string) \<Rightarrow> string \<times> json \<Rightarrow> string" where
  "member_text a w g p = quote a (fst p) @ CHR '':'' # w @ g (snd p)"

lemma member_text_starts: "starts_value (member_text a w g p)"
  by (simp add: starts_value_def member_text_def quote_def is_ws_def)

lemma scan_members_join:
  assumes "kvs \<noteq> []"
    and "\<And>p f r. p \<in> set kvs \<Longrightarrow> stops r \<Longrightarrow> 2 * length (g (snd p)) + 1 \<le> f \<Longrightarrow>
           scan_once f (g (snd p) @ r) = Some (snd p, r)"
    and "\<And>p. p \<in> set kvs \<Longrightarrow> starts_value (g (snd p))"
    and "list_all is_ws w" and "list_all is_ws w'" and "list_all is_ws w''"
    and "distinct (map fst (acc @ kvs))"
    and "2 * length (join (CHR '','' # w) (map (member_text a w'' g) kvs)) + 2 \<le> f"
  shows "scan_members f acc (join (CHR '','' # w) (map (member_text a w'' g) kvs) @ w' @ CHR ''}'' # r)
    = Some (acc @ kvs, r)"
  using assms(1-3,7,8)
proof (induction kvs arbitrary: f acc)
  case Nil
  then show ?case by simp
next
  case (Cons p ps)
  then obtain f' where f: "f = Suc f'"
    by (cases f) auto
  have put: "dict_put (fst p) (snd p) acc = acc @ [p]"
    using Cons.prems(4) by (subst dict_put_new) auto
  have str: "scan_string (concat (map (escape_char a) (fst p)) @ CHR 0x22 # t) = Some (fst p, t)" for t
    by (rule scan_string_escapes)
  have v: "skip_ws (w'' @ g (snd p) @ t) = g (snd p) @ t" for t
    using skip_ws_start [of "g (snd p)" t] Cons.prems(3) by (simp add: skip_ws_all [OF assms(6)])
  show ?case
  proof (cases ps)
    case Nil
    have "stops (w' @ CHR ''}'' # r)"
      using assms(5) by (simp add: stops_ws)
    then show ?thesis
      using Nil Cons.prems(2) [of p "w' @ CHR ''}'' # r" f'] Cons.prems(5) f put skip_ws_all [OF assms(5)]
      by (simp add: member_text_def quote_def str v)
  next
    case ps: (Cons q qs)
    define t where "t = join (CHR '','' # w) (map (member_text a w'' g) ps)"
    have join: "join (CHR '','' # w) (map (member_text a w'' g) (p # ps)) = member_text a w'' g p @ CHR '','' # w @ t"
      by (simp add: t_def ps)
    have "starts_value t"
      using starts_value_join [OF member_text_starts] by (simp add: t_def ps)
    then have skip: "skip_ws (w @ t @ w' @ CHR ''}'' # r) = t @ w' @ CHR ''}'' # r"
      by (simp add: skip_ws_start skip_ws_all [OF assms(4)])
    have "scan_members f' (acc @ [p]) (t @ w' @ CHR ''}'' # r) = Some ((acc @ [p]) @ ps, r)"
      unfolding t_def
      using Cons.prems ps f join by (intro Cons.IH) (auto simp: t_def)
    moreover have "2 * length (g (snd p)) + 1 \<le> f'"
      using Cons.prems(5) unfolding join f by (simp add: member_text_def)
    then have "scan_once f' (g (snd p) @ CHR '','' # w @ t @ w' @ CHR ''}'' # r)
        = Some (snd p, CHR '','' # w @ t @ w' @ CHR ''}'' # r)"
      by (intro Cons.prems(2)) simp_all
    ultimately show ?thesis
      unfolding join f by (simp add: put member_text_def quote_def str v skip)
  qed
qed

lemma scan_once_render:
  "normal v \<Longrightarrow> stops r \<Longrightarrow> 2 * length (render a v) + 1 \<le> f \<Longrightarrow>
     scan_once f (render a v @ r) = Some (v, r)"
proof (induction v arbitrary: f r rule: json_induct)
  case Null
  then show ?case by (cases f) simp_all
next
  case (Bool b)
  then show ?case by (cases f) simp_all
next
  case (Int i)
  then show ?case
    using scan_once_number [OF int_str_starts] scan_number_int by (cases f) simp_all
next
  case (Float s m e)
  then show ?case
    using scan_once_number [OF float_repr_starts] scan_number_float by (cases f) simp_all
next
  case (Str s)
  then show ?case
    using scan_string_escapes [of a s r] by (cases f) (simp_all add: quote_def)
next
  case (List xs)
  then obtain f' where f: "f = Suc f'" "2 * length (join '','' (map (render a) xs)) + 2 \<le> f'"
    by (cases f) auto
  show ?case
  proof (cases xs)
    case Nil
    then show ?thesis by (simp add: f)
  next
    case (Cons y ys)
    define t where "t = join '','' (map (render a) xs)"
    have "starts_value t"
      using render_starts [of a y] by (cases ys) (auto simp: t_def Cons starts_value_def)
    then obtain d ds where "t = d # ds" "d \<noteq> CHR '']''" "skip_ws (t @ CHR '']'' # r) = t @ CHR '']'' # r"
      by (rule starts_value_Cons)
    moreover have "scan_elems f' (t @ [] @ CHR '']'' # r) = Some (xs, r)"
      unfolding t_def using List f Cons render_starts by (intro scan_elems_join) auto
    ultimately show ?thesis
      by (simp add: f t_def [symmetric])
  qed
next
  case (Dict kvs)
  have render: "render a (JDict kvs) = ''{'' @ join '','' (map (member_text a [] (render a)) kvs) @ ''}''"
    by (simp add: member_text_def cong: map_cong)
  with Dict obtain f' where f: "f = Suc f'"
      "2 * length (join '','' (map (member_text a [] (render a)) kvs)) + 2 \<le> f'"
    by (cases f) auto
  show ?case
  proof (cases kvs)
    case Nil
    then show ?thesis by (simp add: f)
  next
    case (Cons q qs)
    define t where "t = join '','' (map (member_text a [] (render a)) kvs)"
    have "starts_value t"
      by (cases qs) (auto simp: t_def Cons starts_value_def member_text_def quote_def is_ws_def)
    then obtain d ds where "t = d # ds" "d \<noteq> CHR ''}''" "skip_ws (t @ CHR ''}'' # r) = t @ CHR ''}'' # r"
      by (rule starts_value_Cons)
    moreover have "scan_members f' [] (t @ [] @ CHR ''}'' # r) = Some ([] @ kvs, r)"
      unfolding t_def
    proof (rule scan_members_join)
      fix p f r
      assume "p \<in> set kvs" "stops r" "2 * length (render a (snd p)) + 1 \<le> f"
      then show "scan_once f (render a (snd p) @ r) = Some (snd p, r)"
        using Dict.IH [of "fst p" "snd p"] Dict.prems(1) by simp
    qed (use Cons f Dict.prems render_starts in auto)
    ultimately show ?thesis
      unfolding render by (simp add: f t_def [symmetric])
  qed
qed

section \<open>loads inverts dumps\<close>

lemma normal_sort_json: "normal v \<Longrightarrow> normal (sort_json v)"
proof (induction v rule: json_induct)
  case (Dict kvs)
  have "map fst (map (\<lambda>p. (fst p, sort_json (snd p))) kvs) = map fst kvs"
    by simp
  then have "distinct (map fst (sort_key fst (map (\<lambda>p. (fst p, sort_json (snd p))) kvs)))"
    using Dict.prems by (simp add: distinct_map inj_on_def) (auto simp: distinct_map inj_on_def)
  with Dict show ?case by fastforce
qed auto

lemma loads_render: "normal v \<Longrightarrow> loads (render a v) = Inr v"
  using scan_once_render [of v "[]" a "2 * length (render a v) + 1"]
    skip_ws_start [OF render_starts, of a v "[]"]
  by (simp add: loads_def)

lemma loads_dumps: "normal v \<Longrightarrow> loads (dumps a v) = Inr (sort_json v)"
  by (simp add: dumps_def loads_render normal_sort_json)

interpretation json_codec: codec "dumps a" loads normal sort_json
  by unfold_locales (rule loads_dumps)

text \<open>A rendered document is taken for UTF-8: it starts with printable ASCII and holds no NUL.\<close>

lemma hex_byte_printable:
  assumes "n < 256" and "x \<in> set (hex_byte n)"
  shows "32 \<le> (of_char x :: nat)"
proof -
  have "32 \<le> (of_char (hex_char d) :: nat)" if "d < 16" for d
    using that by (simp add: hex_char_def)
  moreover have "n div 16 < 16" "n mod 16 < 16"
    using assms(1) by (simp_all add: less_mult_imp_div_less)
  ultimately show ?thesis
    using assms(2) by (auto simp: hex_byte_def)
qed

lemma escape_char_printable:
  assumes "x \<in> set (escape_char a c)"
  shows "32 \<le> (of_char x :: nat)"
proof (cases "x \<in> set (hex_byte (of_char c))")
  case True
  then show ?thesis by (rule hex_byte_printable [rotated]) simp
next
  case False
  then have "x = c \<and> 32 \<le> (of_char c :: nat) \<or> x \<in> set (CHR 0x5C # ''nrtfbu0'')"
    using assms by (fastforce simp: escape_char_def Let_def split: if_split_asm)
  then show ?thesis by auto
qed

lemma quote_printable: "x \<in> set (quote a s) \<Longrightarrow> 32 \<le> (of_char x :: nat)"
  by (auto simp: quote_def dest: escape_char_printable)

lemma digits_printable: "list_all is_digit ds \<Longrightarrow> x \<in> set ds \<Longrightarrow> 32 \<le> (of_char x :: nat)"
  by (auto simp: list_all_iff is_digit_def)

lemma int_str_printable: "x \<in> set (int_str i) \<Longrightarrow> 32 \<le> (of_char x :: nat)"
  using digits_printable [OF nat_str_all_digits] by (auto simp: int_str_def split: if_splits)

lemma float_exp_printable: "x \<in> set (float_exp_part e) \<Longrightarrow> 32 \<le> (of_char x :: nat)"
  using digits_printable [OF nat_str_all_digits]
  by (auto simp: float_exp_part_def Let_def split: if_splits)

lemma float_digits_printable:
  assumes "x \<in> set (float_digits m e)"
  shows "32 \<le> (of_char x :: nat)"
proof -
  have "x \<in> set (nat_str m) \<or> x = CHR ''.'' \<or> x = CHR ''0'' \<or> (\<exists>k. x \<in> set (float_exp_part k))"
    using assms list.set_sel(1) [OF nat_str_not_Nil, of m]
    by (auto simp: float_digits_def Let_def split: if_splits dest: in_set_takeD in_set_dropD
        list.set_sel(2) [OF nat_str_not_Nil])
  then show ?thesis
    using digits_printable [OF nat_str_all_digits] float_exp_printable by auto
qed

lemma float_repr_printable: "x \<in> set (float_repr s m e) \<Longrightarrow> 32 \<le> (of_char x :: nat)"
  using float_digits_printable by (auto simp: float_repr_def split: if_splits)

lemma join_chars: "x \<in> set (join sep xs) \<Longrightarrow> x \<in> set sep \<or> (\<exists>y \<in> set xs. x \<in> set y)"
  by (induction sep xs rule: join.induct) auto

lemma render_printable: "x \<in> set (render a v) \<Longrightarrow> 32 \<le> (of_char x :: nat)"
proof (induction v rule: json_induct)
  case (List xs)
  then show ?case by (auto dest!: join_chars)
next
  case (Dict kvs)
  then show ?case by (auto dest!: join_chars quote_printable)
qed (auto simp: int_str_printable float_repr_printable quote_printable split: if_splits)

lemma byte_nonzero:
  assumes "0 < n" and "n < 256"
  shows "(word_of_nat n :: byte) \<noteq> 0"
proof
  assume "(word_of_nat n :: byte) = 0"
  then have "unat (word_of_nat n :: byte) = 0"
    by simp
  with assms show False by simp
qed

lemma utf8_char_no_NUL:
  assumes "32 \<le> (of_char c :: nat)"
  shows "0 \<notin> set (utf8_char c)"
proof -
  have "(of_char c :: nat) div 64 < 4"
    by (rule less_mult_imp_div_less) simp
  then show ?thesis
    using assms byte_nonzero [of "of_char c"] byte_nonzero [of "192 + of_char c div 64"]
      byte_nonzero [of "128 + of_char c mod 64"]
    by (auto simp: utf8_char_def Let_def simp del: of_nat_add)
qed

lemma utf8_no_NUL: "(\<And>x. x \<in> set s \<Longrightarrow> 32 \<le> (of_char x :: nat)) \<Longrightarrow> 0 \<notin> set (utf8_encode s)"
  using utf8_char_no_NUL by (auto simp: utf8_encode_def)

lemma render_first_byte:
  "\<exists>b bs. utf8_encode (render a v) = b # bs \<and> b < 128"
proof -
  obtain c cs where c: "render a v = c # cs"
    using render_starts [of a v] by (cases "render a v") (auto simp: starts_value_def)
  have "(of_char c :: nat) < 128"
  proof (cases v)
    case (JInt i)
    with c int_str_starts [of i] show ?thesis
      by (auto simp: starts_number_def is_digit_def)
  next
    case (JFloat s m e)
    with c float_repr_starts [of s m e] show ?thesis
      by (auto simp: starts_number_def is_digit_def)
  qed (use c in \<open>auto simp: quote_def split: if_splits\<close>)
  then show ?thesis
    by (simp add: c utf8_encode_def utf8_char_def word_less_nat_alt)
qed

lemma loads_bytes_render:
  assumes "normal v"
  shows "loads_bytes (utf8_encode (render a v)) = Inr v"
proof -
  obtain b bs where b: "utf8_encode (render a v) = b # bs" "b < 128"
    using render_first_byte by blast
  have nz: "0 \<notin> set (b # bs)"
    using utf8_no_NUL [of "render a v"] render_printable b(1) by metis
  have "b \<noteq> 0xFE" "b \<noteq> 0xFF" "b \<noteq> 0xEF" "b \<noteq> 0"
    using b(2) nz by auto
  moreover have "(4 \<le> length (b # bs) \<or> length (b # bs) = 2) \<Longrightarrow> (b # bs) ! 1 \<noteq> 0"
    using nz by (cases bs) auto
  ultimately have "\<not> wide_encoding (b # bs)" "\<not> prefix [0xEF, 0xBB, 0xBF] (b # bs)"
    by (auto simp: wide_encoding_def)
  then show ?thesis
    using loads_render [OF assms] utf8_roundtrip [of "render a v"] b(1)
    by (simp add: loads_bytes_def del: utf8_decode.simps) blast
qed

end
