(* ===== verification/Atf_Identity.thy ===== *)
theory Atf_Identity
  imports Atf_Base64 Atf_Roundtrip
begin

text \<open>
  \<open>reference/py/src/atf/identity.py\<close>: key pairs, the agent URI and its parser, JWKs and the
  identity document. The \<open>cryptography\<close> package is a parameter: the record \<open>crypto\<close> has one
  field per function the code calls, and \<open>ed25519_correct\<close> and \<open>pem_correct\<close> name what the code
  relies on. A private key is an opaque byte string, a public key its raw form.
\<close>

section \<open>The cryptography package\<close>

text \<open>
  \<open>ed_public\<close> is \<open>sk.public_key()\<close>, \<open>ed_sign\<close> is \<open>sk.sign(m)\<close>, \<open>ed_verify pk s m\<close> is whether
  \<open>pk.verify(s, m)\<close> returns, \<open>ed_load\<close> is \<open>Ed25519PublicKey.from_public_bytes\<close>, \<open>pem_write\<close> the
  PKCS8 export and \<open>pem_load\<close> is \<open>load_pem_private_key\<close>, \<open>None\<close> when the key is of another kind.
\<close>

record crypto =
  ed_public :: "bytes \<Rightarrow> bytes"
  ed_sign :: "bytes \<Rightarrow> bytes \<Rightarrow> bytes"
  ed_verify :: "bytes \<Rightarrow> bytes \<Rightarrow> bytes \<Rightarrow> bool"
  ed_load :: "bytes \<Rightarrow> bytes res"
  pem_write :: "bytes \<Rightarrow> bytes"
  pem_load :: "bytes \<Rightarrow> bytes option res"

definition ed25519_correct :: "crypto \<Rightarrow> bool" where
  "ed25519_correct C \<longleftrightarrow>
     (\<forall>sk m. ed_verify C (ed_public C sk) (ed_sign C sk m) m)
     \<and> (\<forall>sk. ed_load C (ed_public C sk) = Inr (ed_public C sk))"

definition pem_correct :: "crypto \<Rightarrow> bool" where
  "pem_correct C \<longleftrightarrow> (\<forall>sk. pem_load C (pem_write C sk) = Inr (Some sk))"

text \<open>
  Unforgeability, idealised: the messages with a signature that verifies under \<open>pk\<close> are among
  those the holder of the key has signed.
\<close>

definition signed_only :: "crypto \<Rightarrow> bytes \<Rightarrow> bytes set \<Rightarrow> bool" where
  "signed_only C pk M \<longleftrightarrow> (\<forall>s m. ed_verify C pk s m \<longrightarrow> m \<in> M)"

text \<open>\<open>pk.verify(s, m)\<close>, which raises the package's \<open>InvalidSignature\<close>.\<close>

definition ed_check :: "crypto \<Rightarrow> bytes \<Rightarrow> bytes \<Rightarrow> bytes \<Rightarrow> unit res" where
  "ed_check C pk sig msg = (if ed_verify C pk sig msg then Inr () else raise InvalidSignature [])"

section \<open>Key pairs\<close>

definition ALG :: string where
  "ALG = ''EdDSA''"

record keypair =
  kp_kid :: string
  kp_private :: bytes
  kp_public :: bytes

text \<open>\<open>KeyPair.generate\<close>; the fresh private key is an argument.\<close>

definition generate :: "crypto \<Rightarrow> string \<Rightarrow> bytes \<Rightarrow> keypair" where
  "generate C kid sk = \<lparr>kp_kid = kid, kp_private = sk, kp_public = ed_public C sk\<rparr>"

definition public_jwk :: "keypair \<Rightarrow> json" where
  "public_jwk kp =
     JDict [(''kty'', JStr ''OKP''), (''crv'', JStr ''Ed25519''),
            (''x'', JStr (b64url_encode (kp_public kp))), (''kid'', JStr (kp_kid kp)),
            (''alg'', JStr ALG), (''use'', JStr ''sig'')]"

definition private_pem :: "crypto \<Rightarrow> keypair \<Rightarrow> bytes" where
  "private_pem C kp = pem_write C (kp_private kp)"

definition from_pem :: "crypto \<Rightarrow> bytes \<Rightarrow> string \<Rightarrow> keypair res" where
  "from_pem C pem kid =
     bind_res (pem_load C pem)
       (\<lambda>key. case key of
          None \<Rightarrow> raise IdentityError ''only Ed25519 keys are supported in MVP''
        | Some sk \<Rightarrow> Inr \<lparr>kp_kid = kid, kp_private = sk, kp_public = ed_public C sk\<rparr>)"

text \<open>\<open>b64url_decode\<close> of a value that need not be a string.\<close>

definition b64url_decode_value :: "json \<Rightarrow> bytes res" where
  "b64url_decode_value v =
     (case v of JStr s \<Rightarrow> b64url_decode s | _ \<Rightarrow> raise TypeError ''not a string'')"

definition public_key_from_jwk :: "crypto \<Rightarrow> json \<Rightarrow> bytes res" where
  "public_key_from_jwk C jwk =
     bind_res (py_get jwk ''kty'') (\<lambda>kty.
     bind_res (py_get jwk ''crv'') (\<lambda>crv.
       if \<not> py_eq kty (JStr ''OKP'') \<or> \<not> py_eq crv (JStr ''Ed25519'')
       then raise IdentityError ''only OKP/Ed25519 keys accepted''
       else bind_res (py_index jwk ''x'') (\<lambda>x.
            bind_res (b64url_decode_value x) (ed_load C))))"

section \<open>Agent URIs\<close>

definition agent_uri :: "string \<Rightarrow> string \<Rightarrow> string \<Rightarrow> string" where
  "agent_uri ownr name kid = ''agent://'' @ ownr @ ''/'' @ name @ ''#'' @ kid"

definition parse_agent_uri :: "string \<Rightarrow> (string \<times> string \<times> string) res" where
  "parse_agent_uri uri =
     (if \<not> prefix ''agent://'' uri then raise IdentityError (''not an agent URI: '' @ uri)
      else
        let rest = drop (length ''agent://'') uri in
        if CHR ''#'' \<notin> set rest then raise IdentityError (''agent URI missing #kid: '' @ uri)
        else
          let (body, kid) = split_once (CHR ''#'') rest in
          if CHR ''/'' \<notin> set body then raise IdentityError (''agent URI missing /name: '' @ uri)
          else let (ownr, name) = split_once (CHR ''/'') body in Inr (ownr, name, kid))"

section \<open>Identities\<close>

text \<open>An optional string as a value.\<close>

definition opt_str :: "string option \<Rightarrow> json" where
  "opt_str s = (case s of None \<Rightarrow> JNull | Some t \<Rightarrow> JStr t)"

record identity =
  id_owner :: string
  id_name :: string
  id_keypair :: keypair
  id_attestations :: "json list"
  id_manifest_uri :: "string option"

definition agent_id :: "identity \<Rightarrow> string" where
  "agent_id i = agent_uri (id_owner i) (id_name i) (kp_kid (id_keypair i))"

definition jwks :: "identity \<Rightarrow> json" where
  "jwks i = JDict [(''keys'', JList [public_jwk (id_keypair i)])]"

definition jwks_uri :: "identity \<Rightarrow> string \<Rightarrow> string" where
  "jwks_uri i scheme =
     scheme @ ''://'' @ id_owner i @ ''/.well-known/atf/'' @ id_name i @ ''/jwks.json''"

definition identity_document :: "identity \<Rightarrow> json" where
  "identity_document i =
     JDict [(''id'', JStr (agent_id i)), (''jwks_uri'', JStr (jwks_uri i ''https'')),
            (''owner_org'', JStr (id_owner i)), (''attestations'', JList (id_attestations i)),
            (''manifest_uri'', opt_str (id_manifest_uri i))]"

section \<open>Lemmas\<close>

text \<open>A key pair whose two halves belong together; both constructors make only those.\<close>

definition wf_keypair :: "crypto \<Rightarrow> keypair \<Rightarrow> bool" where
  "wf_keypair C kp \<longleftrightarrow> kp_public kp = ed_public C (kp_private kp)"

lemma generate_wf: "wf_keypair C (generate C kid sk)" "kp_kid (generate C kid sk) = kid"
  by (simp_all add: wf_keypair_def generate_def)

lemma from_pem_wf: "from_pem C pem kid = Inr kp \<Longrightarrow> wf_keypair C kp \<and> kp_kid kp = kid"
  by (auto simp: from_pem_def wf_keypair_def split: option.splits)

lemma from_pem_private_pem:
  assumes "pem_correct C" and "wf_keypair C kp"
  shows "from_pem C (private_pem C kp) (kp_kid kp) = Inr kp"
  using assms by (cases kp) (simp add: pem_correct_def wf_keypair_def from_pem_def private_pem_def)

lemma ed_check_Inr [simp]: "ed_check C pk sig msg = Inr u \<longleftrightarrow> ed_verify C pk sig msg"
  by (simp add: ed_check_def)

lemma ed_verify_own:
  "ed25519_correct C \<Longrightarrow> wf_keypair C kp \<Longrightarrow> ed_verify C (kp_public kp) (ed_sign C (kp_private kp) m) m"
  by (simp add: ed25519_correct_def wf_keypair_def)

lemma ed_load_own:
  "ed25519_correct C \<Longrightarrow> wf_keypair C kp \<Longrightarrow> ed_load C (kp_public kp) = Inr (kp_public kp)"
  by (simp add: ed25519_correct_def wf_keypair_def)

lemma b64url_decode_value_simps [simp]:
  "b64url_decode_value (JStr s) = b64url_decode s"
  by (simp add: b64url_decode_value_def)

lemma b64url_decode_value_Inr:
  "b64url_decode_value v = Inr b \<longleftrightarrow> (\<exists>s. v = JStr s \<and> b64url_decode s = Inr b)"
  by (cases v) (simp_all add: b64url_decode_value_def)

lemma normal_opt_str [simp]: "normal (opt_str s)"
  by (simp add: opt_str_def split: option.split)

lemma py_get_Inr: "py_get d k = Inr v \<longleftrightarrow>
    (\<exists>kvs. d = JDict kvs \<and> v = (case map_of kvs k of None \<Rightarrow> JNull | Some x \<Rightarrow> x))"
  by (cases d) (auto simp: py_get_def py_get_or_def)

text \<open>A parsed URI is a formatted one.\<close>

definition uri_parts_ok :: "string \<times> string \<times> string \<Rightarrow> bool" where
  "uri_parts_ok p \<longleftrightarrow>
     (case p of (ownr, name, kid) \<Rightarrow>
        CHR ''/'' \<notin> set ownr \<and> CHR ''#'' \<notin> set ownr \<and> CHR ''#'' \<notin> set name)"

lemma drop_prefix: "prefix p u \<Longrightarrow> p @ drop (length p) u = u"
  by (auto simp: prefix_def)

lemma parse_agent_uri_format:
  assumes "uri_parts_ok (ownr, name, kid)"
  shows "parse_agent_uri (agent_uri ownr name kid) = Inr (ownr, name, kid)"
proof -
  have h: "CHR ''#'' \<notin> set (ownr @ CHR ''/'' # name)" and s: "CHR ''/'' \<notin> set ownr"
    using assms by (simp_all add: uri_parts_ok_def)
  have "split_once (CHR ''#'') (ownr @ CHR ''/'' # name @ CHR ''#'' # kid) = (ownr @ CHR ''/'' # name, kid)"
    using split_once_append [OF h, of kid] by simp
  then show ?thesis
    by (simp add: parse_agent_uri_def agent_uri_def split_once_append [OF s])
qed

lemma parse_agent_uri_sound:
  assumes "parse_agent_uri u = Inr (ownr, name, kid)"
  shows "u = agent_uri ownr name kid \<and> uri_parts_ok (ownr, name, kid)"
proof -
  define rest where "rest = drop (length ''agent://'') u"
  obtain body k where b: "split_once (CHR ''#'') rest = (body, k)"
    by (cases "split_once (CHR ''#'') rest")
  obtain x y where o: "split_once (CHR ''/'') body = (x, y)"
    by (cases "split_once (CHR ''/'') body")
  have p: "prefix ''agent://'' u" "CHR ''#'' \<in> set rest" "CHR ''/'' \<in> set body"
    and v: "x = ownr" "y = name" "k = kid"
    using assms b o unfolding parse_agent_uri_def rest_def Let_def by (auto split: if_split_asm)
  have 1: "rest = body @ CHR ''#'' # k" "CHR ''#'' \<notin> set body"
    using split_once_join [OF p(2) b] by simp_all
  have 2: "body = x @ CHR ''/'' # y" "CHR ''/'' \<notin> set x"
    using split_once_join [OF p(3) o] by simp_all
  have "u = ''agent://'' @ rest"
    using drop_prefix [OF p(1)] by (simp add: rest_def)
  with 1 2 v show ?thesis
    by (simp add: agent_uri_def uri_parts_ok_def)
qed

interpretation agent_uris: exact_codec "\<lambda>(ownr, name, kid). agent_uri ownr name kid" parse_agent_uri uri_parts_ok
  by unfold_locales (use parse_agent_uri_format in auto)

lemma parse_agent_uri_error: "parse_agent_uri u = Inl e \<Longrightarrow> exn_cls e = IdentityError"
  by (auto simp: parse_agent_uri_def Let_def split: if_splits prod.splits)

lemma public_jwk_normal: "normal (public_jwk kp)"
  by (simp add: public_jwk_def)

lemma jwks_normal: "normal (jwks i)"
  by (simp add: jwks_def public_jwk_normal)

lemma public_key_from_public_jwk:
  assumes "ed25519_correct C" and "wf_keypair C kp"
  shows "public_key_from_jwk C (public_jwk kp) = Inr (kp_public kp)"
  by (simp add: public_key_from_jwk_def public_jwk_def b64url_inverse ed_load_own [OF assms])

section \<open>A concrete instance for the witnesses\<close>

text \<open>
  A signature that is the key followed by the message: it meets the hypotheses, so every
  witness can compute with it. Nothing but witnesses uses it.
\<close>

definition toy_crypto :: crypto where
  "toy_crypto =
     \<lparr>ed_public = (\<lambda>sk. sk), ed_sign = (\<lambda>sk m. sk @ m), ed_verify = (\<lambda>pk s m. s = pk @ m),
      ed_load = Inr, pem_write = (\<lambda>sk. sk), pem_load = (\<lambda>p. Inr (Some p))\<rparr>"

lemma toy_crypto_ok: "ed25519_correct toy_crypto" "pem_correct toy_crypto"
  by (simp_all add: toy_crypto_def ed25519_correct_def pem_correct_def)

definition toy_keypair :: keypair where
  "toy_keypair = generate toy_crypto ''1'' [7, 9]"

lemma toy_keypair_wf: "wf_keypair toy_crypto toy_keypair"
  by (simp add: toy_keypair_def generate_wf)

section \<open>Properties\<close>

text \<open>The parser of agent URIs accepts exactly the strings \<open>_agent_uri\<close> makes of an owner
  without slash or hash and a name without hash, and returns those parts; on every other string
  it raises \<open>IdentityError\<close>.\<close>

theorem agent_uri_roundtrip:
  "(parse_agent_uri u = Inr (ownr, name, kid) \<longleftrightarrow>
      u = agent_uri ownr name kid \<and> CHR ''/'' \<notin> set ownr \<and> CHR ''#'' \<notin> set ownr \<and> CHR ''#'' \<notin> set name)
   \<and> ((\<exists>p. parse_agent_uri u = Inr p) \<or> (\<exists>m. parse_agent_uri u = Inl (Exn IdentityError m)))"
proof -
  have "(\<exists>p. parse_agent_uri u = Inr p) \<or> (\<exists>m. parse_agent_uri u = Inl (Exn IdentityError m))"
  proof (cases "parse_agent_uri u")
    case (Inl e)
    then show ?thesis using parse_agent_uri_error [OF Inl] by (cases e) simp
  qed blast
  moreover have "parse_agent_uri u = Inr (ownr, name, kid) \<longleftrightarrow>
      u = agent_uri ownr name kid \<and> uri_parts_ok (ownr, name, kid)"
    using parse_agent_uri_sound agent_uris.dec_enc_exact [of "(ownr, name, kid)"] by auto
  ultimately show ?thesis
    by (simp add: uri_parts_ok_def)
qed

text \<open>A key pair's public key survives its publication: the JWK set an agent serves, sent as
  JSON text and decoded by the reader, has one key, and \<open>public_key_from_jwk\<close> makes of it the
  agent's public key.\<close>

theorem jwks_roundtrip:
  assumes "ed25519_correct C" and "wf_keypair C (id_keypair i)"
  shows "\<exists>jwk. loads_bytes (utf8_encode (render a (jwks i))) = Inr (JDict [(''keys'', JList [jwk])])
    \<and> public_key_from_jwk C jwk = Inr (kp_public (id_keypair i))"
  using loads_bytes_render [OF jwks_normal, of a i] public_key_from_public_jwk [OF assms]
  by (auto simp: jwks_def)

definition toy_identity :: identity where
  "toy_identity =
     \<lparr>id_owner = ''a.com'', id_name = ''x'', id_keypair = toy_keypair, id_attestations = [],
      id_manifest_uri = None\<rparr>"

lemma toy_identity_keypair [simp]: "id_keypair toy_identity = toy_keypair"
  by (simp add: toy_identity_def)

lemma jwks_roundtrip_witness:
  "\<exists>jwk. loads_bytes (utf8_encode (render False (jwks toy_identity))) = Inr (JDict [(''keys'', JList [jwk])])
    \<and> public_key_from_jwk toy_crypto jwk = Inr (kp_public (id_keypair toy_identity))"
  by (rule jwks_roundtrip) (simp_all add: toy_crypto_ok toy_keypair_wf)

text \<open>A private key written with \<open>private_pem\<close> and read back with \<open>from_pem\<close> under the same
  key id gives the same key pair, and whatever \<open>from_pem\<close> returns has matching halves.\<close>

theorem pem_roundtrip:
  assumes "pem_correct C"
  shows "from_pem C (private_pem C (generate C kid sk)) kid = Inr (generate C kid sk)
    \<and> (\<forall>pem kid' kp. from_pem C pem kid' = Inr kp \<longrightarrow> wf_keypair C kp \<and> kp_kid kp = kid')"
  using from_pem_private_pem [OF assms, of "generate C kid sk"] from_pem_wf
  by (simp add: generate_wf)

lemma pem_roundtrip_witness:
  "from_pem toy_crypto (private_pem toy_crypto (generate toy_crypto ''1'' [7])) ''1''
     = Inr (generate toy_crypto ''1'' [7])"
  using pem_roundtrip [OF toy_crypto_ok(2)] by blast

end
