(* ===== verification/Atf_Signing.thy ===== *)
theory Atf_Signing
  imports Atf_Identity
begin

text \<open>
  \<open>reference/py/src/atf/_signing.py\<close>: the canonical bytes of a value, compact JWS and detached
  signature envelopes. Both verifiers are characterised by exactly what they accept; the
  interface \<open>attestation\<close> states what every verifier built on them promises, once, for the
  manifests, outcomes, tokens and audit records that rely on it.
\<close>

section \<open>Canonical bytes\<close>

definition canonical_json :: "json \<Rightarrow> bytes" where
  "canonical_json obj = utf8_encode (dumps False obj)"

section \<open>Compact JWS\<close>

definition jws_header :: "keypair \<Rightarrow> json" where
  "jws_header kp = JDict [(''alg'', JStr ALG), (''kid'', JStr (kp_kid kp)), (''typ'', JStr ''atf+jws'')]"

definition sign_compact :: "crypto \<Rightarrow> json \<Rightarrow> keypair \<Rightarrow> string" where
  "sign_compact C payload kp =
     (let header_b = b64url_encode (canonical_json (jws_header kp));
          payload_b = b64url_encode (canonical_json payload);
          signing_input = utf8_encode (header_b @ ''.'' @ payload_b);
          sig = ed_sign C (kp_private kp) signing_input
      in header_b @ ''.'' @ payload_b @ ''.'' @ b64url_encode sig)"

text \<open>
  \<open>try: public_key.verify(...) except InvalidSignature as e: raise ATFError("invalid signature")\<close>;
  any other exception passes.
\<close>

definition invalid_signature :: "exn \<Rightarrow> exn" where
  "invalid_signature e =
     (if is_a (exn_cls e) InvalidSignature then Exn ATFError ''invalid signature'' else e)"

definition unsupported_alg :: "json \<Rightarrow> string" where
  "unsupported_alg v = ''unsupported alg: '' @ py_repr v @ ''; expected '' @ ALG"

definition verify_compact :: "crypto \<Rightarrow> string \<Rightarrow> bytes \<Rightarrow> (json \<times> json) res" where
  "verify_compact C jws pk =
     (case split_on (CHR ''.'') jws of
        [header_b, payload_b, sig_b] \<Rightarrow>
          bind_res (bind_res (b64url_decode header_b) loads_bytes) (\<lambda>header.
          bind_res (py_get header ''alg'') (\<lambda>alg.
            if \<not> py_eq alg (JStr ALG) then raise ATFError (unsupported_alg alg)
            else
              bind_res (bind_res (b64url_decode payload_b) loads_bytes) (\<lambda>payload.
              bind_res (ascii_encode (header_b @ ''.'' @ payload_b)) (\<lambda>signing_input.
              bind_res
                (rewrap invalid_signature
                  (bind_res (b64url_decode sig_b) (\<lambda>sig. ed_check C pk sig signing_input)))
                (\<lambda>_. Inr (header, payload))))))
      | parts \<Rightarrow>
          raise ATFError
            (''malformed JWS: '' @
             (if length parts < 3
              then ''not enough values to unpack (expected 3, got '' @ nat_str (length parts) @ '')''
              else ''too many values to unpack (expected 3)'')))"

section \<open>Signature envelopes\<close>

definition sign_envelope :: "crypto \<Rightarrow> json \<Rightarrow> keypair \<Rightarrow> string \<Rightarrow> json" where
  "sign_envelope C content kp signed_by =
     (let signing_input = canonical_json content;
          sig = ed_sign C (kp_private kp) signing_input
      in JDict [(''alg'', JStr ALG), (''kid'', JStr (kp_kid kp)), (''signed_by'', JStr signed_by),
                (''value'', JStr (b64url_encode sig))])"

definition verify_envelope :: "crypto \<Rightarrow> json \<Rightarrow> json \<Rightarrow> bytes \<Rightarrow> unit res" where
  "verify_envelope C content signature pk =
     bind_res (py_get signature ''alg'') (\<lambda>alg.
       if \<not> py_eq alg (JStr ALG) then raise ATFError (unsupported_alg alg)
       else
         let signing_input = canonical_json content in
         rewrap invalid_signature
           (bind_res (py_index signature ''value'') (\<lambda>value.
            bind_res (b64url_decode_value value) (\<lambda>sig. ed_check C pk sig signing_input))))"

section \<open>Lemmas on canonical bytes\<close>

lemma loads_bytes_canonical: "normal v \<Longrightarrow> loads_bytes (canonical_json v) = Inr (sort_json v)"
  unfolding canonical_json_def dumps_def
  by (rule loads_bytes_render) (rule normal_sort_json)

interpretation canonical: codec canonical_json loads_bytes normal sort_json
  by unfold_locales (rule loads_bytes_canonical)

lemma canonical_json_eq: "normal v \<Longrightarrow> normal w \<Longrightarrow>
    canonical_json v = canonical_json w \<longleftrightarrow> sort_json v = sort_json w"
  using canonical.enc_eq_norm [of v w] by (auto simp: canonical_json_def dumps_def)

lemma sort_json_idem [simp]: "sort_json (sort_json v) = sort_json v"
proof (induction v rule: json_induct)
  case (Dict kvs)
  let ?L = "sort_key fst (map (\<lambda>p. (fst p, sort_json (snd p))) kvs)"
  have "map (\<lambda>p. (fst p, sort_json (snd p))) ?L = ?L"
    using Dict by (intro map_idI) force
  moreover have "sort_key fst ?L = ?L"
    by (simp add: sort_key_id_if_sorted)
  ultimately show ?case by simp
qed simp_all

lemma canonical_json_sort [simp]: "canonical_json (sort_json v) = canonical_json v"
  by (simp add: canonical_json_def dumps_def)

lemma sort_json_Dict: "(\<exists>kvs. sort_json v = JDict kvs) \<longleftrightarrow> (\<exists>kvs. v = JDict kvs)"
  by (cases v) auto

lemma sort_json_lookup:
  assumes "distinct (map fst kvs)" and "sort_json (JDict kvs) = JDict kvs'"
  shows "map_of kvs' k = map_option sort_json (map_of kvs k)"
proof -
  let ?m = "map (\<lambda>p. (fst p, sort_json (snd p))) kvs"
  have d: "distinct (map fst ?m)"
    using assms(1) by (simp add: comp_def)
  have kvs': "kvs' = sort_key fst ?m"
    using assms(2) by simp
  have "map_of kvs' = map_of ?m"
    unfolding kvs'
    by (rule map_of_inject_set [THEN iffD2])
      (use d in \<open>simp_all only: distinct_map distinct_sort set_sort\<close>)
  moreover have "map_of ?m k = map_option sort_json (map_of kvs k)"
    by (induction kvs) auto
  ultimately show ?thesis by simp
qed

definition sort_dict :: "dict \<Rightarrow> dict" where
  "sort_dict kvs = sort_key fst (map (\<lambda>p. (fst p, sort_json (snd p))) kvs)"

lemma sort_json_sort_dict: "sort_json (JDict kvs) = JDict (sort_dict kvs)"
  by (simp add: sort_dict_def)

lemma sort_dict_lookup: "distinct (map fst kvs) \<Longrightarrow> map_of (sort_dict kvs) k = map_option sort_json (map_of kvs k)"
  by (erule sort_json_lookup) (rule sort_json_sort_dict)

section \<open>Lemmas on envelopes\<close>

text \<open>What a signature object must be for \<open>verify_envelope\<close> to accept the message \<open>m\<close>.\<close>

definition envelope_ok :: "crypto \<Rightarrow> bytes \<Rightarrow> json \<Rightarrow> bytes \<Rightarrow> bool" where
  "envelope_ok C pk signature m \<longleftrightarrow>
     (\<exists>kvs v sig. signature = JDict kvs \<and> map_of kvs ''alg'' = Some (JStr ALG)
        \<and> map_of kvs ''value'' = Some (JStr v) \<and> b64url_decode v = Inr sig \<and> ed_verify C pk sig m)"

lemma verify_envelope_iff:
  "verify_envelope C content signature pk = Inr u \<longleftrightarrow> envelope_ok C pk signature (canonical_json content)"
proof (cases signature)
  case (JDict kvs)
  show ?thesis
  proof (cases "map_of kvs ''alg'' = Some (JStr ALG)")
    case True
    then show ?thesis
      by (auto simp: JDict verify_envelope_def envelope_ok_def Let_def b64url_decode_value_Inr
          split: option.splits)
  next
    case False
    then show ?thesis
      by (auto simp: JDict verify_envelope_def envelope_ok_def split: option.splits)
  qed
qed (simp_all add: verify_envelope_def envelope_ok_def py_get_def py_get_or_def)

lemma envelope_ok_sign:
  assumes "ed25519_correct C" and "wf_keypair C kp" and "m = canonical_json content"
  shows "envelope_ok C (kp_public kp) (sign_envelope C content kp s) m"
  using ed_verify_own [OF assms(1,2)] assms(3)
  by (simp add: envelope_ok_def sign_envelope_def Let_def b64url_inverse)

lemma verify_sign_envelope:
  assumes "ed25519_correct C" and "wf_keypair C kp" and "canonical_json c = canonical_json c'"
  shows "verify_envelope C c (sign_envelope C c' kp s) (kp_public kp) = Inr ()"
  using envelope_ok_sign [OF assms] by (simp add: verify_envelope_iff)

lemma verify_envelope_raises:
  assumes "\<not> envelope_ok C pk signature (canonical_json content)"
  shows "\<exists>e. verify_envelope C content signature pk = Inl e"
proof (cases "verify_envelope C content signature pk")
  case (Inr u)
  with assms show ?thesis by (simp add: verify_envelope_iff)
qed simp

lemma envelope_ok_vouched: "envelope_ok C pk s m \<Longrightarrow> \<exists>sig. ed_verify C pk sig m"
  by (auto simp: envelope_ok_def)

lemma verify_envelope_unit: "verify_envelope C c s pk = Inr () \<or> (\<exists>e. verify_envelope C c s pk = Inl e)"
  by (cases "verify_envelope C c s pk") auto

lemma sign_envelope_normal [simp]: "normal (sign_envelope C c kp s)"
  by (simp add: sign_envelope_def Let_def)

lemma sign_envelope_signed_by [simp]: "py_index (sign_envelope C c kp s) ''signed_by'' = Inr (JStr s)"
  by (simp add: sign_envelope_def Let_def)

section \<open>Lemmas on compact JWS\<close>

lemma py_get_Str: "py_get d k = Inr (JStr s) \<longleftrightarrow> (\<exists>kvs. d = JDict kvs \<and> map_of kvs k = Some (JStr s))"
  by (auto simp: py_get_Inr split: option.splits)

text \<open>The three parts of a token that \<open>verify_compact\<close> accepts, and what they hold.\<close>

definition compact_ok :: "crypto \<Rightarrow> bytes \<Rightarrow> string \<Rightarrow> json \<Rightarrow> json \<Rightarrow> bytes \<Rightarrow> bool" where
  "compact_ok C pk jws header payload m \<longleftrightarrow>
     (\<exists>hb pb sb sig. split_on (CHR ''.'') jws = [hb, pb, sb]
        \<and> bind_res (b64url_decode hb) loads_bytes = Inr header
        \<and> (\<exists>kvs. header = JDict kvs \<and> map_of kvs ''alg'' = Some (JStr ALG))
        \<and> bind_res (b64url_decode pb) loads_bytes = Inr payload
        \<and> ascii_encode (hb @ ''.'' @ pb) = Inr m
        \<and> b64url_decode sb = Inr sig \<and> ed_verify C pk sig m)"

lemma verify_compact_parts:
  assumes "split_on (CHR ''.'') jws = [hb, pb, sb]"
  shows "verify_compact C jws pk = Inr (header, payload) \<longleftrightarrow>
    (bind_res (b64url_decode hb) loads_bytes = Inr header
        \<and> (\<exists>kvs. header = JDict kvs \<and> map_of kvs ''alg'' = Some (JStr ALG))
        \<and> bind_res (b64url_decode pb) loads_bytes = Inr payload
        \<and> (\<exists>m sig. ascii_encode (hb @ ''.'' @ pb) = Inr m
          \<and> b64url_decode sb = Inr sig \<and> ed_verify C pk sig m))"
proof -
  have alg: "(\<exists>kvs. header = JDict kvs \<and> map_of kvs ''alg'' = Some (JStr ALG)) \<longleftrightarrow>
      py_get header ''alg'' = Inr (JStr ALG)"
    by (rule py_get_Str [symmetric])
  show ?thesis
    unfolding alg by (auto simp: verify_compact_def assms if_distrib [of "\<lambda>r. r = Inr _"] split: if_splits)
qed

lemma verify_compact_iff:
  "verify_compact C jws pk = Inr (header, payload) \<longleftrightarrow> (\<exists>m. compact_ok C pk jws header payload m)"
proof (cases "\<exists>hb pb sb. split_on (CHR ''.'') jws = [hb, pb, sb]")
  case True
  then obtain hb pb sb where s: "split_on (CHR ''.'') jws = [hb, pb, sb]" by blast
  show ?thesis
    unfolding verify_compact_parts [OF s] compact_ok_def by (auto simp: s)
next
  case False
  then show ?thesis
    by (auto simp: verify_compact_def compact_ok_def split: list.splits)
qed

lemma jws_header_sorted [simp]: "sort_json (jws_header kp) = jws_header kp"
  by (simp add: jws_header_def)

lemma jws_header_normal [simp]: "normal (jws_header kp)"
  by (simp add: jws_header_def)

lemma sign_compact_split:
  "split_on (CHR ''.'') (sign_compact C payload kp) =
     [b64url_encode (canonical_json (jws_header kp)), b64url_encode (canonical_json payload),
      b64url_encode (ed_sign C (kp_private kp)
        (utf8_encode (b64url_encode (canonical_json (jws_header kp)) @ ''.''
          @ b64url_encode (canonical_json payload))))]"
  by (simp add: sign_compact_def Let_def split_on_append split_on_no_sep)

lemma ascii_encode_parts:
  "ascii_encode (b64url_encode a @ ''.'' @ b64url_encode b) = Inr (utf8_encode (b64url_encode a @ ''.'' @ b64url_encode b))"
  by (rule ascii_encode_ok) (auto dest: b64url_encode_ascii)

text \<open>The bytes under a token's signature.\<close>

definition token_message :: "keypair \<Rightarrow> json \<Rightarrow> bytes" where
  "token_message kp payload =
     utf8_encode (b64url_encode (canonical_json (jws_header kp)) @ ''.'' @ b64url_encode (canonical_json payload))"

lemma verify_sign_compact_with:
  assumes "ed_verify C pk (ed_sign C (kp_private kp) (token_message kp payload)) (token_message kp payload)"
    and "normal payload"
  shows "verify_compact C (sign_compact C payload kp) pk = Inr (jws_header kp, sort_json payload)"
proof -
  let ?hb = "b64url_encode (canonical_json (jws_header kp))"
  let ?pb = "b64url_encode (canonical_json payload)"
  have "bind_res (b64url_decode ?hb) loads_bytes = Inr (jws_header kp)"
    by (simp add: b64url_inverse loads_bytes_canonical)
  moreover have "\<exists>kvs. jws_header kp = JDict kvs \<and> map_of kvs ''alg'' = Some (JStr ALG)"
    by (simp add: jws_header_def)
  moreover have "bind_res (b64url_decode ?pb) loads_bytes = Inr (sort_json payload)"
    by (simp add: b64url_inverse loads_bytes_canonical assms(2))
  ultimately show ?thesis
    unfolding verify_compact_parts [OF sign_compact_split] ascii_encode_parts b64url_inverse
    using assms(1) [unfolded token_message_def] by blast
qed

lemmas verify_sign_compact = verify_sign_compact_with [OF ed_verify_own]

section \<open>What a verifier promises\<close>

text \<open>
  \<open>accept\<close> returns the claim of a piece of evidence only if some message that \<open>vouched\<close> holds of
  states that claim. If no message is vouched for but the given ones, every accepted claim is
  stated by one of them.
\<close>

locale attestation =
  fixes accept :: "'e \<Rightarrow> exn + 'c"
    and vouched :: "bytes \<Rightarrow> bool"
    and states :: "bytes \<Rightarrow> 'c \<Rightarrow> bool"
  assumes accept_vouched: "accept e = Inr c \<Longrightarrow> \<exists>m. vouched m \<and> states m c"
begin

lemma only_signed:
  assumes "\<And>m. vouched m \<Longrightarrow> m \<in> M" and "accept e = Inr c"
  shows "\<exists>m \<in> M. states m c"
  using accept_vouched [OF assms(2)] assms(1) by blast

end

text \<open>
  Where the messages are those of known statements, an accepted claim is one of theirs: two
  statements with one message make the same claim.
\<close>

locale authentic = attestation accept vouched states
  for accept :: "'e \<Rightarrow> exn + 'c" and vouched states +
  fixes message :: "'a \<Rightarrow> bytes"
    and claim :: "'a \<Rightarrow> 'c"
    and fit :: "'a \<Rightarrow> bool"
    and legit :: "'c \<Rightarrow> bool"
    and same :: "'c \<Rightarrow> 'c \<Rightarrow> bool"
  assumes message_states: "fit a \<Longrightarrow> legit c \<Longrightarrow> states (message a) c \<Longrightarrow> same c (claim a)"
begin

lemma accepted_claim:
  assumes "\<And>m. vouched m \<Longrightarrow> m \<in> message ` A" and "\<And>a. a \<in> A \<Longrightarrow> fit a"
    and "accept e = Inr c" and "legit c"
  shows "\<exists>a \<in> A. same c (claim a)"
  using only_signed [OF assms(1) assms(3)] assms(2,4) message_states by blast

end

text \<open>Two accepted envelopes vouched for by the same message say the same.\<close>

interpretation envelope: authentic
  "\<lambda>(content, signature). bind_res (verify_envelope C content signature pk) (\<lambda>_. Inr content)"
  "\<lambda>m. \<exists>sig. ed_verify C pk sig m" "\<lambda>m content. m = canonical_json content"
  canonical_json "\<lambda>content. content" normal normal "\<lambda>c d. sort_json c = sort_json d"
  for C pk
  by unfold_locales
    (auto simp: verify_envelope_iff canonical_json_eq dest: envelope_ok_vouched)

definition token_states :: "bytes \<Rightarrow> json \<times> json \<Rightarrow> bool" where
  "token_states m c \<longleftrightarrow>
     (\<exists>hb pb. CHR ''.'' \<notin> set hb \<and> m = utf8_encode (hb @ ''.'' @ pb)
        \<and> bind_res (b64url_decode hb) loads_bytes = Inr (fst c)
        \<and> bind_res (b64url_decode pb) loads_bytes = Inr (snd c))"

lemma compact_ok_states: "compact_ok C pk jws h p m \<Longrightarrow> token_states m (h, p)"
  unfolding compact_ok_def token_states_def
  by (metis ascii_encode_Inr fst_conv list.set_intros(1) snd_conv split_on_parts)

lemma compact_ok_vouched: "compact_ok C pk jws h p m \<Longrightarrow> \<exists>sig. ed_verify C pk sig m"
  unfolding compact_ok_def by blast

lemma token_message_states:
  assumes "normal payload" and "token_states (token_message kp payload) c"
  shows "c = (jws_header kp, sort_json payload)"
proof -
  let ?hb = "b64url_encode (canonical_json (jws_header kp))"
  let ?pb = "b64url_encode (canonical_json payload)"
  obtain hb pb where c: "CHR ''.'' \<notin> set hb" "?hb @ ''.'' @ ?pb = hb @ ''.'' @ pb"
      "bind_res (b64url_decode hb) loads_bytes = Inr (fst c)"
      "bind_res (b64url_decode pb) loads_bytes = Inr (snd c)"
    using assms(2) utf8_encode_inj unfolding token_states_def token_message_def by blast
  have "(?hb, ?pb) = split_once (CHR ''.'') (?hb @ CHR ''.'' # ?pb)"
    by (rule split_once_append [OF b64url_encode_no_dot, symmetric])
  also have "?hb @ CHR ''.'' # ?pb = hb @ CHR ''.'' # pb"
    using c(2) by (simp only: append_Cons append_Nil)
  also have "split_once (CHR ''.'') (hb @ CHR ''.'' # pb) = (hb, pb)"
    by (rule split_once_append [OF c(1)])
  finally have "hb = ?hb" "pb = ?pb"
    by (simp_all only: prod.inject)
  then show ?thesis
    using c(3,4) assms(1) by (cases c) (simp add: b64url_inverse loads_bytes_canonical)
qed

interpretation compact: authentic
  "\<lambda>jws. verify_compact C jws pk" "\<lambda>m. \<exists>sig. ed_verify C pk sig m" token_states
  "token_message kp" "\<lambda>payload. (jws_header kp, sort_json payload)" normal "\<lambda>_. True" "(=)"
  for C pk kp
proof unfold_locales
  fix jws c
  assume "verify_compact C jws pk = Inr c"
  then obtain m where "compact_ok C pk jws (fst c) (snd c) m"
    using verify_compact_iff [of C jws pk "fst c" "snd c"] by auto
  then show "\<exists>m. (\<exists>sig. ed_verify C pk sig m) \<and> token_states m c"
    using compact_ok_states compact_ok_vouched by (metis prod.collapse)
next
  fix payload c
  assume "normal payload" and "token_states (token_message kp payload) c"
  then show "c = (jws_header kp, sort_json payload)"
    by (rule token_message_states)
qed

section \<open>Properties\<close>

text \<open>C32: The canonical bytes are faithful: decoding them gives the value back with its objects'
  keys sorted, and two values have the same bytes exactly when they are equal up to the order of
  keys; 1, 1.0 and true are told apart, as are all strings.\<close>

theorem canonical_json_faithful:
  assumes "normal v" and "normal w"
  shows "loads_bytes (canonical_json v) = Inr (sort_json v)
    \<and> (canonical_json v = canonical_json w \<longleftrightarrow> sort_json v = sort_json w)"
  using loads_bytes_canonical [OF assms(1)] canonical_json_eq [OF assms] by blast

lemma canonical_json_faithful_witness:
  "canonical_json (JDict [(''b'', JInt 1), (''a'', JBool True)])
     = canonical_json (JDict [(''a'', JBool True), (''b'', JInt 1)])
   \<and> canonical_json (JInt 1) \<noteq> canonical_json (JFloat False 1 0)"
  using canonical_json_faithful [of "JDict [(''b'', JInt 1), (''a'', JBool True)]"
      "JDict [(''a'', JBool True), (''b'', JInt 1)]"]
    canonical_json_faithful [of "JInt 1" "JFloat False 1 0"] by simp

text \<open>Every token \<open>sign_compact\<close> makes with a matching key pair is accepted by
  \<open>verify_compact\<close> under its public key, which returns the header that names EdDSA and the key
  id, and the payload.\<close>

theorem compact_roundtrip:
  assumes "ed25519_correct C" and "wf_keypair C kp" and "normal payload"
  shows "verify_compact C (sign_compact C payload kp) (kp_public kp)
    = Inr (JDict [(''alg'', JStr ''EdDSA''), (''kid'', JStr (kp_kid kp)), (''typ'', JStr ''atf+jws'')],
           sort_json payload)"
  using verify_sign_compact [OF assms] by (simp add: jws_header_def ALG_def)

lemma compact_roundtrip_witness:
  "verify_compact toy_crypto (sign_compact toy_crypto (JDict [(''exp'', JInt 5)]) toy_keypair) (kp_public toy_keypair)
    = Inr (JDict [(''alg'', JStr ''EdDSA''), (''kid'', JStr ''1''), (''typ'', JStr ''atf+jws'')],
           JDict [(''exp'', JInt 5)])"
  using compact_roundtrip [OF toy_crypto_ok(1) toy_keypair_wf, of "JDict [(''exp'', JInt 5)]"]
  by (simp add: toy_keypair_def generate_def)

text \<open>A token cannot be altered: if the only messages that verify under a public key are those
  of the tokens its holder signed over the payloads \<open>S\<close>, then every compact JWS that
  \<open>verify_compact\<close> accepts under that key, however its text was made, has the holder's header
  and one of the payloads of \<open>S\<close>.\<close>

theorem compact_authentic:
  assumes "signed_only C pk (token_message kp ` S)" and "\<And>p. p \<in> S \<Longrightarrow> normal p"
    and "verify_compact C jws pk = Inr (header, payload)"
  shows "header = jws_header kp \<and> payload \<in> sort_json ` S"
proof -
  have "\<exists>p \<in> S. (header, payload) = (jws_header kp, sort_json p)"
    by (rule compact.accepted_claim [of C pk kp S jws "(header, payload)"])
      (use assms in \<open>auto simp: signed_only_def\<close>)
  then show ?thesis by auto
qed

text \<open>An instance whose public keys verify the given messages only.\<close>

definition toy_sealed :: "bytes list \<Rightarrow> crypto" where
  "toy_sealed ms = toy_crypto\<lparr>ed_verify := (\<lambda>pk s m. s = pk @ m \<and> m \<in> set ms)\<rparr>"

lemma toy_sealed_only: "signed_only (toy_sealed ms) pk (set ms)"
  by (simp add: toy_sealed_def signed_only_def)

lemma toy_sealed_verify: "m \<in> set ms \<Longrightarrow> ed_verify (toy_sealed ms) sk (ed_sign (toy_sealed ms) sk m) m"
  by (simp add: toy_sealed_def toy_crypto_def)

lemma toy_keypair_halves: "kp_public toy_keypair = kp_private toy_keypair"
  by (simp add: toy_keypair_def generate_def toy_crypto_def)

lemma compact_authentic_witness:
  "jws_header toy_keypair = jws_header toy_keypair
   \<and> sort_json (JDict [(''b'', JNull), (''a'', JNull)]) \<in> sort_json ` {JDict [(''b'', JNull), (''a'', JNull)]}"
proof -
  let ?p = "JDict [(''b'', JNull), (''a'', JNull)]"
  let ?C = "toy_sealed [token_message toy_keypair ?p]"
  show ?thesis
  proof (rule compact_authentic [of ?C "kp_private toy_keypair" toy_keypair "{?p}" "sign_compact ?C ?p toy_keypair"])
    show "signed_only ?C (kp_private toy_keypair) (token_message toy_keypair ` {?p})"
      using toy_sealed_only [of "[token_message toy_keypair ?p]"] by simp
    show "verify_compact ?C (sign_compact ?C ?p toy_keypair) (kp_private toy_keypair)
        = Inr (jws_header toy_keypair, sort_json ?p)"
      by (rule verify_sign_compact_with) (simp_all add: toy_sealed_verify)
  qed simp
qed

text \<open>\<open>verify_envelope\<close> accepts exactly the objects whose \<open>alg\<close> is EdDSA and whose \<open>value\<close>
  decodes to a signature that verifies over the content's canonical bytes; in particular it
  accepts what \<open>sign_envelope\<close> made with the matching key, for the same content up to the order
  of keys.\<close>

theorem envelope_exact:
  "(verify_envelope C content signature pk = Inr () \<longleftrightarrow>
      (\<exists>kvs v sig. signature = JDict kvs \<and> map_of kvs ''alg'' = Some (JStr ''EdDSA'')
        \<and> map_of kvs ''value'' = Some (JStr v) \<and> b64url_decode v = Inr sig
        \<and> ed_verify C pk sig (canonical_json content)))
   \<and> (ed25519_correct C \<and> wf_keypair C kp \<longrightarrow>
        verify_envelope C (sort_json content) (sign_envelope C content kp s) (kp_public kp) = Inr ())"
  using verify_envelope_iff [of C content signature pk "()"] verify_sign_envelope [of C kp "sort_json content" content s]
  by (simp add: envelope_ok_def ALG_def)

lemma envelope_exact_witness:
  "verify_envelope toy_crypto (sort_json (JDict [(''b'', JNull), (''a'', JNull)]))
     (sign_envelope toy_crypto (JDict [(''b'', JNull), (''a'', JNull)]) toy_keypair ''me'') (kp_public toy_keypair)
   = Inr ()"
  using envelope_exact [of toy_crypto "JDict [(''b'', JNull), (''a'', JNull)]" JNull "[]" toy_keypair "''me''"]
    toy_crypto_ok(1) toy_keypair_wf by blast

text \<open>C31: Algorithm confusion is refused on both forms: whatever the key accepts, a token whose
  header, or an envelope whose signature object, declares anything but EdDSA raises \<open>ATFError\<close>
  naming the algorithm, before any signature is looked at.\<close>

theorem alg_confusion_refused:
  assumes "split_on (CHR ''.'') jws = [hb, pb, sb]" and "bind_res (b64url_decode hb) loads_bytes = Inr (JDict kvs)"
    and "alg = (case map_of kvs ''alg'' of None \<Rightarrow> JNull | Some v \<Rightarrow> v)" and "alg \<noteq> JStr ''EdDSA''"
  shows "verify_compact C jws pk = Inl (Exn ATFError (''unsupported alg: '' @ py_repr alg @ ''; expected EdDSA''))
    \<and> verify_envelope C content (JDict kvs) pk
        = Inl (Exn ATFError (''unsupported alg: '' @ py_repr alg @ ''; expected EdDSA''))"
  using assms by (simp add: verify_compact_def verify_envelope_def unsupported_alg_def ALG_def del: bind_res_eq_Inr)

lemma alg_confusion_refused_witness:
  "verify_envelope toy_crypto JNull (JDict [(''alg'', JStr ''none'')]) []
    = Inl (Exn ATFError (''unsupported alg: '' @ py_repr (JStr ''none'') @ ''; expected EdDSA''))"
proof -
  let ?h = "JDict [(''alg'', JStr ''none'')]"
  let ?b = "b64url_encode (canonical_json ?h)"
  have s: "split_on (CHR ''.'') (?b @ CHR ''.'' # ?b @ CHR ''.'' # ?b) = [?b, ?b, ?b]"
    by (simp add: split_on_append split_on_no_sep)
  have d: "bind_res (b64url_decode ?b) loads_bytes = Inr ?h"
    by (simp add: b64url_inverse loads_bytes_canonical)
  show ?thesis
    using alg_confusion_refused [OF s d refl, of toy_crypto "[]" JNull] by simp
qed

text \<open>Nothing but the content is under an envelope's signature: changing any other member of
  the signature object than \<open>alg\<close> and \<open>value\<close>, the declared signer \<open>signed_by\<close> and the key id
  among them, does not change the verdict.\<close>

theorem envelope_signer_unbound:
  assumes "k \<noteq> ''alg''" and "k \<noteq> ''value''"
  shows "verify_envelope C content (JDict (dict_put k x kvs)) pk = verify_envelope C content (JDict kvs) pk"
  using assms by (simp add: verify_envelope_def dict_put_lookup)

lemma envelope_signer_unbound_witness:
  "verify_envelope toy_crypto JNull (JDict (dict_put ''signed_by'' (JStr ''mallory'') [(''alg'', JStr ''EdDSA'')])) []
    = verify_envelope toy_crypto JNull (JDict [(''alg'', JStr ''EdDSA'')]) []"
  by (rule envelope_signer_unbound) simp_all

end
