(* ===== verification/Atf_Manifest.thy ===== *)
theory Atf_Manifest
  imports Atf_Signing
begin

text \<open>
  \<open>reference/py/src/atf/manifest.py\<close>: capability manifests, their signature, and the test whether
  a manifest declares a capability. That test and the token's scope test of
  \<open>delegation.py\<close> share one order on dotted names, \<open>covers\<close>; the interface \<open>capability_test\<close>
  states what both promise.
\<close>

section \<open>Manifests\<close>

record capability =
  cap_name :: string
  cap_description :: string
  cap_metadata :: dict

definition capability_dict :: "capability \<Rightarrow> json" where
  "capability_dict c =
     JDict ([(''name'', JStr (cap_name c)), (''description'', JStr (cap_description c))]
       @ (if cap_metadata c \<noteq> [] then [(''metadata'', JDict (cap_metadata c))] else []))"

record manifest =
  man_agent_id :: string
  man_version :: string
  man_capabilities :: "capability list"
  man_evidence :: "json list"
  man_description :: string
  man_homepage :: "string option"

definition manifest_content :: "manifest \<Rightarrow> json" where
  "manifest_content m =
     JDict [(''agent_id'', JStr (man_agent_id m)), (''version'', JStr (man_version m)),
            (''description'', JStr (man_description m)), (''homepage'', opt_str (man_homepage m)),
            (''capabilities'', JList (map capability_dict (man_capabilities m))),
            (''evidence'', JList (man_evidence m))]"

definition sign_manifest :: "crypto \<Rightarrow> manifest \<Rightarrow> keypair \<Rightarrow> json" where
  "sign_manifest C m kp =
     (let content = manifest_content m;
          signature = sign_envelope C content kp (man_agent_id m)
      in JDict [(''manifest'', content), (''signature'', signature)])"

text \<open>\<open>except KeyError as e: raise c(f"missing field {e}")\<close>, and
  \<open>except Exception as e: raise c(str(e)) from e\<close>.\<close>

definition missing_field :: "exn_class \<Rightarrow> exn \<Rightarrow> exn" where
  "missing_field c e =
     (if is_a (exn_cls e) KeyError then Exn c (''missing field '' @ str_exn e) else e)"

definition reraise :: "exn_class \<Rightarrow> exn \<Rightarrow> exn" where
  "reraise c e = Exn c (str_exn e)"

definition verify_manifest :: "crypto \<Rightarrow> json \<Rightarrow> bytes \<Rightarrow> json res" where
  "verify_manifest C env pk =
     bind_res
       (rewrap (missing_field ManifestInvalidSignature)
         (bind_res (py_index env ''manifest'') (\<lambda>content.
          bind_res (py_index env ''signature'') (\<lambda>signature. Inr (content, signature)))))
       (\<lambda>(content, signature).
          bind_res (rewrap (reraise ManifestInvalidSignature) (verify_envelope C content signature pk))
            (\<lambda>_. Inr content))"

section \<open>Declared capabilities\<close>

text \<open>\<open>cap.startswith(declared + ".")\<close>\<close>

definition starts_under :: "json \<Rightarrow> json \<Rightarrow> bool res" where
  "starts_under cap declared =
     (case cap of
        JStr s \<Rightarrow>
          (case declared of
             JStr d \<Rightarrow> Inr (prefix (d @ ''.'') s)
           | _ \<Rightarrow> raise TypeError ''unsupported operand type(s) for +'')
      | _ \<Rightarrow> raise AttributeError ''object has no attribute 'startswith' '')"

definition manifest_has_capability :: "json \<Rightarrow> json \<Rightarrow> bool res" where
  "manifest_has_capability content cap_nam =
     bind_res (bind_res (py_get_or content ''capabilities'' (JList [])) py_iter)
       (any_res (\<lambda>c.
          bind_res (py_get_or c ''name'' (JStr [])) (\<lambda>declared.
            if py_eq cap_nam declared then Inr True else starts_under cap_nam declared)))"

section \<open>The order on capability names\<close>

text \<open>\<open>d\<close> covers \<open>s\<close> when \<open>s\<close> is \<open>d\<close> or continues it after a dot.\<close>

definition covers :: "string \<Rightarrow> string \<Rightarrow> bool" where
  "covers d s \<longleftrightarrow> d = s \<or> prefix (d @ ''.'') s"

text \<open>That is: the segments of \<open>d\<close> are the first segments of \<open>s\<close>.\<close>

lemma covers_segments: "covers d s \<longleftrightarrow> prefix (split_on (CHR ''.'') d) (split_on (CHR ''.'') s)"
proof
  assume "covers d s"
  then show "prefix (split_on (CHR ''.'') d) (split_on (CHR ''.'') s)"
    by (auto simp: covers_def prefix_def split_on_append_sep)
next
  assume "prefix (split_on (CHR ''.'') d) (split_on (CHR ''.'') s)"
  then obtain ws where ws: "split_on (CHR ''.'') s = split_on (CHR ''.'') d @ ws"
    by (auto simp: prefix_def)
  show "covers d s"
  proof (cases "ws = []")
    case True
    then have "s = d"
      using ws by (intro split_on_inj) simp
    then show ?thesis by (simp add: covers_def)
  next
    case False
    have "s = join ''.'' (split_on (CHR ''.'') d @ ws)"
      by (simp only: ws [symmetric] join_split_on)
    also have "\<dots> = d @ ''.'' @ join ''.'' ws"
      by (simp only: join_append [OF split_on_not_Nil False] join_split_on)
    finally show ?thesis by (simp add: covers_def prefix_def)
  qed
qed

lemma covers_refl [simp, intro]: "covers s s"
  by (simp add: covers_def)

lemma covers_trans [trans]: "covers a b \<Longrightarrow> covers b c \<Longrightarrow> covers a c"
  unfolding covers_segments by (rule prefix_order.trans)

lemma covers_antisym: "covers a b \<Longrightarrow> covers b a \<Longrightarrow> a = b"
  unfolding covers_segments by (rule split_on_inj) (rule prefix_order.antisym)

lemma covers_decided: "(if py_eq (JStr s) (JStr d) then Inr True else starts_under (JStr s) (JStr d)) = Inr (covers d s)"
  by (auto simp: starts_under_def covers_def py_eq_def)

text \<open>
  A test of a capability name against a holder of declared names. It holds of everything below a
  declared name and of nothing else, so who may use a name may use every name below it.
\<close>

locale capability_test =
  fixes test :: "'d \<Rightarrow> string \<Rightarrow> exn + bool"
    and declared :: "'d \<Rightarrow> string list"
    and proper :: "'d \<Rightarrow> bool"
  assumes test_covers: "proper d \<Longrightarrow> test d s = Inr (\<exists>x \<in> set (declared d). covers x s)"
begin

lemma test_down:
  assumes "proper d" and "test d s = Inr True" and "covers s t"
  shows "test d t = Inr True"
  using assms covers_trans by (auto simp: test_covers)

lemma test_declared: "proper d \<Longrightarrow> s \<in> set (declared d) \<Longrightarrow> test d s = Inr True"
  by (auto simp: test_covers)

lemma test_widened:
  assumes "proper d" and "proper d'" and "\<And>s. s \<in> set (declared d) \<Longrightarrow> test d' s = Inr True"
    and "test d t = Inr True"
  shows "test d' t = Inr True"
proof -
  obtain s where "s \<in> set (declared d)" "covers s t"
    using assms(1,4) by (auto simp: test_covers)
  then show ?thesis
    using assms(2,3) test_down by blast
qed

end

text \<open>The names a manifest's content declares, and the contents on which the test cannot raise.\<close>

definition capability_entry :: "json \<Rightarrow> string option" where
  "capability_entry c =
     (case c of
        JDict kvs \<Rightarrow>
          (case map_of kvs ''name'' of None \<Rightarrow> Some [] | Some (JStr n) \<Rightarrow> Some n | _ \<Rightarrow> None)
      | _ \<Rightarrow> None)"

definition capability_list :: "json \<Rightarrow> json list option" where
  "capability_list content =
     (case content of
        JDict kvs \<Rightarrow>
          (case map_of kvs ''capabilities'' of None \<Rightarrow> Some [] | Some (JList cs) \<Rightarrow> Some cs | _ \<Rightarrow> None)
      | _ \<Rightarrow> None)"

definition proper_manifest :: "json \<Rightarrow> bool" where
  "proper_manifest content \<longleftrightarrow>
     (case capability_list content of None \<Rightarrow> False | Some cs \<Rightarrow> \<forall>c \<in> set cs. capability_entry c \<noteq> None)"

definition declared_names :: "json \<Rightarrow> string list" where
  "declared_names content =
     (case capability_list content of None \<Rightarrow> [] | Some cs \<Rightarrow> map (\<lambda>c. the (capability_entry c)) cs)"

lemma capability_entry_get:
  assumes "capability_entry c = Some n"
  shows "py_get_or c ''name'' (JStr []) = Inr (JStr n)"
  using assms by (cases c) (auto simp: capability_entry_def split: option.splits json.splits)

lemma capability_list_iter:
  assumes "capability_list content = Some cs"
  shows "bind_res (py_get_or content ''capabilities'' (JList [])) py_iter = Inr cs"
  using assms by (cases content) (auto simp: capability_list_def split: option.splits json.splits)

lemma manifest_has_capability_covers:
  assumes "proper_manifest content"
  shows "manifest_has_capability content (JStr s) = Inr (\<exists>x \<in> set (declared_names content). covers x s)"
proof -
  obtain cs where cs: "capability_list content = Some cs" "\<And>c. c \<in> set cs \<Longrightarrow> capability_entry c \<noteq> None"
    using assms by (auto simp: proper_manifest_def split: option.splits)
  have "any_res (\<lambda>c. bind_res (py_get_or c ''name'' (JStr [])) (\<lambda>declared.
            if py_eq (JStr s) declared then Inr True else starts_under (JStr s) declared)) cs
      = Inr (\<exists>c \<in> set cs. covers (the (capability_entry c)) s)"
  proof (rule any_res_Inr)
    fix c
    assume "c \<in> set cs"
    then obtain n where n: "capability_entry c = Some n"
      using cs(2) by blast
    show "bind_res (py_get_or c ''name'' (JStr [])) (\<lambda>declared.
            if py_eq (JStr s) declared then Inr True else starts_under (JStr s) declared)
        = Inr (covers (the (capability_entry c)) s)"
      using covers_decided [of s n] by (simp only: capability_entry_get [OF n] bind_res_Inr n option.sel)
  qed
  then show ?thesis
    by (simp only: manifest_has_capability_def capability_list_iter [OF cs(1)] bind_res_Inr)
      (simp add: declared_names_def cs(1))
qed

interpretation manifest_test: capability_test
  "\<lambda>content s. manifest_has_capability content (JStr s)" declared_names proper_manifest
  by unfold_locales (rule manifest_has_capability_covers)

section \<open>Lemmas on signed manifests\<close>

definition wf_manifest :: "manifest \<Rightarrow> bool" where
  "wf_manifest m \<longleftrightarrow> (\<forall>v \<in> set (man_evidence m). normal v)
     \<and> (\<forall>c \<in> set (man_capabilities m). normal (JDict (cap_metadata c)))"

lemma capability_dict_normal: "normal (JDict (cap_metadata c)) \<Longrightarrow> normal (capability_dict c)"
  by (simp add: capability_dict_def)

lemma manifest_content_normal: "wf_manifest m \<Longrightarrow> normal (manifest_content m)"
  by (auto simp: manifest_content_def wf_manifest_def intro!: capability_dict_normal)

lemma manifest_content_capabilities:
  "capability_list (manifest_content m) = Some (map capability_dict (man_capabilities m))"
  by (simp add: capability_list_def manifest_content_def)

lemma capability_dict_entry [simp]: "capability_entry (capability_dict c) = Some (cap_name c)"
  by (simp add: capability_entry_def capability_dict_def)

lemma manifest_content_proper [simp]:
  "proper_manifest (manifest_content m)" "declared_names (manifest_content m) = map cap_name (man_capabilities m)"
  by (simp_all add: proper_manifest_def declared_names_def manifest_content_capabilities)

lemma capability_dict_sorted [simp]: "capability_entry (sort_json (capability_dict c)) = Some (cap_name c)"
  by (simp add: capability_entry_def capability_dict_def)

lemma manifest_content_sorted [simp]:
  "proper_manifest (sort_json (manifest_content m))"
  "declared_names (sort_json (manifest_content m)) = map cap_name (man_capabilities m)"
proof -
  have "capability_list (sort_json (manifest_content m)) = Some (map (\<lambda>c. sort_json (capability_dict c)) (man_capabilities m))"
    by (simp add: capability_list_def manifest_content_def comp_def)
  then show "proper_manifest (sort_json (manifest_content m))"
    and "declared_names (sort_json (manifest_content m)) = map cap_name (man_capabilities m)"
    by (simp_all add: proper_manifest_def declared_names_def)
qed

lemma py_index_error: "py_index (JDict kvs) k = Inl e \<Longrightarrow> e = Exn KeyError (str_repr k)"
  by (auto split: option.splits)

lemma verify_manifest_iff:
  "verify_manifest C env pk = Inr c \<longleftrightarrow>
     (\<exists>kvs s. env = JDict kvs \<and> map_of kvs ''manifest'' = Some c \<and> map_of kvs ''signature'' = Some s
        \<and> envelope_ok C pk s (canonical_json c))"
  by (fastforce simp: verify_manifest_def py_index_Inr verify_envelope_iff)

lemma verify_manifest_error:
  assumes "verify_manifest C (JDict kvs) pk = Inl e"
  shows "exn_cls e = ManifestInvalidSignature"
  using assms
  by (auto simp: verify_manifest_def bind_res_eq_Inl rewrap_eq_Inl missing_field_def reraise_def
      simp del: py_index_Dict dest!: py_index_error)

lemma verify_sign_manifest:
  assumes "ed25519_correct C" and "wf_keypair C kp"
  shows "verify_manifest C (sign_manifest C m kp) (kp_public kp) = Inr (manifest_content m)"
  using envelope_ok_sign [OF assms refl] by (simp add: verify_manifest_iff sign_manifest_def Let_def)

lemma sign_manifest_normal: "wf_manifest m \<Longrightarrow> normal (sign_manifest C m kp)"
  by (simp add: sign_manifest_def Let_def manifest_content_normal)

interpretation signed_manifest: authentic
  "\<lambda>env. verify_manifest C env pk" "\<lambda>m. \<exists>sig. ed_verify C pk sig m" "\<lambda>m c. m = canonical_json c"
  "\<lambda>m. canonical_json (manifest_content m)" manifest_content wf_manifest normal
  "\<lambda>c d. sort_json c = sort_json d"
  for C pk
  by unfold_locales
    (auto simp: verify_manifest_iff canonical_json_eq manifest_content_normal dest: envelope_ok_vouched)

section \<open>Properties\<close>

text \<open>A signed manifest reaches its reader: the envelope \<open>sign_manifest\<close> makes, sent as JSON
  text and decoded, passes \<open>verify_manifest\<close> under the signer's key and gives back the content,
  which declares the capabilities it was made with.\<close>

theorem manifest_roundtrip:
  assumes "ed25519_correct C" and "wf_keypair C kp" and "wf_manifest m"
  shows "bind_res (loads_bytes (utf8_encode (render a (sign_manifest C m kp))))
      (\<lambda>env. verify_manifest C env (kp_public kp)) = Inr (manifest_content m)
    \<and> (\<forall>c \<in> set (man_capabilities m).
         manifest_has_capability (manifest_content m) (JStr (cap_name c)) = Inr True)"
  using verify_sign_manifest [OF assms(1,2), of m] loads_bytes_render [OF sign_manifest_normal [OF assms(3)], of a C kp]
    manifest_test.test_declared [of "manifest_content m"] by simp

definition toy_manifest :: manifest where
  "toy_manifest =
     \<lparr>man_agent_id = ''agent://a.com/x#1'', man_version = ''1'',
      man_capabilities = [\<lparr>cap_name = ''code.write'', cap_description = [], cap_metadata = []\<rparr>],
      man_evidence = [], man_description = [], man_homepage = None\<rparr>"

lemma toy_manifest_wf: "wf_manifest toy_manifest"
  by (simp add: toy_manifest_def wf_manifest_def)

lemma manifest_roundtrip_witness:
  "bind_res (loads_bytes (utf8_encode (render False (sign_manifest toy_crypto toy_manifest toy_keypair))))
      (\<lambda>env. verify_manifest toy_crypto env (kp_public toy_keypair)) = Inr (manifest_content toy_manifest)"
  using manifest_roundtrip [OF toy_crypto_ok(1) toy_keypair_wf toy_manifest_wf] by blast

text \<open>A manifest cannot be altered: if the only messages that verify under a key are the
  canonical bytes of the manifests \<open>A\<close> its holder signed, every envelope \<open>verify_manifest\<close> accepts
  holds the content of one of them, up to the order of keys. It refuses every other JSON object
  with \<open>ManifestInvalidSignature\<close>.\<close>

theorem manifest_authentic:
  assumes "signed_only C pk ((\<lambda>m. canonical_json (manifest_content m)) ` A)"
    and "\<And>m. m \<in> A \<Longrightarrow> wf_manifest m" and "normal (JDict env)"
  shows "(\<exists>c. verify_manifest C (JDict env) pk = Inr c
            \<and> (\<exists>m \<in> A. sort_json c = sort_json (manifest_content m)))
    \<or> (\<exists>msg. verify_manifest C (JDict env) pk = Inl (Exn ManifestInvalidSignature msg))"
proof (cases "verify_manifest C (JDict env) pk")
  case (Inl e)
  then show ?thesis
    using verify_manifest_error [OF Inl] by (cases e) simp
next
  case (Inr c)
  then have "normal c"
    using assms(3) by (auto simp: verify_manifest_iff dest!: map_of_SomeD)
  then show ?thesis
    using signed_manifest.accepted_claim [of C pk A "JDict env" c] assms(1,2) Inr
    by (auto simp: signed_only_def)
qed

lemma manifest_authentic_witness:
  "\<exists>msg. verify_manifest (toy_sealed [canonical_json (manifest_content toy_manifest)]) (JDict []) [] =
     Inl (Exn ManifestInvalidSignature msg)"
proof -
  let ?C = "toy_sealed [canonical_json (manifest_content toy_manifest)]"
  have "signed_only ?C [] ((\<lambda>m. canonical_json (manifest_content m)) ` {toy_manifest})"
    using toy_sealed_only [of "[canonical_json (manifest_content toy_manifest)]"] by simp
  then show ?thesis
    using manifest_authentic [of ?C "[]" "{toy_manifest}" "[]"] by (auto simp: toy_manifest_wf verify_manifest_iff)
qed

text \<open>C30: On a manifest whose capabilities are objects with string names, the test decides exactly
  whether the dot-separated segments of some declared name begin those of the asked name: a
  broader capability covers every narrower one, never the other way round, and a name that merely
  starts with the same letters is not covered.\<close>

theorem manifest_capability_exact:
  assumes "proper_manifest content"
  shows "manifest_has_capability content (JStr s) =
    Inr (\<exists>d \<in> set (declared_names content). prefix (split_on (CHR ''.'') d) (split_on (CHR ''.'') s))"
  using manifest_test.test_covers [OF assms, of s] by (simp add: covers_segments)

lemma manifest_capability_exact_witness:
  "manifest_has_capability (manifest_content toy_manifest) (JStr ''code.write.python'') = Inr True
   \<and> manifest_has_capability (manifest_content toy_manifest) (JStr ''code'') = Inr False
   \<and> manifest_has_capability (manifest_content toy_manifest) (JStr ''code.writer'') = Inr False"
  using manifest_capability_exact [OF manifest_content_proper(1), of toy_manifest "''code.write.python''"]
    manifest_capability_exact [OF manifest_content_proper(1), of toy_manifest "''code''"]
    manifest_capability_exact [OF manifest_content_proper(1), of toy_manifest "''code.writer''"]
  by (simp add: toy_manifest_def)

end
