(* ===== verification/Atf_Sha256.thy ===== *)
theory Atf_Sha256
  imports Atf_Text
begin

unbundle bit_operations_syntax

text \<open>
  \<open>hashlib.sha256(data).hexdigest()\<close> of the standard library, which the code uses for payload
  hashes (\<open>outcome.py\<close>) and for the chain of the audit log (\<open>audit.py\<close>): the function itself, on
  32-bit words with wrap-around addition. Nothing is assumed about it; theorems that need
  collision freedom state their conclusion up to an explicit collision.
\<close>

type_synonym u32 = "32 word"

text \<open>
  The first 32 bits of the fractional parts of the cube roots of the first 64 primes, and of the
  square roots of the first 8.
\<close>

definition sha_k :: "u32 list" where
  "sha_k = [
     1116352408, 1899447441, 3049323471, 3921009573, 961987163, 1508970993, 2453635748, 2870763221,
     3624381080, 310598401, 607225278, 1426881987, 1925078388, 2162078206, 2614888103, 3248222580,
     3835390401, 4022224774, 264347078, 604807628, 770255983, 1249150122, 1555081692, 1996064986,
     2554220882, 2821834349, 2952996808, 3210313671, 3336571891, 3584528711, 113926993, 338241895,
     666307205, 773529912, 1294757372, 1396182291, 1695183700, 1986661051, 2177026350, 2456956037,
     2730485921, 2820302411, 3259730800, 3345764771, 3516065817, 3600352804, 4094571909, 275423344,
     430227734, 506948616, 659060556, 883997877, 958139571, 1322822218, 1537002063, 1747873779,
     1955562222, 2024104815, 2227730452, 2361852424, 2428436474, 2756734187, 3204031479, 3329325298]"

definition sha_init :: "u32 list" where
  "sha_init = [
     1779033703, 3144134277, 1013904242, 2773480762, 1359893119, 2600822924, 528734635, 1541459225]"

definition sha_big0 :: "u32 \<Rightarrow> u32" where
  "sha_big0 x = word_rotr 2 x XOR word_rotr 13 x XOR word_rotr 22 x"

definition sha_big1 :: "u32 \<Rightarrow> u32" where
  "sha_big1 x = word_rotr 6 x XOR word_rotr 11 x XOR word_rotr 25 x"

definition sha_small0 :: "u32 \<Rightarrow> u32" where
  "sha_small0 x = word_rotr 7 x XOR word_rotr 18 x XOR drop_bit 3 x"

definition sha_small1 :: "u32 \<Rightarrow> u32" where
  "sha_small1 x = word_rotr 17 x XOR word_rotr 19 x XOR drop_bit 10 x"

definition sha_ch :: "u32 \<Rightarrow> u32 \<Rightarrow> u32 \<Rightarrow> u32" where
  "sha_ch x y z = (x AND y) XOR (NOT x AND z)"

definition sha_maj :: "u32 \<Rightarrow> u32 \<Rightarrow> u32 \<Rightarrow> u32" where
  "sha_maj x y z = (x AND y) XOR (x AND z) XOR (y AND z)"

text \<open>A word as its bytes, most significant first, and back.\<close>

definition be_bytes32 :: "u32 \<Rightarrow> bytes" where
  "be_bytes32 w = map (\<lambda>i. ucast (drop_bit i w)) [24, 16, 8, 0]"

definition be_word32 :: "bytes \<Rightarrow> u32" where
  "be_word32 bs = foldl (\<lambda>a b. push_bit 8 a OR ucast b) 0 bs"

text \<open>Padding to whole 64-byte blocks: a one bit, zeros, and the length in bits (64 of them).\<close>

definition sha_length :: "bytes \<Rightarrow> 64 word" where
  "sha_length m = push_bit 3 (word_of_nat (length m))"

definition sha_pad :: "bytes \<Rightarrow> bytes" where
  "sha_pad m =
     m @ [128] @ replicate ((119 - length m mod 64) mod 64) 0
     @ be_bytes32 (ucast (drop_bit 32 (sha_length m))) @ be_bytes32 (ucast (sha_length m))"

fun chunks :: "nat \<Rightarrow> 'a list \<Rightarrow> 'a list list" where
  "chunks n xs =
     (if n = 0 \<or> xs = [] then [] else take n xs # chunks n (drop n xs))"

declare chunks.simps [simp del]

text \<open>The message schedule, newest word first.\<close>

definition sha_extend :: "u32 list \<Rightarrow> u32 list" where
  "sha_extend r = (sha_small1 (r ! 1) + r ! 6 + sha_small0 (r ! 14) + r ! 15) # r"

definition sha_schedule :: "bytes \<Rightarrow> u32 list" where
  "sha_schedule block = rev ((sha_extend ^^ 48) (rev (map be_word32 (chunks 4 block))))"

fun sha_round :: "u32 list \<Rightarrow> u32 \<times> u32 \<Rightarrow> u32 list" where
  "sha_round [a, b, c, d, e, f, g, h] (k, w) =
     (let t1 = h + sha_big1 e + sha_ch e f g + k + w;
          t2 = sha_big0 a + sha_maj a b c
      in [t1 + t2, a, b, c, d + t1, e, f, g])"
| "sha_round st _ = st"

definition sha_block :: "u32 list \<Rightarrow> bytes \<Rightarrow> u32 list" where
  "sha_block st block =
     map2 (+) st (foldl sha_round st (zip sha_k (sha_schedule block)))"

definition sha256 :: "bytes \<Rightarrow> bytes" where
  "sha256 m =
     concat (map be_bytes32 (foldl sha_block sha_init (chunks 64 (sha_pad m))))"

text \<open>\<open>hexdigest()\<close>\<close>

definition sha256_hex :: "bytes \<Rightarrow> string" where
  "sha256_hex m = concat (map (\<lambda>b. hex_byte (unat b)) (sha256 m))"

section \<open>Shape of the digest\<close>

lemma length_sha_round [simp]: "length (sha_round st kw) = length st"
  by (induction st kw rule: sha_round.induct) (simp_all add: Let_def)

lemma length_sha_rounds [simp]: "length (foldl sha_round st kws) = length st"
  by (induction kws arbitrary: st) simp_all

lemma length_sha_block [simp]: "length (sha_block st block) = length st"
  by (simp add: sha_block_def)

lemma length_sha_blocks [simp]: "length (foldl sha_block st bs) = length st"
  by (induction bs arbitrary: st) simp_all

lemma length_be_bytes32 [simp]: "length (be_bytes32 w) = 4"
  by (simp add: be_bytes32_def)

lemma length_sha256: "length (sha256 m) = 32"
proof -
  have "length (concat (map be_bytes32 ws)) = 4 * length ws" for ws :: "u32 list"
    by (induction ws) simp_all
  then show ?thesis by (simp add: sha256_def sha_init_def)
qed

lemma length_sha256_hex: "length (sha256_hex m) = 64"
proof -
  have "length (concat (map (\<lambda>b. hex_byte (unat b)) bs)) = 2 * length bs" for bs :: bytes
    by (induction bs) (simp_all add: hex_byte_def)
  then show ?thesis by (simp add: sha256_hex_def length_sha256)
qed

lemma length_sha_pad: "length (sha_pad m) mod 64 = 0"
proof -
  define r where "r = length m mod 64"
  have "r < 64" by (simp add: r_def)
  have "length (sha_pad m) = length m + (119 - r) mod 64 + 9"
    by (simp add: sha_pad_def r_def)
  then have "length (sha_pad m) mod 64 = (r + ((119 - r) mod 64 + 9)) mod 64"
    by (simp add: r_def mod_simps add.assoc del: mod_add_left_eq)
      (metis mod_add_left_eq)
  also have "\<dots> = (r + (119 - r) + 9) mod 64"
    by (metis mod_add_left_eq mod_add_right_eq add.assoc)
  also have "\<dots> = 0"
    using \<open>r < 64\<close> by simp
  finally show ?thesis .
qed

lemma hex_byte_plain:
  assumes "c \<in> set (hex_byte (unat (b :: byte)))"
  shows "(of_char c :: nat) < 128" and "32 \<le> (of_char c :: nat)"
proof -
  have "unat b < 2 ^ LENGTH(8)"
    by (rule unsigned_less)
  then have "unat b div 16 < 16" "unat b mod 16 < 16"
    by (simp_all add: less_mult_imp_div_less)
  moreover have "c = hex_char (unat b div 16) \<or> c = hex_char (unat b mod 16)"
    using assms by (auto simp: hex_byte_def)
  ultimately obtain d where "d < 16" "c = hex_char d"
    by blast
  then show "(of_char c :: nat) < 128" "32 \<le> (of_char c :: nat)"
    by (auto simp: hex_char_def)
qed

lemma sha256_hex_plain:
  "c \<in> set (sha256_hex m) \<Longrightarrow> (of_char c :: nat) < 128"
  by (auto simp: sha256_hex_def dest: hex_byte_plain)

end
