(* ===== verification/Atf_Outcome.thy ===== *)
theory Atf_Outcome
  imports Atf_Manifest Atf_Sha256
begin

text \<open>
  \<open>reference/py/src/atf/outcome.py\<close>: outcomes, their payload hash, signing and verification.
  The fields of an outcome are unchecked Python values. Hashes are those of the concrete SHA-256,
  and theorems about them conclude a collision where one would be needed.
\<close>

section \<open>Outcomes\<close>

record outcome =
  out_token_jti :: json
  out_status :: json
  out_payload :: json
  out_schema_id :: json
  out_executed_at :: json
  out_reason :: json

definition hash_text :: "bytes \<Rightarrow> string" where
  "hash_text b = ''sha256:'' @ sha256_hex b"

definition payload_hash :: "outcome \<Rightarrow> string" where
  "payload_hash out =
     (let canonical = utf8_encode (dumps False (out_payload out))
      in hash_text canonical)"

definition outcome_content :: "outcome \<Rightarrow> json" where
  "outcome_content out =
     JDict [(''token_jti'', out_token_jti out), (''status'', out_status out),
            (''payload'', out_payload out), (''payload_hash'', JStr (payload_hash out)),
            (''schema_id'', out_schema_id out), (''executed_at'', out_executed_at out),
            (''reason'', out_reason out)]"

definition sign_outcome :: "crypto \<Rightarrow> outcome \<Rightarrow> keypair \<Rightarrow> string \<Rightarrow> json" where
  "sign_outcome C out kp signed_by =
     (let content = outcome_content out;
          signature = sign_envelope C content kp signed_by
      in JDict [(''outcome'', content), (''signature'', signature)])"

section \<open>Verification\<close>

definition schema_message :: "string \<Rightarrow> json \<Rightarrow> string" where
  "schema_message want got = ''expected schema '' @ str_repr want @ '', got '' @ py_repr got"

text \<open>\<open>if expected_schema_id is not None and content.get("schema_id") != expected_schema_id\<close>\<close>

definition check_schema :: "json \<Rightarrow> string option \<Rightarrow> unit res" where
  "check_schema content expected =
     (case expected of
        None \<Rightarrow> Inr ()
      | Some want \<Rightarrow>
          bind_res (py_get content ''schema_id'') (\<lambda>got.
            if \<not> py_eq got (JStr want) then raise OutcomeSchemaMismatch (schema_message want got)
            else Inr ()))"

definition outcome_of_content :: "json \<Rightarrow> outcome res" where
  "outcome_of_content content =
     bind_res (py_index content ''token_jti'') (\<lambda>jti.
     bind_res (py_index content ''status'') (\<lambda>status.
     bind_res (py_index content ''payload'') (\<lambda>payload.
     bind_res (py_index content ''schema_id'') (\<lambda>schema.
     bind_res (py_index content ''executed_at'') (\<lambda>at.
     bind_res (py_get content ''reason'') (\<lambda>reason.
       Inr \<lparr>out_token_jti = jti, out_status = status, out_payload = payload,
            out_schema_id = schema, out_executed_at = at, out_reason = reason\<rparr>))))))"

definition verify_outcome :: "crypto \<Rightarrow> json \<Rightarrow> bytes \<Rightarrow> string option \<Rightarrow> json res" where
  "verify_outcome C env pk expected =
     bind_res
       (rewrap (missing_field OutcomeInvalidSignature)
         (bind_res (py_index env ''outcome'') (\<lambda>content.
          bind_res (py_index env ''signature'') (\<lambda>signature. Inr (content, signature)))))
       (\<lambda>(content, signature).
          bind_res (rewrap (reraise OutcomeInvalidSignature) (verify_envelope C content signature pk)) (\<lambda>_.
          bind_res (check_schema content expected) (\<lambda>_.
          bind_res (outcome_of_content content) (\<lambda>out.
          bind_res (py_index content ''payload_hash'') (\<lambda>h.
            if \<not> py_eq (JStr (payload_hash out)) h
            then raise OutcomeSchemaMismatch ''payload_hash mismatch''
            else Inr content)))))"

section \<open>Lemmas\<close>

lemma payload_hash_canonical: "payload_hash out = hash_text (canonical_json (out_payload out))"
  by (simp add: payload_hash_def canonical_json_def)

lemma hash_text_inj: "hash_text a = hash_text b \<longleftrightarrow> sha256_hex a = sha256_hex b"
  by (simp add: hash_text_def)

text \<open>Two different messages with one hash.\<close>

definition sha256_collision :: "bytes \<Rightarrow> bytes \<Rightarrow> bool" where
  "sha256_collision a b \<longleftrightarrow> a \<noteq> b \<and> sha256_hex a = sha256_hex b"

lemma hash_text_eq: "hash_text a = hash_text b \<Longrightarrow> a = b \<or> sha256_collision a b"
  by (auto simp: hash_text_inj sha256_collision_def)

text \<open>What a content must hold for \<open>verify_outcome\<close> to return it.\<close>

definition outcome_complete :: "json \<Rightarrow> string option \<Rightarrow> bool" where
  "outcome_complete content expected \<longleftrightarrow>
     (\<exists>kvs payload. content = JDict kvs
        \<and> {''token_jti'', ''status'', ''schema_id'', ''executed_at''} \<subseteq> dom (map_of kvs)
        \<and> map_of kvs ''payload'' = Some payload
        \<and> map_of kvs ''payload_hash'' = Some (JStr (hash_text (canonical_json payload)))
        \<and> (\<forall>want. expected = Some want \<longrightarrow> map_of kvs ''schema_id'' = Some (JStr want)))"

lemma check_schema_Inr:
  "check_schema (JDict kvs) expected = Inr () \<longleftrightarrow>
     (\<forall>want. expected = Some want \<longrightarrow> map_of kvs ''schema_id'' = Some (JStr want))"
  by (auto simp: check_schema_def split: option.splits if_splits)

lemma outcome_of_content_Inr:
  "outcome_of_content content = Inr out \<longleftrightarrow>
     (\<exists>kvs. content = JDict kvs \<and> map_of kvs ''token_jti'' = Some (out_token_jti out)
        \<and> map_of kvs ''status'' = Some (out_status out) \<and> map_of kvs ''payload'' = Some (out_payload out)
        \<and> map_of kvs ''schema_id'' = Some (out_schema_id out)
        \<and> map_of kvs ''executed_at'' = Some (out_executed_at out)
        \<and> out_reason out = (case map_of kvs ''reason'' of None \<Rightarrow> JNull | Some r \<Rightarrow> r))"
  by (cases content; cases out) (auto simp: outcome_of_content_def py_index_Inr py_index_def split: option.splits)

lemma outcome_checks:
  "check_schema c expected = Inr () \<and> (\<exists>out. outcome_of_content c = Inr out
      \<and> py_index c ''payload_hash'' = Inr (JStr (payload_hash out)))
    \<longleftrightarrow> outcome_complete c expected" (is "?L \<longleftrightarrow> ?R")
proof
  assume ?L
  then obtain out kvs where o: "check_schema c expected = Inr ()" "outcome_of_content c = Inr out"
      "py_index c ''payload_hash'' = Inr (JStr (payload_hash out))" "c = JDict kvs"
    by (auto simp: outcome_of_content_Inr)
  then have "map_of kvs ''payload_hash'' = Some (JStr (hash_text (canonical_json (out_payload out))))"
    by (simp add: py_index_Inr payload_hash_canonical del: py_index_Dict)
  with o show ?R
    by (auto simp: outcome_complete_def outcome_of_content_Inr check_schema_Inr)
next
  assume ?R
  then obtain kvs payload j st sc at where c: "c = JDict kvs" "map_of kvs ''payload'' = Some payload"
      "map_of kvs ''token_jti'' = Some j" "map_of kvs ''status'' = Some st"
      "map_of kvs ''schema_id'' = Some sc" "map_of kvs ''executed_at'' = Some at"
      "map_of kvs ''payload_hash'' = Some (JStr (hash_text (canonical_json payload)))"
      "\<forall>want. expected = Some want \<longrightarrow> map_of kvs ''schema_id'' = Some (JStr want)"
    by (auto simp: outcome_complete_def)
  let ?o = "\<lparr>out_token_jti = j, out_status = st, out_payload = payload, out_schema_id = sc,
    out_executed_at = at, out_reason = (case map_of kvs ''reason'' of None \<Rightarrow> JNull | Some r \<Rightarrow> r)\<rparr>"
  have "outcome_of_content c = Inr ?o"
    using c by (simp add: outcome_of_content_Inr)
  moreover have "check_schema c expected = Inr ()"
    using c(1,8) by (simp only: check_schema_Inr)
  moreover have "py_index c ''payload_hash'' = Inr (JStr (payload_hash ?o))"
    using c by (simp add: payload_hash_canonical)
  ultimately show ?L by blast
qed

lemma verify_outcome_iff:
  "verify_outcome C env pk expected = Inr c \<longleftrightarrow>
     (\<exists>kvs s. env = JDict kvs \<and> map_of kvs ''outcome'' = Some c \<and> map_of kvs ''signature'' = Some s
        \<and> envelope_ok C pk s (canonical_json c) \<and> outcome_complete c expected)"
proof -
  have "verify_outcome C env pk expected = Inr c \<longleftrightarrow>
    (\<exists>s. py_index env ''outcome'' = Inr c \<and> py_index env ''signature'' = Inr s
      \<and> envelope_ok C pk s (canonical_json c)
      \<and> check_schema c expected = Inr () \<and> (\<exists>out. outcome_of_content c = Inr out
      \<and> py_index c ''payload_hash'' = Inr (JStr (payload_hash out))))"
    by (auto simp: verify_outcome_def verify_envelope_iff if_distrib [of "\<lambda>r. r = Inr _"] split: if_splits)
  then show ?thesis
    unfolding outcome_checks by (auto simp: py_index_Inr)
qed

lemma verify_outcome_normal: "normal env \<Longrightarrow> verify_outcome C env pk expected = Inr c \<Longrightarrow> normal c"
  unfolding verify_outcome_iff using normal_member by blast

definition wf_outcome :: "outcome \<Rightarrow> bool" where
  "wf_outcome out \<longleftrightarrow> (\<forall>v \<in> {out_token_jti out, out_status out, out_payload out, out_schema_id out,
     out_executed_at out, out_reason out}. normal v)"

lemma outcome_content_normal: "wf_outcome out \<Longrightarrow> normal (outcome_content out)"
  by (simp add: wf_outcome_def outcome_content_def)

lemma sign_outcome_normal: "wf_outcome out \<Longrightarrow> normal (sign_outcome C out kp s)"
  by (simp add: sign_outcome_def Let_def outcome_content_normal)

lemma outcome_content_complete:
  "expected = None \<or> Some (out_schema_id out) = map_option JStr expected \<Longrightarrow>
    outcome_complete (outcome_content out) expected"
  by (auto simp: outcome_complete_def outcome_content_def payload_hash_canonical)

interpretation signed_outcome: authentic
  "\<lambda>env. verify_outcome C env pk expected" "\<lambda>m. \<exists>sig. ed_verify C pk sig m" "\<lambda>m c. m = canonical_json c"
  "\<lambda>out. canonical_json (outcome_content out)" outcome_content wf_outcome normal
  "\<lambda>c d. sort_json c = sort_json d"
  for C pk expected
  by unfold_locales
    (auto simp: verify_outcome_iff canonical_json_eq outcome_content_normal dest: envelope_ok_vouched)

section \<open>Properties\<close>

text \<open>An outcome reaches the delegator: the envelope \<open>sign_outcome\<close> makes, sent as JSON text
  and decoded, passes \<open>verify_outcome\<close> under the signer's key when the reader expects no schema or
  the declared one, and comes back as the signed content.\<close>

theorem outcome_roundtrip:
  assumes "ed25519_correct C" and "wf_keypair C kp" and "wf_outcome out"
    and "expected = None \<or> (\<exists>s. expected = Some s \<and> out_schema_id out = JStr s)"
  shows "bind_res (loads_bytes (utf8_encode (render a (sign_outcome C out kp signer))))
    (\<lambda>env. verify_outcome C env (kp_public kp) expected) = Inr (outcome_content out)"
  using loads_bytes_render [OF sign_outcome_normal [OF assms(3)], of a C kp signer] assms(4)
    envelope_ok_sign [OF assms(1,2) refl] outcome_content_complete [of expected out]
  by (auto simp: verify_outcome_iff sign_outcome_def Let_def)

definition toy_outcome :: outcome where
  "toy_outcome =
     \<lparr>out_token_jti = JStr ''tkn_1'', out_status = JStr ''ok'', out_payload = JDict [(''n'', JInt 1)],
      out_schema_id = JStr ''s.v1'', out_executed_at = JInt 5, out_reason = JNull\<rparr>"

lemma toy_outcome_wf: "wf_outcome toy_outcome"
  by (simp add: toy_outcome_def wf_outcome_def)

lemma outcome_roundtrip_witness:
  "bind_res (loads_bytes (utf8_encode (render True (sign_outcome toy_crypto toy_outcome toy_keypair ''b''))))
    (\<lambda>env. verify_outcome toy_crypto env (kp_public toy_keypair) (Some ''s.v1'')) = Inr (outcome_content toy_outcome)"
  by (rule outcome_roundtrip [OF toy_crypto_ok(1) toy_keypair_wf toy_outcome_wf]) (simp add: toy_outcome_def)

text \<open>C28: An accepted outcome is what its signer hashed: its \<open>payload_hash\<close> is the SHA-256 of its
  own payload's canonical bytes, its schema the expected one, and two accepted outcomes with the
  same \<open>payload_hash\<close> have the same payload up to the order of keys, unless they exhibit two
  payloads whose bytes collide under SHA-256.\<close>

theorem outcome_payload_bound:
  assumes "verify_outcome C env pk expected = Inr (JDict c)" and "verify_outcome C' env' pk' expected' = Inr (JDict c')"
    and "normal env" and "normal env'" and "map_of c ''payload_hash'' = map_of c' ''payload_hash''"
  shows "\<exists>p p'. map_of c ''payload'' = Some p \<and> map_of c' ''payload'' = Some p'
    \<and> map_of c ''payload_hash'' = Some (JStr (''sha256:'' @ sha256_hex (canonical_json p)))
    \<and> (\<forall>want. expected = Some want \<longrightarrow> map_of c ''schema_id'' = Some (JStr want))
    \<and> (sort_json p = sort_json p' \<or> sha256_collision (canonical_json p) (canonical_json p'))"
proof -
  have n: "normal (JDict c)" "normal (JDict c')"
    using verify_outcome_normal assms(1-4) by blast+
  obtain p p' where p: "map_of c ''payload'' = Some p" "map_of c' ''payload'' = Some p'"
    and h: "map_of c ''payload_hash'' = Some (JStr (hash_text (canonical_json p)))"
      "map_of c' ''payload_hash'' = Some (JStr (hash_text (canonical_json p')))"
    and s: "\<forall>want. expected = Some want \<longrightarrow> map_of c ''schema_id'' = Some (JStr want)"
    using assms(1,2) by (auto simp: verify_outcome_iff outcome_complete_def)
  have "normal p" "normal p'"
    using n p normal_member by blast+
  moreover have "hash_text (canonical_json p) = hash_text (canonical_json p')"
    using h assms(5) by simp
  ultimately have "sort_json p = sort_json p' \<or> sha256_collision (canonical_json p) (canonical_json p')"
    using hash_text_eq canonical_json_eq by blast
  with p h s show ?thesis by (simp add: hash_text_def)
qed

lemma verify_sign_outcome:
  assumes "ed25519_correct C" and "wf_keypair C kp"
    and "expected = None \<or> Some (out_schema_id out) = map_option JStr expected"
  shows "verify_outcome C (sign_outcome C out kp s) (kp_public kp) expected = Inr (outcome_content out)"
  using envelope_ok_sign [OF assms(1,2) refl] outcome_content_complete [OF assms(3)]
  by (simp add: verify_outcome_iff sign_outcome_def Let_def)

lemma outcome_payload_bound_witness:
  "\<exists>c p. outcome_content toy_outcome = JDict c \<and> map_of c ''payload'' = Some p
    \<and> map_of c ''payload_hash'' = Some (JStr (''sha256:'' @ sha256_hex (canonical_json p)))"
proof -
  obtain c where c: "outcome_content toy_outcome = JDict c"
    by (simp add: outcome_content_def)
  let ?e = "sign_outcome toy_crypto toy_outcome toy_keypair ''b''"
  have v: "verify_outcome toy_crypto ?e (kp_public toy_keypair) None = Inr (JDict c)"
    using verify_sign_outcome [OF toy_crypto_ok(1) toy_keypair_wf, of None toy_outcome "''b''"] c by simp
  have n: "normal ?e"
    by (rule sign_outcome_normal [OF toy_outcome_wf])
  show ?thesis
    using outcome_payload_bound [OF v v n n refl] c by blast
qed

text \<open>What \<open>verify_outcome\<close> returns was signed: if the only messages that verify under the
  delegatee's key are the canonical bytes of the outcomes \<open>A\<close> it signed, then the returned content
  is one of theirs up to the order of keys.\<close>

theorem outcome_authentic:
  assumes "signed_only C pk ((\<lambda>out. canonical_json (outcome_content out)) ` A)"
    and "\<And>out. out \<in> A \<Longrightarrow> wf_outcome out"
    and "normal env" and "verify_outcome C env pk expected = Inr c"
  shows "\<exists>out \<in> A. sort_json c = sort_json (outcome_content out)"
proof -
  have "normal c"
    using verify_outcome_normal assms(3,4) by blast
  then show ?thesis
    using signed_outcome.accepted_claim [of C pk A env expected c] assms by (auto simp: signed_only_def)
qed

lemma outcome_authentic_witness:
  "\<exists>out \<in> {toy_outcome}. sort_json (outcome_content toy_outcome) = sort_json (outcome_content out)"
proof -
  let ?C = "toy_sealed [canonical_json (outcome_content toy_outcome)]"
  let ?sg = "JDict [(''alg'', JStr ALG), (''value'', JStr (b64url_encode
    (ed_sign ?C (kp_private toy_keypair) (canonical_json (outcome_content toy_outcome)))))]"
  have "envelope_ok ?C (kp_private toy_keypair) ?sg (canonical_json (outcome_content toy_outcome))"
    by (simp add: envelope_ok_def b64url_inverse toy_sealed_verify)
  then have "verify_outcome ?C (JDict [(''outcome'', outcome_content toy_outcome), (''signature'', ?sg)])
      (kp_private toy_keypair) None = Inr (outcome_content toy_outcome)"
    using outcome_content_complete [of None toy_outcome] by (simp add: verify_outcome_iff)
  moreover have "signed_only ?C (kp_private toy_keypair)
      ((\<lambda>out. canonical_json (outcome_content out)) ` {toy_outcome})"
    using toy_sealed_only [of "[canonical_json (outcome_content toy_outcome)]"] by simp
  ultimately show ?thesis
    by (rule_tac outcome_authentic) (simp_all add: toy_outcome_wf outcome_content_normal)
qed

end
