(* ===== verification/Atf_Audit.thy ===== *)
theory Atf_Audit
  imports Atf_Outcome "HOL-Library.Option_ord"
begin

text \<open>
  \<open>reference/py/src/atf/audit.py\<close>: audit events, the SQLite table that stores them and every
  operation of \<open>AuditLog\<close>. The state is the list of rows in the order of insertion; an operation
  that raises leaves it as it was, because the statement's transaction is not committed. What
  SQLite does with a Python value is written out: the types it binds, the TEXT affinity of a
  column, NOT NULL and PRIMARY KEY, and the order of rows.
\<close>

section \<open>Events\<close>

definition GENESIS_HASH :: string where
  "GENESIS_HASH = ''sha256:'' @ replicate 64 (CHR ''0'')"

text \<open>Every field but the time stamp and the fields may hold a value from the network.\<close>

record audit_event =
  ev_type :: json
  ev_token_jti :: json
  ev_delegator_id :: json
  ev_delegatee_id :: json
  ev_fields :: dict
  ev_event_id :: json
  ev_ts :: int

definition event_content :: "audit_event \<Rightarrow> json" where
  "event_content ev =
     JDict [(''event_id'', ev_event_id ev), (''ts'', JInt (ev_ts ev)), (''type'', ev_type ev),
            (''token_jti'', ev_token_jti ev), (''delegator_id'', ev_delegator_id ev),
            (''delegatee_id'', ev_delegatee_id ev), (''fields'', JDict (ev_fields ev))]"

definition from_content :: "json \<Rightarrow> audit_event res" where
  "from_content content =
     bind_res (py_index content ''type'') (\<lambda>ty.
     bind_res (py_get content ''token_jti'') (\<lambda>jti.
     bind_res (py_get content ''delegator_id'') (\<lambda>delegator.
     bind_res (py_get content ''delegatee_id'') (\<lambda>delegatee.
     bind_res (bind_res (py_get content ''fields'') (\<lambda>v. py_dict (or_empty v))) (\<lambda>fields.
     bind_res (py_index content ''event_id'') (\<lambda>eid.
     bind_res (bind_res (py_index content ''ts'') py_int) (\<lambda>ts.
       Inr \<lparr>ev_type = ty, ev_token_jti = jti, ev_delegator_id = delegator,
            ev_delegatee_id = delegatee, ev_fields = fields, ev_event_id = eid, ev_ts = ts\<rparr>)))))))"

definition chain_hash :: "string \<Rightarrow> json \<Rightarrow> string res" where
  "chain_hash prev record =
     bind_res (ascii_encode prev) (\<lambda>p. Inr (hash_text (p @ [10] @ canonical_json record)))"

section \<open>What SQLite stores\<close>

text \<open>A float as TEXT: SQLite prints it with \<open>%!.15g\<close>.\<close>

definition real_text :: "bool \<Rightarrow> nat \<Rightarrow> int \<Rightarrow> string" where
  "real_text s m e =
     (if m = 0 then ''0.0''
      else
        let ds = nat_str m;
            decpt = int (length ds) + e
        in (if s then ''-'' else '''') @
           (if decpt < -3 \<or> 15 < decpt
            then hd ds # CHR ''.'' # (if tl ds = [] then ''0'' else tl ds) @ float_exp_part (decpt - 1)
            else float_digits m e))"

text \<open>A bound parameter in a TEXT column: \<open>None\<close> is NULL.\<close>

definition bind_int :: "int \<Rightarrow> int res" where
  "bind_int i =
     (if - (2 ^ 63) \<le> i \<and> i < 2 ^ 63 then Inr i
      else raise OverflowError ''Python int too large to convert to SQLite INTEGER'')"

definition bind_text :: "json \<Rightarrow> string option res" where
  "bind_text v =
     (case v of
        JNull \<Rightarrow> Inr None
      | JStr s \<Rightarrow> Inr (Some s)
      | JBool b \<Rightarrow> Inr (Some (if b then ''1'' else ''0''))
      | JInt i \<Rightarrow> bind_res (bind_int i) (\<lambda>n. Inr (Some (int_str n)))
      | JFloat s m e \<Rightarrow> Inr (Some (real_text s m e))
      | _ \<Rightarrow> raise ProgrammingError ''Error binding parameter: type is not supported'')"

record row =
  row_event_id :: "string option"
  row_ts :: int
  row_type :: string
  row_token_jti :: "string option"
  row_prev_hash :: string
  row_record_json :: string
  row_chain_hash :: string
  row_pending :: bool

type_synonym audit_log = "row list"

text \<open>
  The order of \<open>ORDER BY ts, event_id\<close>: NULL before every text, texts by their bytes, which is
  the order of their code points.
\<close>

datatype row_key = RowKey (rk_ts: int) (rk_id: "string option")

instantiation row_key :: linorder
begin

definition less_eq_row_key :: "row_key \<Rightarrow> row_key \<Rightarrow> bool" where
  "less_eq_row_key a b \<longleftrightarrow> rk_ts a < rk_ts b \<or> (rk_ts a = rk_ts b \<and> rk_id a \<le> rk_id b)"

definition less_row_key :: "row_key \<Rightarrow> row_key \<Rightarrow> bool" where
  "less_row_key a b \<longleftrightarrow> rk_ts a < rk_ts b \<or> (rk_ts a = rk_ts b \<and> rk_id a < rk_id b)"

instance
proof
  fix a b :: row_key
  show "a \<le> b \<or> b \<le> a"
    by (auto simp: less_eq_row_key_def)
  assume "a \<le> b" and "b \<le> a"
  then show "a = b"
    by (intro row_key.expand) (auto simp: less_eq_row_key_def)
qed (auto simp: less_eq_row_key_def less_row_key_def)

end

definition row_key_of :: "row \<Rightarrow> row_key" where
  "row_key_of r = RowKey (row_ts r) (row_event_id r)"

section \<open>Reading the log\<close>

definition latest_hash :: "audit_log \<Rightarrow> string" where
  "latest_hash log =
     (case rev (sort_key row_key_of log) of [] \<Rightarrow> GENESIS_HASH | r # _ \<Rightarrow> row_chain_hash r)"

definition has_jti :: "audit_log \<Rightarrow> json \<Rightarrow> bool res" where
  "has_jti log jti =
     bind_res (bind_text jti) (\<lambda>t. Inr (t \<noteq> None \<and> (\<exists>r \<in> set log. row_token_jti r = t)))"

text \<open>The first row a \<open>WHERE event_id = ?\<close> finds.\<close>

definition row_by_id :: "audit_log \<Rightarrow> json \<Rightarrow> row option res" where
  "row_by_id log event_id =
     bind_res (bind_text event_id) (\<lambda>t. Inr (if t = None then None else find (\<lambda>r. row_event_id r = t) log))"

definition get_event :: "audit_log \<Rightarrow> json \<Rightarrow> json option res" where
  "get_event log event_id =
     bind_res (row_by_id log event_id) (\<lambda>row.
       case row of None \<Rightarrow> Inr None
       | Some r \<Rightarrow> bind_res (loads (row_record_json r)) (\<lambda>v. Inr (Some v)))"

definition all_events :: "audit_log \<Rightarrow> json list res" where
  "all_events log = map_res (\<lambda>r. loads (row_record_json r)) (sort_key row_key_of log)"

definition pending_peer_count :: "audit_log \<Rightarrow> nat" where
  "pending_peer_count log = length (filter row_pending log)"

section \<open>Writing the log\<close>

text \<open>The \<open>INSERT\<close> statement, with the hashes the caller computed before.\<close>

definition store_row :: "audit_log \<Rightarrow> audit_event \<Rightarrow> json \<Rightarrow> bool \<Rightarrow> string \<Rightarrow> string \<Rightarrow> audit_log res" where
  "store_row log ev record pending prev chain =
     bind_res (bind_text (ev_event_id ev)) (\<lambda>eid.
     bind_res (bind_int (ev_ts ev)) (\<lambda>ts.
     bind_res (bind_text (ev_type ev)) (\<lambda>ty.
     bind_res (bind_text (ev_token_jti ev)) (\<lambda>jti.
       case ty of
         None \<Rightarrow> raise IntegrityError ''NOT NULL constraint failed: events.type''
       | Some t \<Rightarrow>
           if eid \<noteq> None \<and> eid \<in> row_event_id ` set log
           then raise IntegrityError ''UNIQUE constraint failed: events.event_id''
           else Inr (log @ [\<lparr>row_event_id = eid, row_ts = ts, row_type = t, row_token_jti = jti,
                  row_prev_hash = prev, row_record_json = dumps True record,
                  row_chain_hash = chain, row_pending = pending\<rparr>])))))"

definition insert_event :: "audit_log \<Rightarrow> audit_event \<Rightarrow> json \<Rightarrow> bool \<Rightarrow> audit_log res" where
  "insert_event log ev record pending =
     (let prev = latest_hash log in
      bind_res (chain_hash prev record) (\<lambda>chain. store_row log ev record pending prev chain))"

definition audit_record :: "json \<Rightarrow> json list \<Rightarrow> json" where
  "audit_record content sigs = JDict [(''content'', content), (''signatures'', JList sigs)]"

definition append_self ::
  "crypto \<Rightarrow> audit_log \<Rightarrow> audit_event \<Rightarrow> keypair \<Rightarrow> string \<Rightarrow> (json \<times> audit_log) res"
where
  "append_self C log ev kp signer_id =
     (let content = event_content ev;
          sig = sign_envelope C content kp signer_id;
          record = audit_record content [sig]
      in bind_res (insert_event log ev record False) (\<lambda>log'. Inr (record, log')))"

definition sign_only :: "crypto \<Rightarrow> audit_event \<Rightarrow> keypair \<Rightarrow> string \<Rightarrow> json" where
  "sign_only C ev kp signer_id = sign_envelope C (event_content ev) kp signer_id"

definition append_pending :: "audit_log \<Rightarrow> audit_event \<Rightarrow> json \<Rightarrow> (json \<times> audit_log) res" where
  "append_pending log ev my_signature =
     (let record = audit_record (event_content ev) [my_signature]
      in bind_res (insert_event log ev record True) (\<lambda>log'. Inr (record, log')))"

text \<open>\<open>except Exception as e: raise CrossSignFailed(f"...: {e}") from e\<close>\<close>

definition cross_sign_failed :: "string \<Rightarrow> exn \<Rightarrow> exn" where
  "cross_sign_failed what e = Exn CrossSignFailed (what @ '' invalid: '' @ str_exn e)"

definition append_finalized ::
  "crypto \<Rightarrow> audit_log \<Rightarrow> audit_event \<Rightarrow> json \<Rightarrow> json \<Rightarrow> bytes \<Rightarrow> (json \<times> audit_log) res"
where
  "append_finalized C log ev my_signature peer_signature peer_pk =
     (let content = event_content ev in
      bind_res (rewrap (cross_sign_failed ''peer signature'')
          (verify_envelope C content peer_signature peer_pk)) (\<lambda>_.
        let record = audit_record content [my_signature, peer_signature]
        in bind_res (insert_event log ev record False) (\<lambda>log'. Inr (record, log'))))"

text \<open>A member of a set display or an operand of \<open>in\<close> on a set must be hashable.\<close>

definition hashed :: "json \<Rightarrow> json res" where
  "hashed v = (if hashable v then Inr v else raise TypeError ''unhashable type'')"

text \<open>The signatures after \<open>finalize_pending\<close> added the peer's, unless that signer is present.\<close>

definition add_signature :: "json \<Rightarrow> json \<Rightarrow> json res" where
  "add_signature record sig =
     bind_res (py_index record ''signatures'') (\<lambda>sigs.
     bind_res (bind_res (py_iter sigs)
         (map_res (\<lambda>s. bind_res (py_index s ''signed_by'') hashed))) (\<lambda>existing_signers.
     bind_res (bind_res (py_index sig ''signed_by'') hashed) (\<lambda>signer.
       if \<exists>x \<in> set existing_signers. py_eq x signer then Inr record
       else
         (case (record, sigs) of
            (JDict kvs, JList xs) \<Rightarrow> Inr (JDict (dict_put ''signatures'' (JList (xs @ [sig])) kvs))
          | _ \<Rightarrow> raise AttributeError ''object has no attribute 'append' ''))))"

definition update_row :: "audit_log \<Rightarrow> string option \<Rightarrow> string \<Rightarrow> audit_log" where
  "update_row log eid text =
     map (\<lambda>r. if eid \<noteq> None \<and> row_event_id r = eid
       then r\<lparr>row_record_json := text, row_pending := False\<rparr> else r) log"

text \<open>What \<open>finalize_pending\<close> makes of the row it has read: the record with the peer's signature.\<close>

definition countersign :: "crypto \<Rightarrow> json \<Rightarrow> row \<Rightarrow> json \<Rightarrow> bytes \<Rightarrow> json res" where
  "countersign C event_id r peer_signature peer_pk =
     (if \<not> row_pending r
      then raise AuditError (''event '' @ py_repr event_id @ '' is not pending peer signature'')
      else
        bind_res (loads (row_record_json r)) (\<lambda>record.
        bind_res (rewrap (cross_sign_failed ''peer signature'')
            (bind_res (py_index record ''content'') (\<lambda>content.
               verify_envelope C content peer_signature peer_pk))) (\<lambda>_.
          add_signature record peer_signature)))"

definition finalize_pending ::
  "crypto \<Rightarrow> audit_log \<Rightarrow> json \<Rightarrow> json \<Rightarrow> bytes \<Rightarrow> (json \<times> audit_log) res"
where
  "finalize_pending C log event_id peer_signature peer_pk =
     bind_res (row_by_id log event_id) (\<lambda>row.
       case row of
         None \<Rightarrow> raise AuditError (''event '' @ py_repr event_id @ '' not found'')
       | Some r \<Rightarrow>
           bind_res (countersign C event_id r peer_signature peer_pk) (\<lambda>record'.
             Inr (record', update_row log (row_event_id r) (dumps True record'))))"

section \<open>Inspection by a third party\<close>

definition verify_record_signatures :: "crypto \<Rightarrow> json \<Rightarrow> (string \<Rightarrow> bytes option) \<Rightarrow> unit res" where
  "verify_record_signatures C record keys =
     bind_res (py_index record ''content'') (\<lambda>content.
     bind_res (bind_res (py_get_or record ''signatures'' (JList [])) py_iter)
       (each_res (\<lambda>sig.
          bind_res (py_get sig ''signed_by'') (\<lambda>signer.
          bind_res (hashed signer) (\<lambda>_.
            case (case signer of JStr s \<Rightarrow> keys s | _ \<Rightarrow> None) of
              None \<Rightarrow> raise CrossSignFailed (''no public key provided for signer '' @ py_repr signer)
            | Some pk \<Rightarrow>
                rewrap (cross_sign_failed (''signature by '' @ py_repr signer))
                  (verify_envelope C content sig pk))))))"

end
