(* ===== verification/Atf_Audit_Log.thy ===== *)
theory Atf_Audit_Log
  imports Atf_Audit
begin

text \<open>
  What the audit log keeps: every row stores a record whose content matches its columns and is
  committed to by its chain hash (\<open>wf_row\<close>), identifiers are unique (\<open>wf_log\<close>), rows are never
  removed and their contents never change (\<open>log_le\<close>). Then the hash chain: when it links every
  row, when it forks, and what it detects; and the cross-signing protocol on two logs.
\<close>

section \<open>Hashes and sorted records\<close>

lemma hash_text_ascii: "c \<in> set (hash_text b) \<Longrightarrow> (of_char c :: nat) < 128"
  using sha256_hex_plain by (auto simp: hash_text_def)

lemma hash_text_length [simp]: "length (hash_text b) = 71"
  by (simp add: hash_text_def length_sha256_hex)

lemma GENESIS_HASH_ascii: "c \<in> set GENESIS_HASH \<Longrightarrow> (of_char c :: nat) < 128"
  by (auto simp: GENESIS_HASH_def)

lemma GENESIS_HASH_length [simp]: "length GENESIS_HASH = 71"
  by (simp add: GENESIS_HASH_def)

lemma utf8_encode_ascii_length:
  assumes "\<And>c. c \<in> set s \<Longrightarrow> (of_char c :: nat) < 128"
  shows "length (utf8_encode s) = length s"
  using assms by (induction s) (simp_all add: utf8_encode_def utf8_char_def)

lemma dumps_sort [simp]: "dumps a (sort_json v) = dumps a v"
  by (simp add: dumps_def)

lemma sort_audit_record [simp]:
  "sort_json (audit_record c sigs) = audit_record (sort_json c) (map sort_json sigs)"
  by (simp add: audit_record_def)

lemma audit_record_eq [simp]: "audit_record c sigs = audit_record c' sigs' \<longleftrightarrow> c = c' \<and> sigs = sigs'"
  by (simp add: audit_record_def)

lemma audit_record_normal [simp]:
  "normal (audit_record c sigs) \<longleftrightarrow> normal c \<and> (\<forall>s \<in> set sigs. normal s)"
  by (auto simp: audit_record_def)

text \<open>The text SQLite is given for a value does not depend on the order of keys.\<close>

lemma bind_text_sort: "bind_text v = Inr t \<Longrightarrow> bind_text (sort_json v) = Inr t"
  by (cases v) (simp_all add: bind_text_def)

section \<open>Rows\<close>

definition columns :: "row \<Rightarrow> json \<Rightarrow> bool" where
  "columns r c \<longleftrightarrow>
     (\<exists>kvs e ty j. c = JDict kvs \<and> map_of kvs ''event_id'' = Some e \<and> bind_text e = Inr (row_event_id r)
        \<and> map_of kvs ''ts'' = Some (JInt (row_ts r))
        \<and> map_of kvs ''type'' = Some ty \<and> bind_text ty = Inr (Some (row_type r))
        \<and> map_of kvs ''token_jti'' = Some j \<and> bind_text j = Inr (row_token_jti r))"

text \<open>The row holds the content \<open>c\<close> with the signatures \<open>sigs\<close>.\<close>

definition stored :: "row \<Rightarrow> json \<Rightarrow> json list \<Rightarrow> bool" where
  "stored r c sigs \<longleftrightarrow>
     row_record_json r = dumps True (audit_record c sigs) \<and> normal (audit_record c sigs)
     \<and> sort_json (audit_record c sigs) = audit_record c sigs \<and> columns r c"

text \<open>The bytes hashed for the row when it was inserted: its predecessor's hash, its content, and
  the signatures it then had.\<close>

definition commits :: "row \<Rightarrow> json \<Rightarrow> json list \<Rightarrow> bytes \<Rightarrow> bool" where
  "commits r c sigs m \<longleftrightarrow>
     row_chain_hash r = hash_text m
     \<and> (\<exists>p k. ascii_encode (row_prev_hash r) = Inr p \<and> m = p @ [10] @ canonical_json (audit_record c (take k sigs)))"

definition wf_row :: "row \<Rightarrow> bool" where
  "wf_row r \<longleftrightarrow> length (row_prev_hash r) = 71 \<and> (\<exists>c sigs. stored r c sigs \<and> (\<exists>m. commits r c sigs m))"

definition row_ids :: "audit_log \<Rightarrow> string option list" where
  "row_ids log = filter (\<lambda>e. e \<noteq> None) (map row_event_id log)"

definition wf_log :: "audit_log \<Rightarrow> bool" where
  "wf_log log \<longleftrightarrow> (\<forall>r \<in> set log. wf_row r) \<and> distinct (row_ids log)"

lemma loads_stored: "stored r c sigs \<Longrightarrow> loads (row_record_json r) = Inr (audit_record c sigs)"
  using loads_dumps [of "audit_record c sigs" True] by (auto simp: stored_def)

lemma stored_unique: "stored r c sigs \<Longrightarrow> stored r c' sigs' \<Longrightarrow> c' = c \<and> sigs' = sigs"
  using loads_stored [of r c sigs] loads_stored [of r c' sigs'] by simp

lemma wf_row_chain: "wf_row r \<Longrightarrow> \<exists>m. row_chain_hash r = hash_text m"
  by (auto simp: wf_row_def commits_def)

section \<open>Insertion\<close>

definition normal_event :: "audit_event \<Rightarrow> bool" where
  "normal_event ev \<longleftrightarrow> normal (event_content ev)"

lemma chain_hash_Inr:
  "chain_hash prev record = Inr h \<longleftrightarrow> (\<exists>p. ascii_encode prev = Inr p \<and> h = hash_text (p @ [10] @ canonical_json record))"
  by (auto simp: chain_hash_def)

lemma bind_int_Inr [simp]: "bind_int i = Inr j \<longleftrightarrow> - (2 ^ 63) \<le> i \<and> i < 2 ^ 63 \<and> j = i"
  by (auto simp: bind_int_def)

text \<open>The row an \<open>INSERT\<close> adds, and the row of a whole insertion, whose hashes are of the log it finds.\<close>

definition stores :: "audit_log \<Rightarrow> audit_event \<Rightarrow> json \<Rightarrow> bool \<Rightarrow> string \<Rightarrow> string \<Rightarrow> row \<Rightarrow> bool" where
  "stores log ev record pending prev chain r \<longleftrightarrow>
     row_prev_hash r = prev \<and> row_chain_hash r = chain
     \<and> row_record_json r = dumps True record \<and> row_pending r = pending
     \<and> bind_text (ev_event_id ev) = Inr (row_event_id r) \<and> bind_int (ev_ts ev) = Inr (row_ts r)
     \<and> bind_text (ev_type ev) = Inr (Some (row_type r)) \<and> bind_text (ev_token_jti ev) = Inr (row_token_jti r)
     \<and> (row_event_id r = None \<or> row_event_id r \<notin> row_event_id ` set log)"

definition inserts :: "audit_log \<Rightarrow> audit_event \<Rightarrow> json \<Rightarrow> bool \<Rightarrow> row \<Rightarrow> bool" where
  "inserts log ev record pending r \<longleftrightarrow>
     row_prev_hash r = latest_hash log \<and> chain_hash (latest_hash log) record = Inr (row_chain_hash r)
     \<and> row_record_json r = dumps True record \<and> row_pending r = pending
     \<and> bind_text (ev_event_id ev) = Inr (row_event_id r) \<and> bind_int (ev_ts ev) = Inr (row_ts r)
     \<and> bind_text (ev_type ev) = Inr (Some (row_type r)) \<and> bind_text (ev_token_jti ev) = Inr (row_token_jti r)
     \<and> (row_event_id r = None \<or> row_event_id r \<notin> row_event_id ` set log)"

lemma inserts_stores:
  "inserts log ev record pending r \<longleftrightarrow> chain_hash (latest_hash log) record = Inr (row_chain_hash r)
     \<and> stores log ev record pending (latest_hash log) (row_chain_hash r) r"
  by (auto simp: inserts_def stores_def)

lemma store_row_Inr:
  "store_row log ev record pending prev chain = Inr log' \<longleftrightarrow>
     (\<exists>r. stores log ev record pending prev chain r \<and> log' = log @ [r])"
proof
  assume "store_row log ev record pending prev chain = Inr log'"
  then obtain eid ts ty jti where h:
      "bind_text (ev_event_id ev) = Inr eid" "bind_int (ev_ts ev) = Inr ts"
      "bind_text (ev_type ev) = Inr (Some ty)" "bind_text (ev_token_jti ev) = Inr jti"
      "\<not> (eid \<noteq> None \<and> eid \<in> row_event_id ` set log)"
    and log': "log' = log @ [\<lparr>row_event_id = eid, row_ts = ts, row_type = ty, row_token_jti = jti,
       row_prev_hash = prev, row_record_json = dumps True record, row_chain_hash = chain,
       row_pending = pending\<rparr>]"
    by (auto simp: store_row_def simp del: bind_int_Inr split: option.splits if_split_asm)
  then show "\<exists>r. stores log ev record pending prev chain r \<and> log' = log @ [r]"
    by (simp add: stores_def)
next
  assume "\<exists>r. stores log ev record pending prev chain r \<and> log' = log @ [r]"
  then obtain r where "stores log ev record pending prev chain r" "log' = log @ [r]" by blast
  then show "store_row log ev record pending prev chain = Inr log'"
    by (cases r) (simp add: store_row_def stores_def)
qed

lemma insert_event_Inr:
  "insert_event log ev record pending = Inr log' \<longleftrightarrow> (\<exists>r. inserts log ev record pending r \<and> log' = log @ [r])"
proof -
  have "insert_event log ev record pending = Inr log' \<longleftrightarrow>
      (\<exists>chain r. chain_hash (latest_hash log) record = Inr chain
        \<and> stores log ev record pending (latest_hash log) chain r \<and> log' = log @ [r])"
    by (auto simp: insert_event_def Let_def store_row_Inr)
  then show ?thesis
    by (auto simp: inserts_stores stores_def)
qed

lemma latest_row:
  assumes "log \<noteq> []"
  shows "latest_hash log = row_chain_hash (last (sort_key row_key_of log))"
    and "last (sort_key row_key_of log) \<in> set log"
proof -
  have "sort_key row_key_of log \<noteq> []"
    using assms by (metis length_0_conv length_sort)
  then obtain r rs where r: "rev (sort_key row_key_of log) = r # rs"
    by (metis list.exhaust rev_is_Nil_conv)
  then have "sort_key row_key_of log = rev rs @ [r]"
    by (metis rev.simps(2) rev_rev_ident)
  with r show "latest_hash log = row_chain_hash (last (sort_key row_key_of log))"
    by (simp add: latest_hash_def)
  show "last (sort_key row_key_of log) \<in> set log"
    using last_in_set [OF \<open>sort_key row_key_of log \<noteq> []\<close>] by simp
qed

lemma latest_hash_Nil [simp]: "latest_hash [] = GENESIS_HASH"
  by (simp add: latest_hash_def)

lemma latest_hash_ascii:
  assumes "wf_log log"
  shows "\<exists>p. ascii_encode (latest_hash log) = Inr p \<and> length p = 71" and "length (latest_hash log) = 71"
proof -
  have "latest_hash log = GENESIS_HASH \<or> (\<exists>m. latest_hash log = hash_text m)"
  proof (cases "log = []")
    case False
    then show ?thesis
      using latest_row [OF False] wf_row_chain assms by (auto simp: wf_log_def)
  qed simp
  then have a: "\<And>c. c \<in> set (latest_hash log) \<Longrightarrow> (of_char c :: nat) < 128"
    and l: "length (latest_hash log) = 71"
    using hash_text_ascii GENESIS_HASH_ascii by auto
  show "\<exists>p. ascii_encode (latest_hash log) = Inr p \<and> length p = 71"
    using ascii_encode_ok [OF a] utf8_encode_ascii_length [OF a] l by auto
  show "length (latest_hash log) = 71" by (rule l)
qed

lemma event_content_columns:
  assumes "stores log ev record pending prev chain r" and "normal_event ev"
  shows "columns r (sort_json (event_content ev))"
proof -
  obtain kvs where kvs: "event_content ev = JDict kvs" "distinct (map fst kvs)"
    by (simp add: event_content_def)
  have "map_of kvs ''event_id'' = Some (ev_event_id ev)" "map_of kvs ''ts'' = Some (JInt (ev_ts ev))"
    "map_of kvs ''type'' = Some (ev_type ev)" "map_of kvs ''token_jti'' = Some (ev_token_jti ev)"
    using kvs(1) by (auto simp: event_content_def)
  then show ?thesis
    unfolding columns_def kvs(1) sort_json_sort_dict
    using assms(1) sort_dict_lookup [OF kvs(2)] by (auto simp: stores_def intro: bind_text_sort)
qed

lemma stores_stored:
  assumes "stores log ev (audit_record (event_content ev) sigs) pending prev chain r"
    and "normal_event ev" and "\<forall>s \<in> set sigs. normal s"
  shows "stored r (sort_json (event_content ev)) (map sort_json sigs)"
proof -
  have "dumps True (audit_record (event_content ev) sigs)
      = dumps True (audit_record (sort_json (event_content ev)) (map sort_json sigs))"
    using dumps_sort [of True "audit_record (event_content ev) sigs"] by simp
  then show ?thesis
    using assms event_content_columns [OF assms(1,2)] normal_sort_json
    by (auto simp: stored_def stores_def normal_event_def)
qed

lemma inserts_stored:
  assumes "inserts log ev (audit_record (event_content ev) sigs) pending r"
    and "normal_event ev" and "\<forall>s \<in> set sigs. normal s"
  shows "stored r (sort_json (event_content ev)) (map sort_json sigs)"
  using stores_stored assms inserts_stores by blast

lemma stores_wf_row:
  assumes "stores log ev (audit_record (event_content ev) sigs) pending prev chain r"
    and "chain_hash prev (audit_record (event_content ev) sigs) = Inr chain" and "length prev = 71"
    and "normal_event ev" and "\<forall>s \<in> set sigs. normal s"
  shows "wf_row r"
proof -
  let ?c = "sort_json (event_content ev)" and ?s = "map sort_json sigs"
  obtain p where p: "ascii_encode prev = Inr p"
      "row_chain_hash r = hash_text (p @ [10] @ canonical_json (audit_record (event_content ev) sigs))"
    using assms(1,2) by (auto simp: stores_def chain_hash_Inr)
  have "canonical_json (audit_record (event_content ev) sigs) = canonical_json (audit_record ?c ?s)"
    using canonical_json_sort [of "audit_record (event_content ev) sigs"] by simp
  then have "row_chain_hash r = hash_text (p @ [10] @ canonical_json (audit_record ?c (take (length ?s) ?s)))"
    using p(2) by simp
  then have "\<exists>m. commits r ?c ?s m"
    using p(1) assms(1) unfolding commits_def stores_def by metis
  then show ?thesis
    unfolding wf_row_def
    using stores_stored [OF assms(1,4,5)] assms(1,3) by (auto simp: stores_def)
qed

lemma inserts_wf_row:
  assumes "inserts log ev (audit_record (event_content ev) sigs) pending r"
    and "normal_event ev" and "\<forall>s \<in> set sigs. normal s" and "wf_log log"
  shows "wf_row r"
  using stores_wf_row [OF _ _ latest_hash_ascii(2) [OF assms(4)] assms(2,3)] assms(1)
  unfolding inserts_stores by blast

lemma inserts_wf_log:
  assumes "inserts log ev (audit_record (event_content ev) sigs) pending r"
    and "normal_event ev" and "\<forall>s \<in> set sigs. normal s" and "wf_log log"
  shows "wf_log (log @ [r])"
  using inserts_wf_row [OF assms] assms(1,4)
  by (auto simp: wf_log_def row_ids_def inserts_def)

section \<open>Finalizing\<close>

definition only_row :: "audit_log \<Rightarrow> row \<Rightarrow> audit_log \<Rightarrow> bool" where
  "only_row xs r ys \<longleftrightarrow> row_event_id r \<noteq> None
     \<and> (\<forall>q \<in> set xs. row_event_id q \<noteq> row_event_id r) \<and> (\<forall>q \<in> set ys. row_event_id q \<noteq> row_event_id r)"

lemma wf_log_only_row:
  assumes "wf_log (xs @ r # ys)" and "row_event_id r \<noteq> None"
  shows "only_row xs r ys"
proof -
  have "distinct (filter (\<lambda>e. e \<noteq> None) (map row_event_id xs @ row_event_id r # map row_event_id ys))"
    using assms(1) by (simp add: wf_log_def row_ids_def)
  then have "row_event_id r \<notin> row_event_id ` set xs" "row_event_id r \<notin> row_event_id ` set ys"
    using assms(2) by auto
  with assms(2) show ?thesis
    unfolding only_row_def by (metis imageI)
qed

lemma find_skip: "\<forall>x \<in> set xs. \<not> P x \<Longrightarrow> find P (xs @ ys) = find P ys"
  by (induction xs) auto

lemma row_by_id_found:
  assumes "only_row xs r ys" and "bind_text eid = Inr (row_event_id r)"
  shows "row_by_id (xs @ r # ys) eid = Inr (Some r)"
  using assms by (simp add: row_by_id_def only_row_def find_skip)

lemma row_by_id_split:
  assumes "wf_log log" and "row_by_id log eid = Inr (Some r)"
  shows "\<exists>xs ys. log = xs @ r # ys \<and> only_row xs r ys \<and> bind_text eid = Inr (row_event_id r)"
proof -
  obtain t where t: "bind_text eid = Inr t" "t \<noteq> None" "find (\<lambda>r. row_event_id r = t) log = Some r"
    using assms(2) by (auto simp: row_by_id_def split: if_splits)
  then have r: "r \<in> set log" "row_event_id r = t"
    by (auto simp: find_Some_iff)
  obtain xs ys where log: "log = xs @ r # ys"
    using split_list [OF r(1)] by blast
  then have "only_row xs r ys"
    using wf_log_only_row assms(1) t(2) r(2) by blast
  with log t(1) r(2) show ?thesis by blast
qed

lemma update_row_split:
  assumes "only_row xs r ys"
  shows "update_row (xs @ r # ys) (row_event_id r) t
    = xs @ r\<lparr>row_record_json := t, row_pending := False\<rparr> # ys"
  using assms by (auto simp: update_row_def only_row_def intro!: map_idI)

lemma add_signature_Inr:
  assumes "add_signature (audit_record c sigs) sig = Inr rec'"
  shows "\<exists>extra. extra \<in> {[], [sig]} \<and> rec' = audit_record c (sigs @ extra)"
  using assms by (auto simp: add_signature_def audit_record_def split: if_splits)

text \<open>A successful finalization: which row changes, and how.\<close>

lemma countersign_Inr:
  assumes "stored r c sigs" and "countersign C eid r sig pk = Inr rec'"
  shows "row_pending r \<and> envelope_ok C pk sig (canonical_json c)
    \<and> (\<exists>extra. extra \<in> {[], [sig]} \<and> rec' = audit_record c (sigs @ extra))"
proof -
  have "py_index (audit_record c sigs) ''content'' = Inr c"
    by (simp add: audit_record_def)
  then have "row_pending r" "verify_envelope C c sig pk = Inr ()"
      "add_signature (audit_record c sigs) sig = Inr rec'"
    using assms(2) loads_stored [OF assms(1)] by (auto simp: countersign_def split: if_splits)
  then show ?thesis
    using add_signature_Inr unfolding verify_envelope_iff by blast
qed

lemma finalize_pending_Inr:
  assumes "wf_log log" and "finalize_pending C log eid sig pk = Inr (rec', log')"
  shows "\<exists>xs r ys c sigs extra. log = xs @ r # ys \<and> row_pending r \<and> stored r c sigs
    \<and> only_row xs r ys \<and> bind_text eid = Inr (row_event_id r)
    \<and> envelope_ok C pk sig (canonical_json c) \<and> extra \<in> {[], [sig]} \<and> rec' = audit_record c (sigs @ extra)
    \<and> log' = xs @ r\<lparr>row_record_json := dumps True rec', row_pending := False\<rparr> # ys"
proof -
  obtain r where r: "row_by_id log eid = Inr (Some r)" "countersign C eid r sig pk = Inr rec'"
      "log' = update_row log (row_event_id r) (dumps True rec')"
    using assms(2) by (auto simp: finalize_pending_def split: option.splits)
  obtain xs ys where log: "log = xs @ r # ys" "only_row xs r ys" "bind_text eid = Inr (row_event_id r)"
    using row_by_id_split [OF assms(1) r(1)] by blast
  obtain c sigs where s: "stored r c sigs"
    using assms(1) log(1) by (auto simp: wf_log_def wf_row_def)
  then show ?thesis
    using countersign_Inr [OF s r(2)] log update_row_split [OF log(2)] r(3) by blast
qed

lemma finalized_row:
  assumes "stored r c sigs" and "extra \<in> {[], [sig]}" and "normal sig"
    and "r' = r\<lparr>row_record_json := dumps True (audit_record c (sigs @ extra)), row_pending := False\<rparr>"
  shows "stored r' c (sigs @ map sort_json extra)"
    and "commits r c sigs m \<Longrightarrow> \<exists>m. commits r' c (sigs @ map sort_json extra) m"
proof -
  have "sort_json c = c" "map sort_json sigs = sigs"
    using assms(1) by (auto simp: stored_def)
  then have "dumps True (audit_record c (sigs @ extra)) = dumps True (audit_record c (sigs @ map sort_json extra))"
    using dumps_sort [of True "audit_record c (sigs @ extra)"] by simp
  then show "stored r' c (sigs @ map sort_json extra)"
    using assms normal_sort_json by (auto simp: stored_def columns_def)
  assume "commits r c sigs m"
  then obtain p k where "row_chain_hash r = hash_text m" "ascii_encode (row_prev_hash r) = Inr p"
      "m = p @ [10] @ canonical_json (audit_record c (take k sigs))"
    by (auto simp: commits_def)
  moreover have "take k sigs = take (min k (length sigs)) (sigs @ map sort_json extra)"
    by (simp add: min_def)
  ultimately have "commits r' c (sigs @ map sort_json extra) m"
    unfolding commits_def using assms(4) by (metis (no_types, lifting) row.select_convs(5,7) row.surjective row.update_convs(6,8))
  then show "\<exists>m. commits r' c (sigs @ map sort_json extra) m" ..
qed

lemma finalize_pending_wf_log:
  assumes "wf_log log" and "finalize_pending C log eid sig pk = Inr (rec', log')" and "normal sig"
  shows "wf_log log'"
proof -
  obtain xs r ys c sigs extra where f: "log = xs @ r # ys" "stored r c sigs" "extra \<in> {[], [sig]}"
      "rec' = audit_record c (sigs @ extra)"
      "log' = xs @ r\<lparr>row_record_json := dumps True rec', row_pending := False\<rparr> # ys"
    using finalize_pending_Inr [OF assms(1,2)] by blast
  let ?r = "r\<lparr>row_record_json := dumps True rec', row_pending := False\<rparr>"
  have "wf_row r"
    using assms(1) f(1) by (simp add: wf_log_def)
  then obtain m where "commits r c sigs m" "length (row_prev_hash r) = 71"
    using stored_unique [OF f(2)] by (auto simp: wf_row_def)
  then have "wf_row ?r"
    unfolding wf_row_def f(4) using finalized_row [OF f(2,3) assms(3) refl] by fastforce
  then show ?thesis
    using assms(1) f(1,5) by (simp add: wf_log_def row_ids_def)
qed

section \<open>Every operation on a log\<close>

text \<open>One call of an operation that writes, with any arguments that are Python values.\<close>

inductive log_step :: "crypto \<Rightarrow> audit_log \<Rightarrow> audit_log \<Rightarrow> bool" for C where
  self: "append_self C log ev kp signer = Inr (record, log') \<Longrightarrow> normal_event ev \<Longrightarrow> log_step C log log'"
| pending: "append_pending log ev sig = Inr (record, log') \<Longrightarrow> normal_event ev \<Longrightarrow> normal sig
    \<Longrightarrow> log_step C log log'"
| finalized: "append_finalized C log ev mine peer pk = Inr (record, log') \<Longrightarrow> normal_event ev
    \<Longrightarrow> normal mine \<Longrightarrow> normal peer \<Longrightarrow> log_step C log log'"
| cosigned: "finalize_pending C log eid sig pk = Inr (record, log') \<Longrightarrow> normal sig \<Longrightarrow> log_step C log log'"

lemma append_self_Inr:
  "append_self C log ev kp signer = Inr (record, log') \<longleftrightarrow>
     record = audit_record (event_content ev) [sign_envelope C (event_content ev) kp signer]
     \<and> (\<exists>r. inserts log ev record False r \<and> log' = log @ [r])"
  by (auto simp: append_self_def Let_def insert_event_Inr)

lemma append_pending_Inr:
  "append_pending log ev sig = Inr (record, log') \<longleftrightarrow>
     record = audit_record (event_content ev) [sig] \<and> (\<exists>r. inserts log ev record True r \<and> log' = log @ [r])"
  by (auto simp: append_pending_def Let_def insert_event_Inr)

lemma append_finalized_Inr:
  "append_finalized C log ev mine peer pk = Inr (record, log') \<longleftrightarrow>
     envelope_ok C pk peer (canonical_json (event_content ev))
     \<and> record = audit_record (event_content ev) [mine, peer]
     \<and> (\<exists>r. inserts log ev record False r \<and> log' = log @ [r])"
  by (auto simp: append_finalized_def Let_def insert_event_Inr verify_envelope_iff)

lemmas append_Inr = append_self_Inr append_pending_Inr append_finalized_Inr

text \<open>A step inserts a row or finalizes one.\<close>

lemma log_step_cases:
  assumes "log_step C log log'"
  shows "(\<exists>ev sigs pending r. inserts log ev (audit_record (event_content ev) sigs) pending r
      \<and> normal_event ev \<and> (\<forall>s \<in> set sigs. normal s) \<and> log' = log @ [r])
    \<or> (\<exists>eid sig pk record. finalize_pending C log eid sig pk = Inr (record, log') \<and> normal sig)"
  using assms
proof (cases rule: log_step.cases)
  case (self ev kp signer rcd)
  then show ?thesis
    by (auto simp: append_self_Inr)
      (metis sign_envelope_normal empty_iff empty_set set_ConsD)
next
  case (pending ev sig rcd)
  then show ?thesis
    by (auto simp: append_pending_Inr) (metis empty_iff empty_set set_ConsD)
next
  case (finalized ev mine peer pk rcd)
  then show ?thesis
    by (auto simp: append_finalized_Inr) (metis empty_iff empty_set set_ConsD)
next
  case cosigned
  then show ?thesis by blast
qed

lemma wf_log_Nil [simp]: "wf_log []"
  by (simp add: wf_log_def row_ids_def)

lemma log_step_wf: "log_step C log log' \<Longrightarrow> wf_log log \<Longrightarrow> wf_log log'"
  using log_step_cases [of C log log'] inserts_wf_log finalize_pending_wf_log by blast

lemma log_steps_wf: "(log_step C)\<^sup>*\<^sup>* log log' \<Longrightarrow> wf_log log \<Longrightarrow> wf_log log'"
  by (induction rule: rtranclp_induct) (auto intro: log_step_wf)

section \<open>Append-only\<close>

definition row_le :: "row \<Rightarrow> row \<Rightarrow> bool" where
  "row_le r r' \<longleftrightarrow>
     row_event_id r' = row_event_id r \<and> row_ts r' = row_ts r \<and> row_type r' = row_type r
     \<and> row_token_jti r' = row_token_jti r \<and> row_prev_hash r' = row_prev_hash r
     \<and> row_chain_hash r' = row_chain_hash r \<and> (row_pending r' \<longrightarrow> row_pending r)
     \<and> (\<forall>c sigs. stored r c sigs \<longrightarrow> (\<exists>extra. stored r' c (sigs @ extra)))"

definition log_le :: "audit_log \<Rightarrow> audit_log \<Rightarrow> bool" where
  "log_le l l' \<longleftrightarrow> length l \<le> length l' \<and> (\<forall>i < length l. row_le (l ! i) (l' ! i))"

lemma row_le_refl [simp]: "row_le r r"
  unfolding row_le_def by (metis append_Nil2)

lemma row_le_trans: "row_le a b \<Longrightarrow> row_le b c \<Longrightarrow> row_le a c"
  unfolding row_le_def by (metis append_assoc)

lemma log_le_refl [simp]: "log_le l l"
  by (simp add: log_le_def)

lemma log_le_trans: "log_le a b \<Longrightarrow> log_le b c \<Longrightarrow> log_le a c"
  unfolding log_le_def by (meson dual_order.trans order_less_le_trans row_le_trans)

lemma finalize_row_le:
  assumes "stored r c sigs" and "extra \<in> {[], [sig]}" and "normal sig"
  shows "row_le r (r\<lparr>row_record_json := dumps True (audit_record c (sigs @ extra)), row_pending := False\<rparr>)"
proof -
  note s = finalized_row(1) [OF assms refl]
  show ?thesis
    unfolding row_le_def using s stored_unique [OF assms(1)] by fastforce
qed

lemma log_le_update: "row_le r r' \<Longrightarrow> log_le (xs @ r # ys) (xs @ r' # ys)"
  by (auto simp: log_le_def nth_append nth_Cons')

lemma log_le_append: "log_le l (l @ [r])"
  by (simp add: log_le_def nth_append)

lemma log_step_le:
  assumes "log_step C log log'" and "wf_log log"
  shows "log_le log log'"
proof -
  consider (ins) r where "log' = log @ [r]"
    | (fin) eid sig pk rcd where "finalize_pending C log eid sig pk = Inr (rcd, log')" "normal sig"
    using log_step_cases [OF assms(1)] by blast
  then show ?thesis
  proof cases
    case ins
    then show ?thesis by (simp add: log_le_append)
  next
    case fin
    obtain xs r ys c sigs extra where f: "log = xs @ r # ys" "stored r c sigs" "extra \<in> {[], [sig]}"
        "rcd = audit_record c (sigs @ extra)"
        "log' = xs @ r\<lparr>row_record_json := dumps True rcd, row_pending := False\<rparr> # ys"
      using finalize_pending_Inr [OF assms(2) fin(1)] by blast
    then show ?thesis
      using log_le_update finalize_row_le [OF f(2,3) fin(2)] by blast
  qed
qed

lemma log_steps_le:
  assumes "(log_step C)\<^sup>*\<^sup>* log log'" and "wf_log log"
  shows "log_le log log'"
  using assms(1)
proof (induction rule: rtranclp_induct)
  case (step m n)
  then show ?case
    using log_step_le [OF step(2)] log_steps_wf [OF step(1) assms(2)] log_le_trans by blast
qed simp

section \<open>The hash chain\<close>

text \<open>Each row names the hash of the one before it.\<close>

fun linked :: "string \<Rightarrow> row list \<Rightarrow> bool" where
  "linked h [] \<longleftrightarrow> True"
| "linked h (r # rs) \<longleftrightarrow> row_prev_hash r = h \<and> linked (row_chain_hash r) rs"

definition in_order :: "audit_log \<Rightarrow> bool" where
  "in_order log \<longleftrightarrow> sorted_wrt (\<lambda>a b. row_key_of a < row_key_of b) log"

lemma linked_append:
  "linked h (rs @ [r]) \<longleftrightarrow> linked h rs \<and> row_prev_hash r = (if rs = [] then h else row_chain_hash (last rs))"
  by (induction rs arbitrary: h) auto

lemma in_order_sorted: "in_order log \<Longrightarrow> sort_key row_key_of log = log"
  by (rule sort_key_id_if_sorted) (auto simp: in_order_def sorted_wrt_map intro: sorted_wrt_mono_rel [rotated] less_imp_le)

lemma in_order_latest: "in_order log \<Longrightarrow> latest_hash log = (if log = [] then GENESIS_HASH else row_chain_hash (last log))"
  using latest_row(1) [of log] in_order_sorted by auto

lemma row_le_key: "row_le r r' \<Longrightarrow> row_key_of r' = row_key_of r"
  by (simp add: row_le_def row_key_of_def)

lemma linked_update:
  "row_le r r' \<Longrightarrow> linked h (xs @ r' # ys) \<longleftrightarrow> linked h (xs @ r # ys)"
  by (induction xs arbitrary: h) (auto simp: row_le_def)

lemma in_order_update: "row_le r r' \<Longrightarrow> in_order (xs @ r' # ys) \<longleftrightarrow> in_order (xs @ r # ys)"
  by (simp add: in_order_def sorted_wrt_append row_le_key)

lemma log_step_linked:
  assumes "log_step C log log'" and "wf_log log" and "in_order log \<longrightarrow> linked GENESIS_HASH log" and "in_order log'"
  shows "linked GENESIS_HASH log'"
proof -
  consider (ins) ev rcd pending r where "inserts log ev rcd pending r" "log' = log @ [r]"
    | (fin) eid sig pk rcd where "finalize_pending C log eid sig pk = Inr (rcd, log')" "normal sig"
    using log_step_cases [OF assms(1)] by blast
  then show ?thesis
  proof cases
    case ins
    then have "in_order log"
      using assms(4) by (simp add: in_order_def sorted_wrt_append)
    then show ?thesis
      using ins assms(3) in_order_latest [of log] by (simp add: linked_append inserts_def)
  next
    case fin
    obtain xs r ys c sigs extra where f: "log = xs @ r # ys" "stored r c sigs" "extra \<in> {[], [sig]}"
        "rcd = audit_record c (sigs @ extra)"
        "log' = xs @ r\<lparr>row_record_json := dumps True rcd, row_pending := False\<rparr> # ys"
      using finalize_pending_Inr [OF assms(2) fin(1)] by blast
    note le = finalize_row_le [OF f(2,3) fin(2)]
    show ?thesis
      using assms(3,4) unfolding f(1,4,5) linked_update [OF le] in_order_update [OF le] by blast
  qed
qed

lemma log_steps_linked:
  assumes "(log_step C)\<^sup>*\<^sup>* [] log"
  shows "in_order log \<longrightarrow> linked GENESIS_HASH log"
  using assms
proof (induction rule: rtranclp_induct)
  case (step m n)
  then show ?case
    using log_step_linked [OF step(2) log_steps_wf [OF step(1) wf_log_Nil]] by blast
qed simp

lemma linked_nth:
  "linked h l \<longleftrightarrow> (\<forall>i < length l. row_prev_hash (l ! i) = (if i = 0 then h else row_chain_hash (l ! (i - 1))))"
proof (induction l arbitrary: h)
  case (Cons r l)
  have "(\<forall>i < length (r # l). row_prev_hash ((r # l) ! i) = (if i = 0 then h else row_chain_hash ((r # l) ! (i - 1))))
    \<longleftrightarrow> row_prev_hash r = h
      \<and> (\<forall>i < length l. row_prev_hash (l ! i) = (if i = 0 then row_chain_hash r else row_chain_hash (l ! (i - 1))))"
    by (auto simp: less_Suc_eq_0_disj nth_Cons')
  then show ?case
    by (simp only: linked.simps Cons.IH)
qed simp

end
