(* ===== verification/Atf_Fuel.thy ===== *)
theory Atf_Fuel
  imports Atf_Loads
begin

text \<open>
  The scanner's fuel: every part of it consumes input, so twice the length of the text plus one
  is enough, and any larger amount gives the same answer. What it returns is normal.
\<close>

section \<open>Scanning consumes input\<close>

lemma skip_ws_length: "length (skip_ws s) \<le> length s"
  by (simp add: skip_ws_def length_dropWhile_le)

lemma skip_ws_Cons_length: "skip_ws s = c # cs \<Longrightarrow> length cs < length s"
  using skip_ws_length [of s] by simp

lemma scan_string_length: "scan_string s = Some (x, r) \<Longrightarrow> length r < length s"
proof (induction s arbitrary: x r rule: scan_string.induct)
  case 1
  then show ?case by simp
next
  case (2 c cs)
  show ?case
  proof (cases "c = CHR 0x5C")
    case True
    then obtain e es where cs: "cs = e # es"
      using "2.prems" by (cases cs) auto
    have "length r < length cs"
    proof (cases "e = CHR ''u''")
      case u: True
      then obtain n x' where "hex4 (take 4 es) = Some n" "n < 256" "scan_string (drop 4 es) = Some (x', r)"
        using "2.prems" True cs by (auto split: option.splits if_splits)
      then have "length r < length (drop 4 es)"
        using "2.IH"(1) True cs u by simp
      then show ?thesis by (simp add: cs)
    next
      case False
      then obtain y x' where "unescape e = Some y" "scan_string es = Some (x', r)"
        using "2.prems" True cs by (auto split: option.splits)
      then have "length r < length es"
        using "2.IH"(2) True cs False by simp
      then show ?thesis by (simp add: cs)
    qed
    then show ?thesis by simp
  next
    case False
    show ?thesis
    proof (cases "c = CHR 0x22")
      case True
      with "2.prems" show ?thesis by simp
    next
      case q: False
      then obtain x' where "\<not> (of_char c :: nat) < 32" "scan_string cs = Some (x', r)"
        using "2.prems" False by (auto split: if_splits)
      then have "length r < length cs"
        using "2.IH"(3) False q by simp
      then show ?thesis by simp
    qed
  qed
qed

lemma scan_frac_length: "scan_frac s = (fp, r) \<Longrightarrow> length r \<le> length s"
  by (auto simp: scan_frac_def le_SucI length_dropWhile_le split: list.splits if_splits)

lemma scan_exp_length: "scan_exp s = (ex, r) \<Longrightarrow> length r \<le> length s"
  by (auto simp: scan_exp_def Let_def le_SucI length_dropWhile_le split: list.splits if_splits prod.splits)

lemma scan_int_length:
  assumes "s \<noteq> []" and "is_digit (hd s)" and "scan_int s = (ip, r)"
  shows "length r < length s"
  using assms by (cases s) (auto simp: scan_int_def less_Suc_eq_le length_dropWhile_le split: if_splits)

lemma scan_unsigned_length:
  assumes "scan_unsigned neg s = Some (v, r)"
  shows "length r < length s"
proof -
  obtain ip r0 fp r1 ex where p: "scan_int s = (ip, r0)" "scan_frac r0 = (fp, r1)" "scan_exp r1 = (ex, r)"
    "s \<noteq> []" "is_digit (hd s)"
    using assms by (auto simp: scan_unsigned_def Let_def split: list.splits if_splits prod.splits)
  then show ?thesis
    using scan_int_length [OF p(4,5,1)] scan_frac_length [OF p(2)] scan_exp_length [OF p(3)] by simp
qed

lemma scan_number_length: "scan_number s = Some (v, r) \<Longrightarrow> length r < length s"
  by (auto simp: scan_number_def less_SucI split: list.splits if_splits dest!: scan_unsigned_length)

lemma scan_length:
  "scan_once f s = Some (v, r) \<Longrightarrow> length r < length s"
  "scan_elems f s = Some (xs, r) \<Longrightarrow> length r < length s"
  "scan_members f acc s = Some (kvs, r) \<Longrightarrow> length r < length s"
proof (induction f s and f s and f acc s arbitrary: v r and xs r and kvs r
    rule: scan_once_scan_elems_scan_members.induct)
  case (2 f s)
  obtain c cs where s: "s = c # cs"
    using "2.prems" by (cases s) auto
  consider (str) "c = CHR 0x22" | (obj) "c = CHR ''{''" | (arr) "c = CHR ''[''"
    | (other) "c \<noteq> CHR 0x22" "c \<noteq> CHR ''{''" "c \<noteq> CHR ''[''"
    by blast
  then show ?case
  proof cases
    case str
    then show ?thesis
      using "2.prems" s by (auto dest!: scan_string_length)
  next
    case obj
    then obtain d ds where d: "skip_ws cs = d # ds"
      using "2.prems" s by (cases "skip_ws cs") auto
    note skip = skip_ws_Cons_length [OF d]
    show ?thesis
    proof (cases "d = CHR ''}''")
      case True
      then show ?thesis using "2.prems" s obj d skip by auto
    next
      case False
      then obtain kvs where "scan_members f [] (d # ds) = Some (kvs, r)"
        using "2.prems" s obj d by auto
      then have "length r < length (d # ds)"
        using "2.IH"(1) s obj d False by simp
      then show ?thesis using s skip by simp
    qed
  next
    case arr
    then obtain d ds where d: "skip_ws cs = d # ds"
      using "2.prems" s by (cases "skip_ws cs") auto
    note skip = skip_ws_Cons_length [OF d]
    show ?thesis
    proof (cases "d = CHR '']''")
      case True
      then show ?thesis using "2.prems" s arr d skip by auto
    next
      case False
      then obtain xs where "scan_elems f (d # ds) = Some (xs, r)"
        using "2.prems" s arr d by auto
      then have "length r < length (d # ds)"
        using "2.IH"(2) s arr d False by simp
      then show ?thesis using s skip by simp
    qed
  next
    case other
    then have "r = drop 4 s \<or> r = drop 5 s \<or> scan_number s = Some (v, r)"
      using "2.prems" s by (simp split: if_split_asm)
    then show ?thesis
      using s scan_number_length [of s v r] by auto
  qed
next
  case (4 f s)
  obtain x r1 c cs where e: "scan_once f s = Some (x, r1)" "skip_ws r1 = c # cs"
    and c: "c = CHR '']'' \<and> r = cs \<or> c \<noteq> CHR '']'' \<and> c = CHR '','' \<and>
      (\<exists>ys. scan_elems f (skip_ws cs) = Some (ys, r))"
    using "4.prems" by (auto split: option.splits list.splits if_splits)
  have l: "length r1 < length s" "length cs < length r1"
    using "4.IH"(1) e skip_ws_Cons_length by auto
  show ?case
  proof (cases "c = CHR '']''")
    case True
    with c l show ?thesis by auto
  next
    case False
    then obtain ys where "scan_elems f (skip_ws cs) = Some (ys, r)"
      using c by auto
    then have "length r < length (skip_ws cs)"
      using "4.IH"(2) [OF e(1) refl e(2) False] c False by blast
    with l skip_ws_length [of cs] show ?thesis by simp
  qed
next
  case (6 f acc s)
  obtain ks k r1 c cs v r2 d ds where e: "s = CHR 0x22 # ks" "scan_string ks = Some (k, r1)"
      "skip_ws r1 = c # cs" "c = CHR '':''" "scan_once f (skip_ws cs) = Some (v, r2)"
      "skip_ws r2 = d # ds"
    and d: "d = CHR ''}'' \<and> r = ds \<or> d \<noteq> CHR ''}'' \<and> d = CHR '','' \<and>
      (\<exists>kvs. scan_members f (dict_put k v acc) (skip_ws ds) = Some (kvs, r))"
    using "6.prems" by (auto split: option.splits list.splits if_splits)
  have l: "length r1 < length ks" "length cs < length r1" "length ds < length r2"
    using scan_string_length [OF e(2)] skip_ws_Cons_length e by auto
  have "length r2 < length (skip_ws cs)"
    using "6.IH"(1) [OF e(1) refl e(2) refl e(3,4,5)] by blast
  then have l2: "length ds < length s"
    using l skip_ws_length [of cs] e(1) by simp
  show ?case
  proof (cases "d = CHR ''}''")
    case True
    with d l2 show ?thesis by auto
  next
    case False
    then obtain kvs' where "scan_members f (dict_put k v acc) (skip_ws ds) = Some (kvs', r)"
      using d by auto
    then have "length r < length (skip_ws ds)"
      using "6.IH"(2) [OF e(1) refl e(2) refl e(3,4,5) refl e(6) False] d False by blast
    with l2 skip_ws_length [of ds] show ?thesis by simp
  qed
qed auto

section \<open>More fuel changes nothing\<close>

lemma elems_cong:
  assumes "scan_once g s = scan_once f s"
    and "\<And>x r c cs. scan_once f s = Some (x, r) \<Longrightarrow> skip_ws r = c # cs \<Longrightarrow>
      scan_elems g (skip_ws cs) = scan_elems f (skip_ws cs)"
  shows "scan_elems (Suc g) s = scan_elems (Suc f) s"
proof (cases "scan_once f s")
  case None
  then show ?thesis by (simp add: assms(1))
next
  case (Some a)
  obtain x r where a: "a = (x, r)" by (cases a)
  show ?thesis
  proof (cases "skip_ws r")
    case Nil
    then show ?thesis by (simp add: assms(1) Some a)
  next
    case (Cons c cs)
    note rest = assms(2) [OF Some [unfolded a] Cons]
    show ?thesis
      unfolding scan_elems.simps(2) assms(1) Some a option.case prod.case Cons list.case rest ..
  qed
qed

lemma members_cong:
  assumes "\<And>q ks k r c cs. s = q # ks \<Longrightarrow> scan_string ks = Some (k, r) \<Longrightarrow> skip_ws r = c # cs \<Longrightarrow>
      scan_once g (skip_ws cs) = scan_once f (skip_ws cs)"
    and "\<And>q ks k r c cs v r1 d ds a. s = q # ks \<Longrightarrow> scan_string ks = Some (k, r) \<Longrightarrow>
      skip_ws r = c # cs \<Longrightarrow> scan_once f (skip_ws cs) = Some (v, r1) \<Longrightarrow> skip_ws r1 = d # ds \<Longrightarrow>
      scan_members g a (skip_ws ds) = scan_members f a (skip_ws ds)"
  shows "scan_members (Suc g) acc s = scan_members (Suc f) acc s"
proof (cases s)
  case Nil
  then show ?thesis by simp
next
  case s: (Cons q ks)
  show ?thesis
  proof (cases "scan_string ks")
    case None
    then show ?thesis by (simp add: s)
  next
    case (Some a)
    obtain k r where a: "scan_string ks = Some (k, r)" using Some by (cases a) simp
    show ?thesis
    proof (cases "skip_ws r")
      case Nil
      then show ?thesis by (simp add: s a)
    next
      case c: (Cons c cs)
      note once = assms(1) [OF s a c]
      show ?thesis
      proof (cases "scan_once f (skip_ws cs)")
        case None
        then show ?thesis by (simp add: s a c once)
      next
        case (Some b)
        obtain v r1 where b: "scan_once f (skip_ws cs) = Some (v, r1)" using Some by (cases b) simp
        show ?thesis
        proof (cases "skip_ws r1")
          case Nil
          then show ?thesis by (simp add: s a c once b)
        next
          case d: (Cons d ds)
          show ?thesis
            unfolding scan_members.simps(2) s list.case a option.case prod.case c once b d
              assms(2) [OF s a c b d] ..
        qed
      qed
    qed
  qed
qed

lemma scan_fuel_step:
  "2 * length s + 1 \<le> f \<Longrightarrow> scan_once (Suc f) s = scan_once f s"
  "2 * length s + 2 \<le> f \<Longrightarrow> scan_elems (Suc f) s = scan_elems f s"
  "2 * length s + 2 \<le> f \<Longrightarrow> scan_members (Suc f) acc s = scan_members f acc s"
proof (induction f arbitrary: s acc)
  case 0
  {
    case 1
    then show ?case by simp
  next
    case 2
    then show ?case by simp
  next
    case 3
    then show ?case by simp
  }
next
  case (Suc f)
  {
    case 1
    show ?case
    proof (cases s)
      case Nil
      then show ?thesis by simp
    next
      case (Cons c cs)
      have inner: "scan_elems (Suc f) t = scan_elems f t" "scan_members (Suc f) [] t = scan_members f [] t"
        if "t = skip_ws cs" for t
        using Suc.IH(2,3) [of t] skip_ws_length [of cs] 1 Cons that by simp_all
      show ?thesis
      proof (cases "skip_ws cs")
        case Nil
        then show ?thesis by (simp add: Cons)
      next
        case skip: (Cons d ds)
        show ?thesis
          using inner [OF skip [symmetric]] unfolding Cons scan_once.simps(2)
          by (simp add: skip del: scan_once.simps scan_elems.simps scan_members.simps)
      qed
    qed
  next
    case 2
    have once: "scan_once (Suc f) s = scan_once f s"
      using 2 by (intro Suc.IH(1)) simp
    have rest: "scan_elems (Suc f) (skip_ws cs) = scan_elems f (skip_ws cs)"
      if "scan_once f s = Some (x, r)" "skip_ws r = c # cs" for x r c cs
    proof -
      have "length cs < length s"
        using scan_length(1) [OF that(1)] skip_ws_Cons_length [OF that(2)] by simp
      then show ?thesis
        using 2 skip_ws_length [of cs] by (intro Suc.IH(2)) simp
    qed
    show ?case
      using elems_cong [of "Suc f" s f] once rest by simp
  next
    case 3
    have once: "scan_once (Suc f) (skip_ws cs) = scan_once f (skip_ws cs)"
      if "s = q # ks" "scan_string ks = Some (k, r)" "skip_ws r = c # cs" for q ks k r c cs
      using 3 that scan_string_length [OF that(2)] skip_ws_Cons_length [OF that(3)]
        skip_ws_length [of cs] by (intro Suc.IH(1)) simp
    have rest: "scan_members (Suc f) a (skip_ws ds) = scan_members f a (skip_ws ds)"
      if "s = q # ks" "scan_string ks = Some (k, r)" "skip_ws r = c # cs"
        "scan_once f (skip_ws cs) = Some (v, r1)" "skip_ws r1 = d # ds" for q ks k r c cs v r1 d ds a
      using 3 that scan_string_length [OF that(2)] skip_ws_Cons_length [OF that(3)]
        skip_ws_length [of cs] scan_length(1) [OF that(4)] skip_ws_Cons_length [OF that(5)]
        skip_ws_length [of ds] by (intro Suc.IH(3)) simp
    show ?case
      by (rule members_cong) (use once rest in auto)
  }
qed

lemma scan_fuel_enough:
  assumes "2 * length s + 1 \<le> f"
  shows "scan_once f s = scan_once (2 * length s + 1) s"
  using assms
proof (induction f rule: dec_induct)
  case (step n)
  then show ?case using scan_fuel_step(1) [of s n] by simp
qed simp

text \<open>The decoder with any amount of fuel: from twice the length on it is \<open>loads\<close>.\<close>

definition loads_with :: "nat \<Rightarrow> string \<Rightarrow> json res" where
  "loads_with f s =
     (case scan_once f (skip_ws s) of
        None \<Rightarrow> raise ValueError ''Expecting value''
      | Some (v, r) \<Rightarrow>
          if skip_ws r = [] then Inr v else raise ValueError ''Extra data'')"

lemma loads_with_enough:
  assumes "2 * length s + 1 \<le> f"
  shows "loads_with f s = loads s"
proof -
  have "scan_once f (skip_ws s) = scan_once (2 * length (skip_ws s) + 1) (skip_ws s)"
    using assms skip_ws_length [of s] by (intro scan_fuel_enough) simp
  then show ?thesis
    by (simp only: loads_with_def loads_def Let_def)
qed

section \<open>What the decoder returns is normal\<close>

lemma float_norm_normal: "normal (float_norm s m e)"
proof (induction s m e rule: float_norm.induct)
  case (1 s m e)
  then show ?case
    by (subst float_norm.simps) auto
qed

lemma scan_number_normal: "scan_number s = Some (v, r) \<Longrightarrow> normal v"
  by (auto simp: scan_number_def scan_unsigned_def Let_def float_norm_normal
      split: list.splits if_splits prod.splits)

definition normal_dict :: "dict \<Rightarrow> bool" where
  "normal_dict d \<longleftrightarrow> distinct (map fst d) \<and> (\<forall>p \<in> set d. normal (snd p))"

lemma normal_dict_put: "normal_dict d \<Longrightarrow> normal v \<Longrightarrow> normal_dict (dict_put k v d)"
  using dict_put_distinct dict_put_values [of _ k v d] by (fastforce simp: normal_dict_def)

lemma normal_dict_Nil [simp]: "normal_dict []"
  by (simp add: normal_dict_def)

lemma normal_JDict: "normal (JDict d) \<longleftrightarrow> normal_dict d"
  by (simp add: normal_dict_def)

lemma scan_normal:
  "scan_once f s = Some (v, r) \<Longrightarrow> normal v"
  "scan_elems f s = Some (xs, r) \<Longrightarrow> normal (JList xs)"
  "scan_members f acc s = Some (kvs, r) \<Longrightarrow> normal_dict acc \<Longrightarrow> normal_dict kvs"
proof (induction f s and f s and f acc s arbitrary: v r and xs r and kvs r
    rule: scan_once_scan_elems_scan_members.induct)
  case (2 f s)
  obtain c cs where s: "s = c # cs"
    using "2.prems" by (cases s) auto
  consider (str) "c = CHR 0x22" | (obj) "c = CHR ''{''" | (arr) "c = CHR ''[''"
    | (other) "c \<noteq> CHR 0x22" "c \<noteq> CHR ''{''" "c \<noteq> CHR ''[''"
    by blast
  then show ?case
  proof cases
    case str
    then show ?thesis using "2.prems" s by auto
  next
    case obj
    then obtain d ds where d: "skip_ws cs = d # ds"
      using "2.prems" s by (cases "skip_ws cs") auto
    have "scan_members f [] (d # ds) = Some (kvs, r') \<Longrightarrow> normal_dict kvs" if "d \<noteq> CHR ''}''" for kvs r'
      using "2.IH"(1) s obj d that by simp
    then show ?thesis
      using "2.prems" s obj d by (auto simp: normal_JDict simp del: normal.simps(3) split: if_splits)
  next
    case arr
    then obtain d ds where d: "skip_ws cs = d # ds"
      using "2.prems" s by (cases "skip_ws cs") auto
    have "scan_elems f (d # ds) = Some (xs, r') \<Longrightarrow> normal (JList xs)" if "d \<noteq> CHR '']''" for xs r'
      using "2.IH"(2) s arr d that by simp
    then show ?thesis
      using "2.prems" s arr d by (auto split: if_splits)
  next
    case other
    then have "v = JNull \<or> v = JBool True \<or> v = JBool False \<or> scan_number s = Some (v, r)"
      using "2.prems" s by (simp split: if_split_asm)
    then show ?thesis
      using scan_number_normal [of s v r] by auto
  qed
next
  case (4 f s)
  obtain x r1 c cs where e: "scan_once f s = Some (x, r1)" "skip_ws r1 = c # cs"
    and c: "c = CHR '']'' \<and> xs = [x] \<or> c \<noteq> CHR '']'' \<and> c = CHR '','' \<and>
      (\<exists>ys. scan_elems f (skip_ws cs) = Some (ys, r) \<and> xs = x # ys)"
    using "4.prems" by (auto split: option.splits list.splits if_splits)
  have "normal x"
    using "4.IH"(1) e by blast
  moreover have "normal (JList ys)" if "c \<noteq> CHR '']''" "c = CHR '',''"
    "scan_elems f (skip_ws cs) = Some (ys, r)" for ys
    using "4.IH"(2) [OF e(1) refl e(2)] that by blast
  ultimately show ?case
    using c by auto
next
  case (6 f acc s)
  obtain ks k r1 c cs v r2 d ds where e: "s = CHR 0x22 # ks" "scan_string ks = Some (k, r1)"
      "skip_ws r1 = c # cs" "c = CHR '':''" "scan_once f (skip_ws cs) = Some (v, r2)"
      "skip_ws r2 = d # ds"
    and d: "d = CHR ''}'' \<and> kvs = dict_put k v acc \<or> d \<noteq> CHR ''}'' \<and> d = CHR '','' \<and>
      scan_members f (dict_put k v acc) (skip_ws ds) = Some (kvs, r)"
    using "6.prems"(1) by (auto split: option.splits list.splits if_splits)
  have "normal v"
    using "6.IH"(1) [OF e(1) refl e(2) refl e(3,4,5)] by blast
  then have acc: "normal_dict (dict_put k v acc)"
    using "6.prems"(2) normal_dict_put by blast
  show ?case
  proof (cases "d = CHR ''}''")
    case True
    with d acc show ?thesis by auto
  next
    case False
    then show ?thesis
      using "6.IH"(2) [OF e(1) refl e(2) refl e(3,4,5) refl e(6) False] d acc by blast
  qed
qed auto

lemma loads_normal: "loads s = Inr v \<Longrightarrow> normal v"
  by (auto simp: loads_def Let_def dest: scan_normal(1) split: option.splits if_splits
      simp del: scan_once.simps)

lemma loads_bytes_normal: "loads_bytes b = Inr v \<Longrightarrow> normal v"
  by (auto simp: loads_bytes_def dest: loads_normal split: if_splits)

end
