(* ===== verification/Atf_Cross_Sign.thy ===== *)
theory Atf_Cross_Sign
  imports Atf_Audit_Log Atf_Fuel
begin

text \<open>
  The audit log as a store of events, its properties, and the cross-signing protocol of
  \<open>audit.py\<close> run on the two parties' logs. The interface \<open>event_store\<close> is what a client of the
  log relies on: what was added can be read, and nothing is ever overwritten.
\<close>

section \<open>A store of events\<close>

locale event_store =
  fixes inv :: "'s \<Rightarrow> bool"
    and add :: "'s \<Rightarrow> 'e \<Rightarrow> exn + 's"
    and fit :: "'e \<Rightarrow> bool"
    and key :: "'e \<Rightarrow> 'k option"
    and val :: "'e \<Rightarrow> 'v"
    and look :: "'s \<Rightarrow> 'k \<Rightarrow> 'v option"
  assumes add_inv: "inv s \<Longrightarrow> fit e \<Longrightarrow> add s e = Inr s' \<Longrightarrow> inv s'"
    and look_add: "inv s \<Longrightarrow> fit e \<Longrightarrow> add s e = Inr s' \<Longrightarrow>
      look s' k = (if key e = Some k then Some (val e) else look s k)"
    and add_fresh: "inv s \<Longrightarrow> fit e \<Longrightarrow> add s e = Inr s' \<Longrightarrow> key e = Some k \<Longrightarrow> look s k = None"
begin

lemma add_keeps: "inv s \<Longrightarrow> fit e \<Longrightarrow> add s e = Inr s' \<Longrightarrow> look s k = Some v \<Longrightarrow> look s' k = Some v"
  using look_add add_fresh by fastforce

lemma adds_keep:
  assumes "fold_res add s es = Inr s'" and "inv s" and "\<forall>e \<in> set es. fit e" and "look s k = Some v"
  shows "look s' k = Some v"
  using assms
proof (induction es arbitrary: s)
  case (Cons e es)
  then obtain t where "add s e = Inr t" "fold_res add t es = Inr s'"
    by auto
  then show ?case
    using Cons add_keeps [of s e t k v] add_inv [of s e t] by simp
qed simp

lemma adds_readable:
  assumes "fold_res add s es = Inr s'" and "inv s" and "\<forall>e \<in> set es. fit e"
    and "e \<in> set es" and "key e = Some k"
  shows "look s' k = Some (val e)"
  using assms
proof (induction es arbitrary: s)
  case (Cons x es)
  then obtain t where t: "add s x = Inr t" "fold_res add t es = Inr s'"
    by auto
  have "inv t"
    using add_inv [of s x t] t(1) Cons.prems by simp
  show ?case
  proof (cases "e = x")
    case True
    then have "look t k = Some (val e)"
      using look_add [of s x t k] t(1) Cons.prems by simp
    then show ?thesis
      using adds_keep [OF t(2) \<open>inv t\<close>] Cons.prems by simp
  next
    case False
    then show ?thesis
      using Cons.IH [OF t(2) \<open>inv t\<close>] Cons.prems by simp
  qed
qed simp

end

text \<open>An event to append, with the signatures of its record and whether it waits for the peer.\<close>

type_synonym submission = "audit_event \<times> json list \<times> bool"

definition submit :: "audit_log \<Rightarrow> submission \<Rightarrow> audit_log res" where
  "submit log s = (case s of (ev, sigs, pending) \<Rightarrow>
     insert_event log ev (audit_record (event_content ev) sigs) pending)"

definition submission_fit :: "submission \<Rightarrow> bool" where
  "submission_fit s = (case s of (ev, sigs, pending) \<Rightarrow> normal_event ev \<and> (\<forall>x \<in> set sigs. normal x))"

definition submission_key :: "submission \<Rightarrow> string option" where
  "submission_key s = (case bind_text (ev_event_id (fst s)) of Inr t \<Rightarrow> t | Inl e \<Rightarrow> None)"

definition submission_record :: "submission \<Rightarrow> json" where
  "submission_record s = (case s of (ev, sigs, pending) \<Rightarrow> sort_json (audit_record (event_content ev) sigs))"

definition read_event :: "audit_log \<Rightarrow> string \<Rightarrow> json option" where
  "read_event log k = (case get_event log (JStr k) of Inr v \<Rightarrow> v | Inl e \<Rightarrow> None)"

lemma bind_text_Str [simp]: "bind_text (JStr s) = Inr (Some s)" "bind_text JNull = Inr None"
  by (simp_all add: bind_text_def)

lemma row_by_id_Str: "row_by_id log (JStr k) = Inr (find (\<lambda>r. row_event_id r = Some k) log)"
  by (simp add: row_by_id_def)

lemma get_event_row:
  assumes "find (\<lambda>r. row_event_id r = Some k) log = Some r" and "stored r c sigs"
  shows "get_event log (JStr k) = Inr (Some (audit_record c sigs))"
  using assms loads_stored [OF assms(2)] by (simp add: get_event_def row_by_id_Str)

lemma get_event_none:
  "Some k \<notin> row_event_id ` set log \<Longrightarrow> get_event log (JStr k) = Inr None"
  by (auto simp: get_event_def row_by_id_Str find_None_iff split: option.splits)
    (metis find_None_iff2 image_eqI option.distinct(1))

lemma find_append: "find P (xs @ [r]) = (case find P xs of None \<Rightarrow> if P r then Some r else None | Some x \<Rightarrow> Some x)"
  by (induction xs) auto

lemma submit_Inr: "submit log (ev, sigs, pending) = Inr log' \<longleftrightarrow>
    (\<exists>r. inserts log ev (audit_record (event_content ev) sigs) pending r \<and> log' = log @ [r])"
  by (simp add: submit_def insert_event_Inr)

lemma get_event_insert:
  assumes "inserts log ev (audit_record (event_content ev) sigs) pending r"
    and "normal_event ev" and "\<forall>s \<in> set sigs. normal s"
  shows "get_event (log @ [r]) (JStr k) =
    (if row_event_id r = Some k then Inr (Some (sort_json (audit_record (event_content ev) sigs)))
     else get_event log (JStr k))"
proof (cases "row_event_id r = Some k")
  case True
  then have "Some k \<notin> row_event_id ` set log"
    using assms(1) by (auto simp: inserts_def)
  then have "find (\<lambda>r. row_event_id r = Some k) log = None"
    by (auto simp: find_None_iff image_iff)
  then show ?thesis
    using get_event_row [of k "log @ [r]" r] inserts_stored [OF assms] True
    by (simp add: find_append)
next
  case False
  then show ?thesis
    by (simp add: get_event_def row_by_id_Str find_append split: option.split)
qed

interpretation log_store: event_store wf_log submit submission_fit submission_key submission_record read_event
proof unfold_locales
  fix log s log'
  assume wf: "wf_log log" and fit: "submission_fit s" and add: "submit log s = Inr log'"
  obtain ev sigs pending where s: "s = (ev, sigs, pending)" by (cases s)
  have n: "normal_event ev" "\<forall>x \<in> set sigs. normal x"
    using fit by (simp_all add: submission_fit_def s)
  obtain r where r: "inserts log ev (audit_record (event_content ev) sigs) pending r" "log' = log @ [r]"
    using add by (auto simp: s submit_Inr)
  have key: "submission_key s = row_event_id r"
    using r(1) by (simp add: submission_key_def s inserts_def)
  show "wf_log log'"
    using inserts_wf_log [OF r(1) n wf] r(2) by simp
  show "read_event log' k = (if submission_key s = Some k then Some (submission_record s) else read_event log k)" for k
    using get_event_insert [OF r(1) n, of k] r(2)
    by (simp add: read_event_def key [unfolded s] submission_record_def s)
  show "read_event log k = None" if "submission_key s = Some k" for k
    using that get_event_none [of k log] r(1) by (auto simp: key [unfolded s] s inserts_def read_event_def)
qed

section \<open>When an append succeeds\<close>

definition insertable :: "audit_log \<Rightarrow> audit_event \<Rightarrow> bool" where
  "insertable log ev \<longleftrightarrow>
     (\<exists>t ty j. bind_text (ev_event_id ev) = Inr t \<and> bind_text (ev_type ev) = Inr (Some ty)
        \<and> bind_text (ev_token_jti ev) = Inr j \<and> - (2 ^ 63) \<le> ev_ts ev \<and> ev_ts ev < 2 ^ 63
        \<and> (t = None \<or> t \<notin> row_event_id ` set log))"

lemma chain_hash_ok: "wf_log log \<Longrightarrow> \<exists>h. chain_hash (latest_hash log) record = Inr h"
  using latest_hash_ascii(1) by (auto simp: chain_hash_def)

lemma insertable_inserts:
  assumes "wf_log log"
  shows "(\<exists>r. inserts log ev record pending r) \<longleftrightarrow> insertable log ev"
proof
  assume "insertable log ev"
  then obtain t ty j where i: "bind_text (ev_event_id ev) = Inr t" "bind_text (ev_type ev) = Inr (Some ty)"
      "bind_text (ev_token_jti ev) = Inr j" "- (2 ^ 63) \<le> ev_ts ev" "ev_ts ev < 2 ^ 63"
      "t = None \<or> t \<notin> row_event_id ` set log"
    by (auto simp: insertable_def)
  obtain h where "chain_hash (latest_hash log) record = Inr h"
    using chain_hash_ok [OF assms] by blast
  then have "inserts log ev record pending \<lparr>row_event_id = t, row_ts = ev_ts ev, row_type = ty, row_token_jti = j,
       row_prev_hash = latest_hash log, row_record_json = dumps True record, row_chain_hash = h,
       row_pending = pending\<rparr>"
    using i by (simp add: inserts_def)
  then show "\<exists>r. inserts log ev record pending r" ..
qed (auto simp: inserts_def insertable_def)

section \<open>Which row is the latest\<close>

lemma last_sort_key:
  fixes k :: "'a \<Rightarrow> 'b :: linorder"
  assumes "l \<noteq> []"
  shows "last (sort_key k l) = last (filter (\<lambda>x. k x = Max (k ` set l)) l)"
proof -
  let ?s = "sort_key k l" and ?m = "Max (k ` set l)"
  have ne: "?s \<noteq> []"
    using assms by (metis length_0_conv length_sort)
  have le: "k x \<le> k (last ?s)" if "x \<in> set l" for x
  proof -
    have "?s = butlast ?s @ [last ?s]"
      using ne by simp
    then have "sorted (map k (butlast ?s) @ [k (last ?s)])"
      by (metis list.simps(8,9) map_append sorted_sort_key)
    moreover have "x \<in> set (butlast ?s) \<or> x = last ?s"
      using that ne by (metis append_butlast_last_id in_set_conv_decomp_last set_ConsD set_append set_sort Un_iff empty_iff empty_set)
    ultimately show ?thesis
      by (auto simp: sorted_append)
  qed
  have "last ?s \<in> set l"
    using last_in_set [OF ne] by simp
  then have "k (last ?s) = ?m"
    using le by (intro Max_eqI [symmetric]) auto
  then have "last (filter (\<lambda>x. k x = ?m) ?s) = last ?s"
    using ne by (cases ?s rule: rev_cases) auto
  then show ?thesis
    by (simp add: sort_key_stable)
qed

lemma latest_hash_older:
  assumes "m \<in> set log" and "row_key_of r < row_key_of m"
  shows "latest_hash (log @ [r]) = latest_hash log"
proof -
  let ?k = row_key_of
  have ne: "log \<noteq> []"
    using assms(1) by auto
  have "?k m \<le> Max (?k ` set log)"
    using assms(1) by simp
  then have lt: "?k r < Max (?k ` set log)"
    using assms(2) by simp
  then have "Max (?k ` set (log @ [r])) = Max (?k ` set log)"
    using ne less_imp_le [OF lt] by (simp add: max_def)
  then have "last (sort_key ?k (log @ [r])) = last (sort_key ?k log)"
    using lt by (simp add: last_sort_key [OF ne] last_sort_key del: sort_key_simps)
  then show ?thesis
    using latest_row(1) [OF ne] latest_row(1) [of "log @ [r]"] by simp
qed

section \<open>What the chain commits to\<close>

text \<open>What a checker of the table recomputes: the row's text parses to a record, and the row's hash is
  the code's \<open>chain_hash\<close> of its predecessor's hash and of that record with the signatures it had
  when it was inserted, a first part of those it has.\<close>

definition recomputed :: "row \<Rightarrow> json \<Rightarrow> json list \<Rightarrow> bool" where
  "recomputed r c sigs \<longleftrightarrow> loads (row_record_json r) = Inr (audit_record c sigs)
     \<and> (\<exists>k. chain_hash (row_prev_hash r) (audit_record c (take k sigs)) = Inr (row_chain_hash r))"

text \<open>Two different byte strings that the hashes of the rows were taken of collide.\<close>

definition rows_collide :: "row \<Rightarrow> row \<Rightarrow> bool" where
  "rows_collide r r' \<longleftrightarrow>
     (\<exists>rec rec' p p'. chain_hash (row_prev_hash r) rec = Inr (row_chain_hash r)
        \<and> chain_hash (row_prev_hash r') rec' = Inr (row_chain_hash r')
        \<and> ascii_encode (row_prev_hash r) = Inr p \<and> ascii_encode (row_prev_hash r') = Inr p'
        \<and> sha256_collision (p @ [10] @ canonical_json rec) (p' @ [10] @ canonical_json rec'))"

lemma ascii_encode_length: "ascii_encode s = Inr p \<Longrightarrow> length p = length s"
  by (auto simp: ascii_encode_def utf8_encode_ascii_length split: if_splits)

lemma wf_row_recomputed:
  assumes "wf_row r" and "stored r c sigs"
  shows "recomputed r c sigs"
proof -
  obtain c' sigs' m where s: "stored r c' sigs'" "commits r c' sigs' m"
    using assms(1) by (auto simp: wf_row_def)
  then have "commits r c sigs m"
    using stored_unique [OF assms(2)] by blast
  then show ?thesis
    using loads_stored [OF assms(2)] unfolding commits_def recomputed_def chain_hash_Inr by blast
qed

lemma wf_row_holds: "wf_row r \<Longrightarrow> \<exists>c sigs. stored r c sigs \<and> recomputed r c sigs"
  using wf_row_recomputed unfolding wf_row_def by blast

text \<open>Equal hashes: the same predecessor and the same content, or a collision.\<close>

lemma recomputed_same:
  assumes "recomputed r c sigs" and "recomputed r' c' sigs'" and "row_chain_hash r = row_chain_hash r'"
    and "length (row_prev_hash r) = length (row_prev_hash r')"
  shows "(row_prev_hash r = row_prev_hash r' \<and> sort_json c = sort_json c') \<or> rows_collide r r'"
proof -
  obtain k p where k: "chain_hash (row_prev_hash r) (audit_record c (take k sigs)) = Inr (row_chain_hash r)"
      "ascii_encode (row_prev_hash r) = Inr p" "row_chain_hash r = hash_text (p @ [10] @ canonical_json (audit_record c (take k sigs)))"
    using assms(1) by (auto simp: recomputed_def chain_hash_Inr)
  obtain k' p' where k': "chain_hash (row_prev_hash r') (audit_record c' (take k' sigs')) = Inr (row_chain_hash r')"
      "ascii_encode (row_prev_hash r') = Inr p'" "row_chain_hash r' = hash_text (p' @ [10] @ canonical_json (audit_record c' (take k' sigs')))"
    using assms(2) by (auto simp: recomputed_def chain_hash_Inr)
  let ?m = "p @ [10] @ canonical_json (audit_record c (take k sigs))"
  let ?m' = "p' @ [10] @ canonical_json (audit_record c' (take k' sigs'))"
  consider "?m = ?m'" | "sha256_collision ?m ?m'"
    using hash_text_eq [of ?m ?m'] assms(3) k(3) k'(3) by auto
  then show ?thesis
  proof cases
    case 1
    have "length p = length p'"
      using ascii_encode_length [OF k(2)] ascii_encode_length [OF k'(2)] assms(4) by simp
    then have e: "p = p'" "canonical_json (audit_record c (take k sigs)) = canonical_json (audit_record c' (take k' sigs'))"
      using 1 by simp_all
    have "loads (row_record_json r) = Inr (audit_record c sigs)" "loads (row_record_json r') = Inr (audit_record c' sigs')"
      using assms(1,2) by (simp_all add: recomputed_def)
    then have "normal (audit_record c sigs)" "normal (audit_record c' sigs')"
      by (simp_all only: loads_normal)
    then have "normal (audit_record c (take k sigs))" "normal (audit_record c' (take k' sigs'))"
      by (auto dest: in_set_takeD)
    then have "sort_json c = sort_json c'"
      using e(2) canonical_json_eq by simp
    moreover have "row_prev_hash r = row_prev_hash r'"
      using e(1) k(2) k'(2) ascii_encode_Inr utf8_encode_inj by blast
    ultimately show ?thesis by simp
  next
    case 2
    then show ?thesis
      using k(1,2) k'(1,2) unfolding rows_collide_def by blast
  qed
qed

lemma recomputed_hash_length: "recomputed r c sigs \<Longrightarrow> length (row_chain_hash r) = 71"
  by (auto simp: recomputed_def chain_hash_Inr)

text \<open>Every predecessor's hash in a linked list has the length of a hash.\<close>

lemma linked_last_length:
  assumes "linked h (l @ [r])" and "length h = 71" and "\<forall>r \<in> set l. \<exists>c sigs. recomputed r c sigs"
  shows "length (row_prev_hash r) = 71"
proof (cases "l = []")
  case False
  then have "last l \<in> set l"
    by simp
  then obtain c sigs where "recomputed (last l) c sigs"
    using assms(3) by blast
  then show ?thesis
    using False assms(1) recomputed_hash_length by (simp add: linked_append)
qed (use assms in simp)

lemma linked_tail:
  assumes "\<forall>r \<in> set l \<union> set l'. \<exists>c sigs. recomputed r c sigs" and "linked h l" and "linked h l'" and "length h = 71"
    and "length l = length l'" and "l \<noteq> []" and "row_chain_hash (last l) = row_chain_hash (last l')"
  shows "(\<forall>i < length l. \<forall>c sigs c' sigs'. recomputed (l ! i) c sigs \<and> recomputed (l' ! i) c' sigs' \<longrightarrow> sort_json c = sort_json c')
    \<or> (\<exists>i < length l. rows_collide (l ! i) (l' ! i))"
  using assms
proof (induction l arbitrary: l' rule: rev_induct)
  case (snoc r l)
  obtain k r' where l': "l' = k @ [r']" "length k = length l"
    using snoc.prems(5) by (cases l' rule: rev_cases) auto
  have at: "(l @ [r]) ! length l = r" "(k @ [r']) ! length l = r'"
    using l'(2) by (simp_all add: nth_append)
  have below: "(l @ [r]) ! i = l ! i" "(k @ [r']) ! i = k ! i" if "i < length l" for i
    using that l'(2) by (simp_all add: nth_append)
  have len: "length (row_prev_hash r) = length (row_prev_hash r')"
    using linked_last_length [OF snoc.prems(2,4)] linked_last_length [of h k r'] snoc.prems(1,3,4) l'(1) by auto
  have here: "rows_collide r r'
      \<or> (row_prev_hash r = row_prev_hash r' \<and> (\<forall>c sigs c' sigs'. recomputed r c sigs \<and> recomputed r' c' sigs' \<longrightarrow> sort_json c = sort_json c'))"
    using recomputed_same [OF _ _ _ len] snoc.prems(1,7) l'(1) by (auto; blast)
  show ?case
  proof (cases "rows_collide r r'")
    case True
    then show ?thesis
      using at l' by (intro disjI2 exI [of _ "length l"]) simp
  next
    case False
    then have same: "row_prev_hash r = row_prev_hash r'"
        "\<forall>c sigs c' sigs'. recomputed r c sigs \<and> recomputed r' c' sigs' \<longrightarrow> sort_json c = sort_json c'"
      using here by blast+
    show ?thesis
    proof (cases "l = []")
      case True
      then show ?thesis
        using same(2) l' by simp
    next
      case False
      then have "k \<noteq> []" using l'(2) by auto
      then have tail: "row_chain_hash (last l) = row_chain_hash (last k)"
        using snoc.prems(2,3) l'(1) same(1) False by (simp add: linked_append)
      have "\<forall>q \<in> set l \<union> set k. \<exists>c sigs. recomputed q c sigs" "linked h l" "linked h k"
        using snoc.prems(1-3) l'(1) by (simp_all add: linked_append)
      from snoc.IH [OF this snoc.prems(4) l'(2) [symmetric] False tail] show ?thesis
      proof
        assume A: "\<forall>i < length l. \<forall>c sigs c' sigs'. recomputed (l ! i) c sigs \<and> recomputed (k ! i) c' sigs'
          \<longrightarrow> sort_json c = sort_json c'"
        have "\<forall>c sigs c' sigs'. recomputed ((l @ [r]) ! i) c sigs \<and> recomputed ((k @ [r']) ! i) c' sigs'
            \<longrightarrow> sort_json c = sort_json c'" if "i < Suc (length l)" for i
        proof (cases "i = length l")
          case False
          then have "i < length l"
            using that by simp
          then show ?thesis
            unfolding below [OF \<open>i < length l\<close>] using A by blast
        qed (simp only: at, rule same(2))
        then show ?thesis
          by (simp add: l'(1))
      next
        assume "\<exists>i < length l. rows_collide (l ! i) (k ! i)"
        then show ?thesis
          using below by (auto simp: l'(1) intro: less_SucI)
      qed
    qed
  qed
qed simp

end
