(* ===== verification/Atf_Audit_Claims.thy ===== *)
theory Atf_Audit_Claims
  imports Atf_Cross_Sign
begin

text \<open>
  The properties of the audit log: its invariant, append-only storage, the hash chain with what
  it detects and where it forks, and the cross-signing protocol end to end.
\<close>

section \<open>Signatures of a record\<close>

lemma sign_envelope_sorted [simp]: "sort_json (sign_envelope C c kp s) = sign_envelope C c kp s"
  by (simp add: sign_envelope_def Let_def)

lemma sign_envelope_get [simp]: "py_get (sign_envelope C c kp s) ''signed_by'' = Inr (JStr s)"
  by (simp add: sign_envelope_def Let_def)

lemma hashed_Str [simp]: "hashed (JStr s) = Inr (JStr s)"
  by (simp add: hashed_def hashable_def)

definition signature_known :: "crypto \<Rightarrow> (string \<Rightarrow> bytes option) \<Rightarrow> json \<Rightarrow> json \<Rightarrow> bool" where
  "signature_known C keys c s \<longleftrightarrow>
     (\<exists>signer pk. py_get s ''signed_by'' = Inr (JStr signer) \<and> keys signer = Some pk
        \<and> envelope_ok C pk s (canonical_json c))"

lemma verify_record_iff:
  "verify_record_signatures C (audit_record c sigs) keys = Inr () \<longleftrightarrow> (\<forall>s \<in> set sigs. signature_known C keys c s)"
proof -
  have step: "bind_res (py_get s ''signed_by'') (\<lambda>signer.
          bind_res (hashed signer) (\<lambda>_.
            case (case signer of JStr s \<Rightarrow> keys s | _ \<Rightarrow> None) of
              None \<Rightarrow> raise CrossSignFailed (''no public key provided for signer '' @ py_repr signer)
            | Some pk \<Rightarrow>
                rewrap (cross_sign_failed (''signature by '' @ py_repr signer))
                  (verify_envelope C c s pk))) = Inr ()
      \<longleftrightarrow> signature_known C keys c s" for s
  proof (cases "py_get s ''signed_by''")
    case (Inl e)
    then show ?thesis by (simp add: signature_known_def)
  next
    case (Inr v)
    then show ?thesis
      by (cases v) (auto simp: signature_known_def hashed_def hashable_def verify_envelope_iff split: option.splits)
  qed
  have content: "py_index (audit_record c sigs) ''content'' = Inr c"
    by (simp add: audit_record_def)
  have sigs: "bind_res (py_get_or (audit_record c sigs) ''signatures'' (JList [])) py_iter = Inr sigs"
    by (simp add: audit_record_def)
  show ?thesis
    unfolding verify_record_signatures_def content sigs bind_res_Inr each_res_Inr step by simp
qed

lemma signature_known_sign:
  assumes "ed25519_correct C" and "wf_keypair C kp" and "keys signer = Some (kp_public kp)"
    and "canonical_json c = canonical_json c'"
  shows "signature_known C keys c (sign_envelope C c' kp signer)"
  unfolding signature_known_def
  using envelope_ok_sign [OF assms(1,2,4), of signer] assms(3) by auto

section \<open>Finalizing a row\<close>

lemma finalize_pending_ok:
  assumes "only_row xs r ys" and "bind_text eid = Inr (row_event_id r)" and "row_pending r" and "stored r c sigs"
    and "envelope_ok C pk sig (canonical_json c)" and "add_signature (audit_record c sigs) sig = Inr rec'"
  shows "finalize_pending C (xs @ r # ys) eid sig pk
    = Inr (rec', xs @ r\<lparr>row_record_json := dumps True rec', row_pending := False\<rparr> # ys)"
proof -
  have "bind_res (py_index (audit_record c sigs) ''content'') (\<lambda>content. verify_envelope C content sig pk) = Inr ()"
    using assms(5) by (simp add: audit_record_def verify_envelope_iff)
  then show ?thesis
    using row_by_id_found [OF assms(1,2)] assms(3,6) loads_stored [OF assms(4)] update_row_split [OF assms(1)]
    by (simp add: finalize_pending_def countersign_def)
qed

lemma add_signature_new:
  assumes "a \<noteq> b"
  shows "add_signature (audit_record c [sign_envelope C c' kb b]) (sign_envelope C c'' ka a)
    = Inr (audit_record c [sign_envelope C c' kb b, sign_envelope C c'' ka a])"
  using assms by (simp add: add_signature_def audit_record_def)

lemma inserts_only_row:
  assumes "inserts log ev record pending r" and "row_event_id r \<noteq> None"
  shows "only_row log r []"
  using assms by (auto simp: inserts_def only_row_def image_iff)

lemma only_row_find:
  "only_row xs r ys \<Longrightarrow> row_event_id r' = row_event_id r \<Longrightarrow> row_event_id r = Some k \<Longrightarrow>
    find (\<lambda>q. row_event_id q = Some k) (xs @ r' # ys) = Some r'"
  by (simp add: only_row_def find_skip)

lemma from_content_content: "from_content (event_content ev) = Inr ev"
  by (simp add: from_content_def event_content_def)

text \<open>Events for the witnesses.\<close>

definition toy_event :: "string \<Rightarrow> int \<Rightarrow> audit_event" where
  "toy_event eid ts =
     \<lparr>ev_type = JStr ''delegation.completed'', ev_token_jti = JStr ''tkn_1'', ev_delegator_id = JStr ''A'',
      ev_delegatee_id = JStr ''B'', ev_fields = [], ev_event_id = JStr eid, ev_ts = ts\<rparr>"

lemma toy_event_normal [simp]: "normal_event (toy_event eid ts)"
  by (simp add: toy_event_def normal_event_def event_content_def)

definition toy_record :: "string \<Rightarrow> int \<Rightarrow> json" where
  "toy_record eid ts = audit_record (event_content (toy_event eid ts)) [JNull]"

lemma toy_append:
  assumes "wf_log log" and "Some eid \<notin> row_event_id ` set log" and "0 \<le> ts" and "ts < 1000"
  shows "\<exists>r. append_pending log (toy_event eid ts) JNull = Inr (toy_record eid ts, log @ [r])
    \<and> inserts log (toy_event eid ts) (toy_record eid ts) True r \<and> row_event_id r = Some eid \<and> row_ts r = ts
    \<and> log_step C log (log @ [r]) \<and> wf_log (log @ [r])"
proof -
  have "insertable log (toy_event eid ts)"
    using assms(2-4) by (simp add: insertable_def toy_event_def)
  then obtain r where r: "inserts log (toy_event eid ts) (toy_record eid ts) True r"
    using insertable_inserts [OF assms(1)] by blast
  then have "row_event_id r = Some eid" "row_ts r = ts"
    by (simp_all add: inserts_def toy_event_def)
  moreover have a: "append_pending log (toy_event eid ts) JNull = Inr (toy_record eid ts, log @ [r])"
    using r by (auto simp: append_pending_Inr toy_record_def)
  moreover have "log_step C log (log @ [r])"
    by (rule log_step.pending [OF a]) simp_all
  ultimately show ?thesis
    using r log_step_wf assms(1) by blast
qed

definition toy_keypair_2 :: keypair where
  "toy_keypair_2 = generate toy_crypto ''1'' [8]"

lemma toy_keypair_2_wf: "wf_keypair toy_crypto toy_keypair_2"
  by (simp add: toy_keypair_2_def generate_wf)

text \<open>A one-row log whose event the other party cosigns.\<close>

lemma toy_pending_row:
  "\<exists>r rec. wf_log [r] \<and> row_event_id r = Some ''e'' \<and> loads (row_record_json r) = Inr rec
    \<and> chain_hash (row_prev_hash r) rec = Inr (row_chain_hash r)
    \<and> (\<forall>s. s \<noteq> ''B'' \<longrightarrow> (\<exists>rec' log'. rec' \<noteq> rec
         \<and> finalize_pending toy_crypto [r] (JStr ''e'') (sign_only toy_crypto (toy_event ''e'' 5) toy_keypair s)
             (kp_public toy_keypair) = Inr (rec', log')))"
proof -
  let ?ev = "toy_event ''e'' 5"
  let ?c = "sort_json (event_content ?ev)"
  let ?sb = "sign_only toy_crypto ?ev toy_keypair_2 ''B''" and ?sa = "sign_only toy_crypto ?ev toy_keypair"
  have n: "\<forall>s \<in> set [?sb]. normal s"
    by (simp add: sign_only_def)
  have "insertable [] ?ev"
    by (simp add: insertable_def toy_event_def)
  then obtain r where r: "inserts [] ?ev (audit_record (event_content ?ev) [?sb]) True r"
    using insertable_inserts [OF wf_log_Nil] by blast
  have st: "stored r ?c [?sb]"
    using inserts_stored [OF r toy_event_normal n] by (simp add: sign_only_def)
  have id: "row_event_id r = Some ''e''" "row_pending r"
    using r by (simp_all add: inserts_def toy_event_def)
  have only: "only_row [] r []"
    using inserts_only_row [OF r] id(1) by simp
  have ok: "envelope_ok toy_crypto (kp_public toy_keypair) (?sa s) (canonical_json ?c)" for s
    unfolding sign_only_def by (rule envelope_ok_sign [OF toy_crypto_ok(1) toy_keypair_wf]) simp
  have add: "add_signature (audit_record ?c [?sb]) (?sa s) = Inr (audit_record ?c [?sb, ?sa s])" if "s \<noteq> ''B''" for s
    unfolding sign_only_def by (rule add_signature_new) (use that in simp)
  have chain: "chain_hash (row_prev_hash r) (audit_record ?c [?sb]) = Inr (row_chain_hash r)"
    using r canonical_json_sort [of "audit_record (event_content ?ev) [?sb]"]
    by (simp add: inserts_def chain_hash_def sign_only_def)
  have fin: "\<exists>rec' log'. rec' \<noteq> audit_record ?c [?sb]
      \<and> finalize_pending toy_crypto [r] (JStr ''e'') (?sa s) (kp_public toy_keypair) = Inr (rec', log')"
    if "s \<noteq> ''B''" for s
    using finalize_pending_ok [OF only _ id(2) st ok add [OF that], of "JStr ''e''"] id(1) by auto
  show ?thesis
    using fin chain loads_stored [OF st] inserts_wf_log [OF r toy_event_normal n wf_log_Nil] id(1) by auto
qed

lemma toy_finalize:
  "\<exists>r rec rec' log'. wf_log [r] \<and> row_event_id r = Some ''e'' \<and> loads (row_record_json r) = Inr rec
    \<and> finalize_pending toy_crypto [r] (JStr ''e'') (sign_only toy_crypto (toy_event ''e'' 5) toy_keypair ''A'')
        (kp_public toy_keypair) = Inr (rec', log')
    \<and> rec' \<noteq> rec \<and> chain_hash (row_prev_hash r) rec = Inr (row_chain_hash r)"
proof -
  have ne: "''A'' \<noteq> ''B''"
    by simp
  obtain r rec where r: "wf_log [r]" "row_event_id r = Some ''e''" "loads (row_record_json r) = Inr rec"
      "chain_hash (row_prev_hash r) rec = Inr (row_chain_hash r)"
    and fin: "\<forall>s. s \<noteq> ''B'' \<longrightarrow> (\<exists>rec' log'. rec' \<noteq> rec
       \<and> finalize_pending toy_crypto [r] (JStr ''e'') (sign_only toy_crypto (toy_event ''e'' 5) toy_keypair s)
           (kp_public toy_keypair) = Inr (rec', log'))"
    using toy_pending_row by (elim exE conjE)
  from fin [rule_format, OF ne] obtain rec' log' where "rec' \<noteq> rec"
      "finalize_pending toy_crypto [r] (JStr ''e'') (sign_only toy_crypto (toy_event ''e'' 5) toy_keypair ''A'')
        (kp_public toy_keypair) = Inr (rec', log')"
    by (elim exE conjE)
  with r show ?thesis
    by (intro exI conjI)
qed

text \<open>The three appends of a cross-signed event, on the event itself.\<close>

lemma cross_sign:
  assumes "ed25519_correct C" and "wf_keypair C ka" and "wf_keypair C kb" and "a \<noteq> b"
    and "wf_log la" and "wf_log lb" and "normal_event ev" and "ev_event_id ev = JStr eid"
    and "insertable la ev" and "insertable lb ev" and "keys a = Some (kp_public ka)" and "keys b = Some (kp_public kb)"
  shows "\<exists>recb lb1 reca la1 recb' lb2 c.
      append_pending lb ev (sign_only C ev kb b) = Inr (recb, lb1)
    \<and> append_finalized C la ev (sign_only C ev ka a) (sign_only C ev kb b) (kp_public kb) = Inr (reca, la1)
    \<and> finalize_pending C lb1 (JStr eid) (sign_only C ev ka a) (kp_public ka) = Inr (recb', lb2)
    \<and> get_event la1 (JStr eid) = Inr (Some (audit_record c [sign_only C ev ka a, sign_only C ev kb b]))
    \<and> get_event lb2 (JStr eid) = Inr (Some (audit_record c [sign_only C ev kb b, sign_only C ev ka a]))
    \<and> canonical_json c = canonical_json (event_content ev)
    \<and> verify_record_signatures C (audit_record c [sign_only C ev ka a, sign_only C ev kb b]) keys = Inr ()
    \<and> verify_record_signatures C (audit_record c [sign_only C ev kb b, sign_only C ev ka a]) keys = Inr ()
    \<and> pending_peer_count lb2 = pending_peer_count lb"
proof -
  let ?raw = "event_content ev" and ?c = "sort_json (event_content ev)"
  let ?sa = "sign_only C ev ka a" and ?sb = "sign_only C ev kb b"
  have n: "\<forall>s \<in> set [?sb]. normal s" "\<forall>s \<in> set [?sa, ?sb]. normal s" "normal ?sa"
    by (simp_all add: sign_only_def)
  have sorted: "sort_json ?sa = ?sa" "sort_json ?sb = ?sb"
    by (simp_all add: sign_only_def)
  obtain rb where rb: "inserts lb ev (audit_record ?raw [?sb]) True rb"
    using insertable_inserts [OF assms(6)] assms(10) by blast
  obtain ra where ra: "inserts la ev (audit_record ?raw [?sa, ?sb]) False ra"
    using insertable_inserts [OF assms(5)] assms(9) by blast
  have id: "row_event_id rb = Some eid" "row_event_id ra = Some eid"
    using rb ra assms(8) by (simp_all add: inserts_def)
  have ok: "envelope_ok C (kp_public kb) ?sb (canonical_json ?raw)" "envelope_ok C (kp_public ka) ?sa (canonical_json ?c)"
    using envelope_ok_sign [OF assms(1,3) refl] envelope_ok_sign [OF assms(1,2)] by (simp_all add: sign_only_def)
  have 1: "append_pending lb ev ?sb = Inr (audit_record ?raw [?sb], lb @ [rb])"
    using rb by (auto simp: append_pending_Inr)
  have 2: "append_finalized C la ev ?sa ?sb (kp_public kb) = Inr (audit_record ?raw [?sa, ?sb], la @ [ra])"
    using ra ok(1) by (auto simp: append_finalized_Inr)
  have stb: "stored rb ?c [?sb]"
    using inserts_stored [OF rb assms(7) n(1)] by (simp add: sorted)
  have only: "only_row lb rb []"
    using inserts_only_row [OF rb] id by simp
  let ?recb = "audit_record ?c [?sb, ?sa]"
  let ?rb = "rb\<lparr>row_record_json := dumps True ?recb, row_pending := False\<rparr>"
  have add: "add_signature (audit_record ?c [?sb]) ?sa = Inr ?recb"
    using add_signature_new [OF assms(4)] by (simp add: sign_only_def)
  have pend: "row_pending rb"
    using rb by (simp add: inserts_def)
  have 3: "finalize_pending C (lb @ [rb]) (JStr eid) ?sa (kp_public ka) = Inr (?recb, lb @ [?rb])"
    using finalize_pending_ok [OF only _ pend stb ok(2) add, of "JStr eid"] id by simp
  have "stored ?rb ?c ([?sb] @ map sort_json [?sa])"
    by (rule finalized_row(1) [OF stb _ n(3)]) auto
  then have 5: "get_event (lb @ [?rb]) (JStr eid) = Inr (Some ?recb)"
    using get_event_row [OF only_row_find [OF only, of ?rb]] id sorted by simp
  have 4: "get_event (la @ [ra]) (JStr eid) = Inr (Some (audit_record ?c [?sa, ?sb]))"
    using get_event_insert [OF ra assms(7) n(2)] id sorted by simp
  have "signature_known C keys ?c ?sa" "signature_known C keys ?c ?sb"
    using signature_known_sign [where keys = keys and signer = a, OF assms(1,2,11), of ?c ?raw]
      signature_known_sign [where keys = keys and signer = b, OF assms(1,3,12), of ?c ?raw]
    by (simp_all add: sign_only_def)
  then have 6: "verify_record_signatures C (audit_record ?c [?sa, ?sb]) keys = Inr ()"
    "verify_record_signatures C ?recb keys = Inr ()"
    by (simp_all add: verify_record_iff)
  have 7: "pending_peer_count (lb @ [?rb]) = pending_peer_count lb"
    by (simp add: pending_peer_count_def)
  show ?thesis
    using 1 2 3 4 5 6 7 canonical_json_sort by blast
qed

text \<open>A finalized row cannot be finalized again, with whatever signature and key.\<close>

lemma finalize_pending_again:
  assumes "wf_log log" and "finalize_pending C log eid sig pk = Inr (rec', log')"
  shows "finalize_pending C log' eid sig' pk'
    = Inl (Exn AuditError (''event '' @ py_repr eid @ '' is not pending peer signature''))"
proof -
  obtain xs r ys where f: "only_row xs r ys" "bind_text eid = Inr (row_event_id r)"
      "log' = xs @ r\<lparr>row_record_json := dumps True rec', row_pending := False\<rparr> # ys"
    using finalize_pending_Inr [OF assms] by blast
  let ?r = "r\<lparr>row_record_json := dumps True rec', row_pending := False\<rparr>"
  have "only_row xs ?r ys" "bind_text eid = Inr (row_event_id ?r)"
    using f(1,2) by (simp_all add: only_row_def)
  then show ?thesis
    using row_by_id_found [of xs ?r ys eid] f(3) by (simp add: finalize_pending_def countersign_def raise_def)
qed

section \<open>Properties\<close>

text \<open>The invariant of the audit log: after any sequence of calls that write to an empty log,
  every row's stored text parses to a record whose content has the row's columns (event id, time
  stamp, type and token id, as SQLite stores them) and to which the row's chain hash commits, and
  no two rows share an event id.\<close>

theorem audit_log_invariant:
  assumes "(log_step C)\<^sup>*\<^sup>* [] log"
  shows "(\<forall>r \<in> set log. \<exists>c sigs m. loads (row_record_json r) = Inr (audit_record c sigs) \<and> columns r c
      \<and> commits r c sigs m)
    \<and> distinct (filter (\<lambda>e. e \<noteq> None) (map row_event_id log))"
  using log_steps_wf [OF assms] loads_stored
  by (auto simp: wf_log_def wf_row_def row_ids_def) (metis stored_def)

lemma audit_log_invariant_witness:
  "\<exists>r. append_pending [] (toy_event ''e'' 5) JNull = Inr (toy_record ''e'' 5, [r])
    \<and> (\<exists>c sigs m. loads (row_record_json r) = Inr (audit_record c sigs) \<and> columns r c \<and> commits r c sigs m)"
proof -
  obtain r where r: "append_pending [] (toy_event ''e'' 5) JNull = Inr (toy_record ''e'' 5, [r])"
      "log_step toy_crypto [] [r]"
    using toy_append [of "[]" "''e''" 5 toy_crypto] by auto
  from audit_log_invariant [OF r_into_rtranclp [of "log_step toy_crypto", OF r(2)]] r(1) show ?thesis by auto
qed

text \<open>The log is append-only: whatever calls follow, every row stays at its place with its
  identifier, columns and hashes, its content does not change, its signatures are only added to,
  and a row that is no longer pending never becomes pending again.\<close>

theorem audit_append_only:
  assumes "(log_step C)\<^sup>*\<^sup>* [] log" and "(log_step C)\<^sup>*\<^sup>* log log'" and "i < length log"
  shows "i < length log' \<and> row_event_id (log' ! i) = row_event_id (log ! i)
    \<and> row_prev_hash (log' ! i) = row_prev_hash (log ! i) \<and> row_chain_hash (log' ! i) = row_chain_hash (log ! i)
    \<and> (row_pending (log' ! i) \<longrightarrow> row_pending (log ! i))
    \<and> (\<exists>c sigs extra. loads (row_record_json (log ! i)) = Inr (audit_record c sigs)
         \<and> loads (row_record_json (log' ! i)) = Inr (audit_record c (sigs @ extra)))"
proof -
  have wf: "wf_log log"
    using log_steps_wf [OF assms(1)] by simp
  obtain c sigs where s: "stored (log ! i) c sigs"
    using wf assms(3) by (meson nth_mem wf_log_def wf_row_def)
  have le: "i < length log'" "row_le (log ! i) (log' ! i)"
    using log_steps_le [OF assms(2) wf] assms(3) by (auto simp: log_le_def)
  then obtain extra where "stored (log' ! i) c (sigs @ extra)"
    using s unfolding row_le_def by blast
  then show ?thesis
    using le s loads_stored unfolding row_le_def by blast
qed

lemma audit_append_only_witness:
  "\<exists>r r'. append_pending [r] (toy_event ''f'' 6) JNull = Inr (toy_record ''f'' 6, [r, r'])
    \<and> row_chain_hash ([r, r'] ! 0) = row_chain_hash ([r] ! 0)"
proof -
  obtain r where r: "log_step toy_crypto [] [r]" "row_event_id r = Some ''e''" "wf_log [r]"
    using toy_append [of "[]" "''e''" 5 toy_crypto] by auto
  obtain r' where r': "append_pending [r] (toy_event ''f'' 6) JNull = Inr (toy_record ''f'' 6, [r, r'])"
      "log_step toy_crypto [r] [r, r']"
    using toy_append [of "[r]" "''f''" 6 toy_crypto] r(2,3) by auto
  have "0 < length [r]"
    by simp
  note audit_append_only [OF r_into_rtranclp [of "log_step toy_crypto", OF r(1)]
      r_into_rtranclp [of "log_step toy_crypto", OF r'(2)] this]
  then have "row_chain_hash ([r, r'] ! 0) = row_chain_hash ([r] ! 0)"
    by blast
  with r'(1) show ?thesis by blast
qed

text \<open>C23: The hash chain links the log when events arrive in the order of their keys: after any
  calls that write, if every row's time stamp and event id come after those of the row before it,
  then the first row names the genesis hash and every other row the chain hash of its
  predecessor; cosigning does not disturb the links.\<close>

theorem hash_chain_linked:
  assumes "(log_step C)\<^sup>*\<^sup>* [] log" and "sorted_wrt (\<lambda>a b. row_key_of a < row_key_of b) log"
  shows "\<forall>i < length log. row_prev_hash (log ! i) = (if i = 0 then GENESIS_HASH else row_chain_hash (log ! (i - 1)))"
  using log_steps_linked [OF assms(1)] assms(2) by (simp add: in_order_def linked_nth)

lemma hash_chain_linked_witness:
  "\<exists>r r'. append_pending [] (toy_event ''e'' 5) JNull = Inr (toy_record ''e'' 5, [r])
    \<and> append_pending [r] (toy_event ''f'' 5) JNull = Inr (toy_record ''f'' 5, [r, r'])
    \<and> row_prev_hash r = GENESIS_HASH \<and> row_prev_hash r' = row_chain_hash r"
proof -
  obtain r where r: "append_pending [] (toy_event ''e'' 5) JNull = Inr (toy_record ''e'' 5, [r])"
      "log_step toy_crypto [] [r]" "row_event_id r = Some ''e''" "row_ts r = 5" "wf_log [r]"
    using toy_append [of "[]" "''e''" 5 toy_crypto] by auto
  obtain r' where r': "append_pending [r] (toy_event ''f'' 5) JNull = Inr (toy_record ''f'' 5, [r, r'])"
      "log_step toy_crypto [r] [r, r']" "row_event_id r' = Some ''f''" "row_ts r' = 5"
    using toy_append [of "[r]" "''f''" 5 toy_crypto] r(3,5) by auto
  have "(log_step toy_crypto)\<^sup>*\<^sup>* [] [r, r']"
    using r(2) r'(2) by (meson r_into_rtranclp rtranclp.rtrancl_into_rtrancl)
  moreover have "sorted_wrt (\<lambda>a b. row_key_of a < row_key_of b) [r, r']"
    using r(3,4) r'(3,4) by (simp add: row_key_of_def less_row_key_def)
  ultimately have "\<forall>i < length [r, r']. row_prev_hash ([r, r'] ! i)
      = (if i = 0 then GENESIS_HASH else row_chain_hash ([r, r'] ! (i - 1)))"
    by (rule hash_chain_linked)
  then have "row_prev_hash r = GENESIS_HASH" "row_prev_hash r' = row_chain_hash r"
    by (auto dest: spec [of _ 0] spec [of _ 1])
  with r(1) r'(1) show ?thesis by blast
qed

text \<open>The hash chain forks when an event arrives out of that order, for instance in the same
  second with a smaller random id: the row inserted after it names the same predecessor again, so
  no row links to the late one.\<close>

theorem hash_chain_fork:
  assumes "insert_event log e1 rec1 p1 = Inr (log @ [r1])" and "insert_event (log @ [r1]) e2 rec2 p2 = Inr (log @ [r1, r2])"
    and "m \<in> set log" and "row_key_of r1 < row_key_of m"
  shows "row_prev_hash r1 = latest_hash log \<and> row_prev_hash r2 = latest_hash log"
  using assms(1,2) latest_hash_older [OF assms(3,4)] by (auto simp: insert_event_Inr inserts_def)

lemma hash_chain_fork_witness:
  "\<exists>m r1 r2. append_pending [] (toy_event ''e2'' 5) JNull = Inr (toy_record ''e2'' 5, [m])
    \<and> append_pending [m] (toy_event ''e1'' 5) JNull = Inr (toy_record ''e1'' 5, [m, r1])
    \<and> append_pending [m, r1] (toy_event ''e3'' 5) JNull = Inr (toy_record ''e3'' 5, [m, r1, r2])
    \<and> row_prev_hash r2 = row_prev_hash r1"
proof -
  obtain m where m: "append_pending [] (toy_event ''e2'' 5) JNull = Inr (toy_record ''e2'' 5, [m])"
      "row_event_id m = Some ''e2''" "row_ts m = 5" "wf_log [m]"
    using toy_append [of "[]" "''e2''" 5 toy_crypto] by auto
  obtain r1 where r1: "append_pending [m] (toy_event ''e1'' 5) JNull = Inr (toy_record ''e1'' 5, [m, r1])"
      "inserts [m] (toy_event ''e1'' 5) (toy_record ''e1'' 5) True r1"
      "row_event_id r1 = Some ''e1''" "row_ts r1 = 5" "wf_log [m, r1]"
    using toy_append [of "[m]" "''e1''" 5 toy_crypto] m(2,4) by auto
  obtain r2 where r2: "append_pending [m, r1] (toy_event ''e3'' 5) JNull = Inr (toy_record ''e3'' 5, [m, r1, r2])"
      "inserts [m, r1] (toy_event ''e3'' 5) (toy_record ''e3'' 5) True r2"
    using toy_append [of "[m, r1]" "''e3''" 5 toy_crypto] m(2) r1(3,5) by auto
  have "row_key_of r1 < row_key_of m"
    using m(2,3) r1(3,4) by (simp add: row_key_of_def less_row_key_def)
  then have "row_prev_hash r1 = latest_hash [m] \<and> row_prev_hash r2 = latest_hash [m]"
    using hash_chain_fork [of "[m]" "toy_event ''e1'' 5" "toy_record ''e1'' 5" True r1 "toy_event ''e3'' 5"
        "toy_record ''e3'' 5" True r2 m] r1(2) r2(2) by (auto simp: insert_event_Inr)
  with m(1) r1(1) r2(1) show ?thesis by metis
qed

text \<open>C25: What the chain detects. Take a log the operations wrote, with its events in the order of
  their keys, and any table of as many rows in its place that passes a check by recomputation: each
  row's text parses to a record, its hash is \<open>chain_hash\<close> of the hash it names and of that record with
  a first part of its signatures, and it names its predecessor's hash, the first row the genesis
  hash. If the table's last hash is the log's \<open>latest_hash\<close>, then every row holds the content of the
  log's row at its place, or two different byte strings that \<open>chain_hash\<close> hashed for rows of one
  place collide under SHA-256.\<close>

theorem hash_chain_tamper_evident:
  assumes "(log_step C)\<^sup>*\<^sup>* [] log" and "sorted_wrt (\<lambda>a b. row_key_of a < row_key_of b) log" and "log \<noteq> []"
    and "\<forall>r \<in> set (l :: audit_log). \<exists>c sigs k. loads (row_record_json r) = Inr (audit_record c sigs)
         \<and> chain_hash (row_prev_hash r) (audit_record c (take k sigs)) = Inr (row_chain_hash r)"
    and "\<forall>i < length l. row_prev_hash (l ! i) = (if i = 0 then GENESIS_HASH else row_chain_hash (l ! (i - 1)))"
    and "length l = length log" and "row_chain_hash (last l) = latest_hash log"
  shows "(\<forall>i < length log. \<exists>c sigs c' sigs'. loads (row_record_json (log ! i)) = Inr (audit_record c sigs)
        \<and> loads (row_record_json (l ! i)) = Inr (audit_record c' sigs') \<and> sort_json c' = c)
    \<or> (\<exists>i < length log. \<exists>rec rec' p p'. chain_hash (row_prev_hash (log ! i)) rec = Inr (row_chain_hash (log ! i))
        \<and> chain_hash (row_prev_hash (l ! i)) rec' = Inr (row_chain_hash (l ! i))
        \<and> ascii_encode (row_prev_hash (log ! i)) = Inr p \<and> ascii_encode (row_prev_hash (l ! i)) = Inr p'
        \<and> sha256_collision (p @ [10] @ canonical_json rec) (p' @ [10] @ canonical_json rec'))"
proof -
  have wf: "wf_log log"
    using log_steps_wf [OF assms(1)] by simp
  have mine: "\<exists>c sigs. stored r c sigs \<and> recomputed r c sigs" if "r \<in> set log" for r :: row
    using wf that by (intro wf_row_holds) (simp add: wf_log_def)
  have theirs: "\<exists>c sigs. recomputed r c sigs" if "r \<in> set l" for r :: row
    using assms(4) that unfolding recomputed_def by blast
  have link: "linked GENESIS_HASH log" "linked GENESIS_HASH l"
    using log_steps_linked [OF assms(1)] assms(2) assms(5) by (simp_all add: in_order_def linked_nth)
  have last: "row_chain_hash (last log) = row_chain_hash (last l)"
    using in_order_latest [of log] assms(2,3,7) by (simp add: in_order_def)
  have "\<forall>r \<in> set log \<union> set l. \<exists>c sigs. recomputed r c sigs"
    using mine theirs by blast
  from linked_tail [OF this link GENESIS_HASH_length assms(6) [symmetric] assms(3) last] show ?thesis
  proof
    assume same: "\<forall>i < length log. \<forall>c sigs c' sigs'. recomputed (log ! i) c sigs \<and> recomputed (l ! i) c' sigs'
      \<longrightarrow> sort_json c = sort_json c'"
    have "\<exists>c sigs c' sigs'. loads (row_record_json (log ! i)) = Inr (audit_record c sigs)
        \<and> loads (row_record_json (l ! i)) = Inr (audit_record c' sigs') \<and> sort_json c' = c" if i: "i < length log" for i
    proof -
      obtain c sigs where c: "stored (log ! i) c sigs" "recomputed (log ! i) c sigs"
        using mine i by (meson nth_mem)
      obtain c' sigs' where c': "recomputed (l ! i) c' sigs'"
        using theirs i assms(6) by (metis nth_mem)
      have "sort_json c = c"
        using c(1) by (simp add: stored_def)
      then show ?thesis
        using same i c(2) c' unfolding recomputed_def by metis
    qed
    then show ?thesis by blast
  next
    assume "\<exists>i < length log. rows_collide (log ! i) (l ! i)"
    then show ?thesis
      unfolding rows_collide_def by blast
  qed
qed

lemma hash_chain_tamper_evident_witness:
  "\<exists>r r' q. append_pending [] (toy_event ''e'' 5) JNull = Inr (toy_record ''e'' 5, [r])
    \<and> append_pending [r] (toy_event ''f'' 5) JNull = Inr (toy_record ''f'' 5, [r, r'])
    \<and> row_record_json q \<noteq> row_record_json r
    \<and> ((\<forall>i < length [r, r']. \<exists>c sigs c' sigs'. loads (row_record_json ([r, r'] ! i)) = Inr (audit_record c sigs)
        \<and> loads (row_record_json ([q, r'] ! i)) = Inr (audit_record c' sigs') \<and> sort_json c' = c)
      \<or> (\<exists>i < length [r, r']. \<exists>rec rec' p p'. chain_hash (row_prev_hash ([r, r'] ! i)) rec = Inr (row_chain_hash ([r, r'] ! i))
        \<and> chain_hash (row_prev_hash ([q, r'] ! i)) rec' = Inr (row_chain_hash ([q, r'] ! i))
        \<and> ascii_encode (row_prev_hash ([r, r'] ! i)) = Inr p \<and> ascii_encode (row_prev_hash ([q, r'] ! i)) = Inr p'
        \<and> sha256_collision (p @ [10] @ canonical_json rec) (p' @ [10] @ canonical_json rec')))"
proof -
  obtain r where r: "append_pending [] (toy_event ''e'' 5) JNull = Inr (toy_record ''e'' 5, [r])"
      "log_step toy_crypto [] [r]" "row_event_id r = Some ''e''" "row_ts r = 5" "wf_log [r]"
    using toy_append [of "[]" "''e''" 5 toy_crypto] by auto
  obtain r' where r': "append_pending [r] (toy_event ''f'' 5) JNull = Inr (toy_record ''f'' 5, [r, r'])"
      "log_step toy_crypto [r] [r, r']" "row_event_id r' = Some ''f''" "row_ts r' = 5" "wf_log [r, r']"
    using toy_append [of "[r]" "''f''" 5 toy_crypto] r(3,5) by auto
  have steps: "(log_step toy_crypto)\<^sup>*\<^sup>* [] [r, r']"
    using r(2) r'(2) by (meson r_into_rtranclp rtranclp.rtrancl_into_rtrancl)
  have order: "sorted_wrt (\<lambda>a b. row_key_of a < row_key_of b) [r, r']"
    using r(3,4) r'(3,4) by (simp add: row_key_of_def less_row_key_def)
  obtain c sigs where c: "stored r c sigs"
    using r(5) by (auto simp: wf_log_def wf_row_def)
  let ?q = "r\<lparr>row_record_json := dumps True (audit_record c (sigs @ [JNull])), row_pending := False\<rparr>"
  have s: "stored ?q c (sigs @ [JNull])"
    using finalized_row(1) [OF c _ _ refl, of "[JNull]" JNull] by simp
  have "wf_row ?q"
    using finalized_row [OF c _ _ refl, of "[JNull]" JNull] s r(5) stored_unique [OF c]
    by (fastforce simp: wf_log_def wf_row_def)
  then have q: "\<exists>c sigs k. loads (row_record_json x) = Inr (audit_record c sigs)
      \<and> chain_hash (row_prev_hash x) (audit_record c (take k sigs)) = Inr (row_chain_hash x)" if "x \<in> set [?q, r']" for x
  proof -
    have "wf_row x"
      using that \<open>wf_row ?q\<close> r'(5) by (auto simp: wf_log_def)
    then show ?thesis
      using wf_row_holds unfolding recomputed_def by blast
  qed
  have link: "\<forall>i < length [?q, r']. row_prev_hash ([?q, r'] ! i) = (if i = 0 then GENESIS_HASH else row_chain_hash ([?q, r'] ! (i - 1)))"
    using log_steps_linked [OF steps] order by (auto simp: in_order_def less_Suc_eq)
  have last: "row_chain_hash (last [?q, r']) = latest_hash [r, r']"
    using in_order_latest [of "[r, r']"] order by (simp add: in_order_def)
  have other: "row_record_json ?q \<noteq> row_record_json r"
    using loads_stored [OF s] loads_stored [OF c] by auto
  have "[r, r'] \<noteq> []" "length [?q, r'] = length [r, r']"
    by simp_all
  note hash_chain_tamper_evident [OF steps order this(1) ballI [OF q] link this(2) last]
  with r(1) r'(1) other show ?thesis
    by (intro exI [of _ r] exI [of _ r'] exI [of _ ?q] conjI)
qed

text \<open>Cross-signing completes on both sides: for an event with a text id that both logs can take,
  the delegatee's pending append, the delegator's append of the event rebuilt from the content it
  received, and the delegatee's finalization with the delegator's signature all succeed; afterwards
  both logs return a record with the same content and both signatures, a third party that knows
  the two keys verifies either one, and the delegatee has nothing pending that it did not have
  before.\<close>

theorem cross_sign_completes:
  assumes "ed25519_correct C" and "wf_keypair C ka" and "wf_keypair C kb" and "a \<noteq> b"
    and "wf_log la" and "wf_log lb" and "normal_event ev" and "ev_event_id ev = JStr eid"
    and "insertable la ev" and "insertable lb ev" and "keys a = Some (kp_public ka)" and "keys b = Some (kp_public kb)"
  shows "\<exists>recb lb1 reca la1 recb' lb2 c.
      append_pending lb ev (sign_only C ev kb b) = Inr (recb, lb1)
    \<and> bind_res (from_content (event_content ev)) (\<lambda>ev'.
         append_finalized C la ev' (sign_only C ev' ka a) (sign_only C ev kb b) (kp_public kb)) = Inr (reca, la1)
    \<and> finalize_pending C lb1 (JStr eid) (sign_only C ev ka a) (kp_public ka) = Inr (recb', lb2)
    \<and> get_event la1 (JStr eid) = Inr (Some (audit_record c [sign_only C ev ka a, sign_only C ev kb b]))
    \<and> get_event lb2 (JStr eid) = Inr (Some (audit_record c [sign_only C ev kb b, sign_only C ev ka a]))
    \<and> canonical_json c = canonical_json (event_content ev)
    \<and> verify_record_signatures C (audit_record c [sign_only C ev ka a, sign_only C ev kb b]) keys = Inr ()
    \<and> verify_record_signatures C (audit_record c [sign_only C ev kb b, sign_only C ev ka a]) keys = Inr ()
    \<and> pending_peer_count lb2 = pending_peer_count lb"
  unfolding from_content_content bind_res_Inr by (rule cross_sign [OF assms])

lemma cross_sign_completes_witness:
  "\<exists>recb lb1. append_pending [] (toy_event ''e'' 5) (sign_only toy_crypto (toy_event ''e'' 5) toy_keypair_2 ''B'') = Inr (recb, lb1)
    \<and> (\<exists>recb' lb2. finalize_pending toy_crypto lb1 (JStr ''e'')
          (sign_only toy_crypto (toy_event ''e'' 5) toy_keypair ''A'') (kp_public toy_keypair) = Inr (recb', lb2))"
proof -
  have i: "insertable [] (toy_event ''e'' 5)"
    by (simp add: insertable_def toy_event_def)
  have id: "ev_event_id (toy_event ''e'' 5) = JStr ''e''"
    by (simp add: toy_event_def)
  have k: "[''A'' \<mapsto> kp_public toy_keypair, ''B'' \<mapsto> kp_public toy_keypair_2] ''A'' = Some (kp_public toy_keypair)"
    "[''A'' \<mapsto> kp_public toy_keypair, ''B'' \<mapsto> kp_public toy_keypair_2] ''B'' = Some (kp_public toy_keypair_2)"
    by simp_all
  have "''A'' \<noteq> ''B''" by simp
  note cross_sign_completes [OF toy_crypto_ok(1) toy_keypair_wf toy_keypair_2_wf this wf_log_Nil wf_log_Nil toy_event_normal id i i k]
  then show ?thesis by blast
qed

text \<open>\<open>verify_record_signatures\<close> accepts a record exactly when every signature names a text
  signer whose key is known and verifies, as an EdDSA envelope, over the record's content; a record
  without signatures passes.\<close>

theorem verify_record_exact:
  "(verify_record_signatures C (audit_record c sigs) keys = Inr ()) =
    (\<forall>s \<in> set sigs. \<exists>signer pk. py_get s ''signed_by'' = Inr (JStr signer) \<and> keys signer = Some pk
       \<and> verify_envelope C c s pk = Inr ())"
  unfolding verify_record_iff signature_known_def verify_envelope_iff ..

lemma verify_record_exact_witness: "verify_record_signatures toy_crypto (audit_record JNull []) (\<lambda>_. None) = Inr ()"
  using verify_record_exact [of toy_crypto JNull "[]" "\<lambda>_. None"] by simp

text \<open>C24: A pending event is finalized at most once: after a successful \<open>finalize_pending\<close> the
  number of pending events is one less, and any further call for the same event, with whatever
  signature and key, raises \<open>AuditError\<close>. A call with a signature that does not verify over the
  stored content raises \<open>CrossSignFailed\<close>.\<close>

theorem finalize_once:
  assumes "wf_log log" and "finalize_pending C log eid sig pk = Inr (rec', log')"
  shows "pending_peer_count log = Suc (pending_peer_count log')
    \<and> finalize_pending C log' eid sig' pk'
        = Inl (Exn AuditError (''event '' @ py_repr eid @ '' is not pending peer signature''))
    \<and> (\<exists>content. py_index rec' ''content'' = Inr content \<and>
         (\<not> envelope_ok C pk' sig' (canonical_json content) \<longrightarrow>
           (\<exists>msg. finalize_pending C log eid sig' pk' = Inl (Exn CrossSignFailed msg))))"
proof -
  obtain xs r ys c sigs extra where f: "log = xs @ r # ys" "row_pending r" "stored r c sigs" "only_row xs r ys"
      "bind_text eid = Inr (row_event_id r)" "rec' = audit_record c (sigs @ extra)"
      "log' = xs @ r\<lparr>row_record_json := dumps True rec', row_pending := False\<rparr> # ys"
    using finalize_pending_Inr [OF assms] by blast
  have count: "pending_peer_count log = Suc (pending_peer_count log')"
    using f(1,2,7) by (simp add: pending_peer_count_def)
  have content: "py_index rec' ''content'' = Inr c"
    by (simp add: f(6) audit_record_def)
  have bad: "\<exists>msg. finalize_pending C log eid sig' pk' = Inl (Exn CrossSignFailed msg)"
    if "\<not> envelope_ok C pk' sig' (canonical_json c)"
  proof -
    have "\<exists>e. verify_envelope C c sig' pk' = Inl e"
      by (rule verify_envelope_raises) (rule that)
    then obtain e where "verify_envelope C c sig' pk' = Inl e" ..
    then show ?thesis
      using row_by_id_found [OF f(4,5)] f(1,2) loads_stored [OF f(3)]
      by (simp add: finalize_pending_def countersign_def audit_record_def cross_sign_failed_def)
  qed
  show ?thesis
    using count finalize_pending_again [OF assms] content bad by blast
qed

lemma finalize_once_witness:
  "\<exists>r rec' log'. finalize_pending toy_crypto [r] (JStr ''e'') (sign_only toy_crypto (toy_event ''e'' 5) toy_keypair ''A'')
      (kp_public toy_keypair) = Inr (rec', log')
    \<and> finalize_pending toy_crypto log' (JStr ''e'') JNull []
      = Inl (Exn AuditError (''event '' @ py_repr (JStr ''e'') @ '' is not pending peer signature''))"
proof -
  obtain r rec' log' where f: "wf_log [r]" "finalize_pending toy_crypto [r] (JStr ''e'')
      (sign_only toy_crypto (toy_event ''e'' 5) toy_keypair ''A'') (kp_public toy_keypair) = Inr (rec', log')"
    using toy_finalize by blast
  from finalize_once [OF f, of JNull "[]"] f(2) show ?thesis by blast
qed

text \<open>Finalizing leaves the chain hash behind: it stays the hash of the record with one
  signature, while the stored record now has two, so recomputing the chain over the stored records,
  signatures included, fails at that row unless SHA-256 collides on the two inputs.\<close>

theorem finalize_leaves_chain_hash:
  assumes "wf_log (xs @ r # ys)" and "finalize_pending C (xs @ r # ys) eid sig pk = Inr (rec', log')"
    and "bind_text eid = Inr (row_event_id r)" and "loads (row_record_json r) = Inr rec" and "rec' \<noteq> rec"
    and "chain_hash (row_prev_hash r) rec = Inr (row_chain_hash r)" and "normal sig"
  shows "\<exists>r' p. log' = xs @ r' # ys \<and> row_chain_hash r' = row_chain_hash r
    \<and> loads (row_record_json r') = Inr (sort_json rec')
    \<and> (chain_hash (row_prev_hash r') rec' \<noteq> Inr (row_chain_hash r')
       \<or> sha256_collision (p @ [10] @ canonical_json rec) (p @ [10] @ canonical_json rec'))"
proof -
  have "row_event_id r \<noteq> None"
  proof
    assume "row_event_id r = None"
    with assms(2,3) show False by (simp add: finalize_pending_def countersign_def row_by_id_def)
  qed
  then have only: "only_row xs r ys"
    using wf_log_only_row assms(1) by blast
  obtain c sigs where st: "stored r c sigs"
    using assms(1) by (auto simp: wf_log_def wf_row_def)
  have rec: "rec = audit_record c sigs"
    using loads_stored [OF st] assms(4) by simp
  have add: "add_signature (audit_record c sigs) sig = Inr rec'"
    and log': "log' = xs @ r\<lparr>row_record_json := dumps True rec', row_pending := False\<rparr> # ys"
    using assms(2) row_by_id_found [OF only assms(3)] loads_stored [OF st] update_row_split [OF only]
    by (auto simp: finalize_pending_def countersign_def split: if_splits)
  have rec': "rec' = audit_record c (sigs @ [sig])"
    using add_signature_Inr [OF add] assms(5) rec by auto
  have n: "normal rec" "normal rec'"
    using st assms(7) by (auto simp: rec rec' stored_def)
  then have "loads (dumps True rec') = Inr (sort_json rec')"
    by (rule_tac loads_dumps)
  moreover have "canonical_json rec \<noteq> canonical_json rec'"
    using canonical_json_eq [OF n] by (auto simp: rec rec' dest: arg_cong [of _ _ length])
  moreover obtain p where p: "ascii_encode (row_prev_hash r) = Inr p"
      "row_chain_hash r = hash_text (p @ [10] @ canonical_json rec)"
    using assms(6) by (auto simp: chain_hash_Inr)
  ultimately show ?thesis
    using hash_text_eq [of "p @ [10] @ canonical_json rec" "p @ [10] @ canonical_json rec'"] log'
    by (intro exI [of _ "r\<lparr>row_record_json := dumps True rec', row_pending := False\<rparr>"] exI [of _ p])
      (auto simp: chain_hash_def)
qed

lemma finalize_leaves_chain_hash_witness:
  "\<exists>r rec rec' log' r' p. finalize_pending toy_crypto [r] (JStr ''e'') (sign_only toy_crypto (toy_event ''e'' 5) toy_keypair ''A'')
      (kp_public toy_keypair) = Inr (rec', log') \<and> log' = [r'] \<and> row_chain_hash r' = row_chain_hash r
    \<and> (chain_hash (row_prev_hash r') rec' \<noteq> Inr (row_chain_hash r')
       \<or> sha256_collision (p @ [10] @ canonical_json rec) (p @ [10] @ canonical_json rec'))"
proof -
  obtain r rec rec' log' where f: "wf_log [r]" "row_event_id r = Some ''e''" "loads (row_record_json r) = Inr rec"
      "finalize_pending toy_crypto [r] (JStr ''e'') (sign_only toy_crypto (toy_event ''e'' 5) toy_keypair ''A'')
        (kp_public toy_keypair) = Inr (rec', log')" "rec' \<noteq> rec" "chain_hash (row_prev_hash r) rec = Inr (row_chain_hash r)"
    using toy_finalize by blast
  have n: "normal (sign_only toy_crypto (toy_event ''e'' 5) toy_keypair ''A'')"
    by (simp add: sign_only_def)
  have b: "bind_text (JStr ''e'') = Inr (row_event_id r)"
    using f(2) by simp
  have "\<exists>r' p. log' = [] @ r' # [] \<and> row_chain_hash r' = row_chain_hash r
    \<and> loads (row_record_json r') = Inr (sort_json rec')
    \<and> (chain_hash (row_prev_hash r') rec' \<noteq> Inr (row_chain_hash r')
       \<or> sha256_collision (p @ [10] @ canonical_json rec) (p @ [10] @ canonical_json rec'))"
    by (rule finalize_leaves_chain_hash [OF _ _ b f(3,5,6) n]) (use f(1,4) in simp_all)
  then show ?thesis
    using f(4) unfolding append_Nil by blast
qed

text \<open>What was appended can be read: after any sequence of appends that all succeed, on any log
  the operations have made, every event with a text id is found under it with its record (keys
  sorted), and every event that was there before reads as it did.\<close>

theorem appended_events_readable:
  assumes "(log_step C)\<^sup>*\<^sup>* [] log" and "fold_res submit log subs = Inr log'"
    and "\<forall>s \<in> set subs. submission_fit s"
  shows "(\<forall>ev sigs pending k. (ev, sigs, pending) \<in> set subs \<and> ev_event_id ev = JStr k \<longrightarrow>
        get_event log' (JStr k) = Inr (Some (sort_json (audit_record (event_content ev) sigs))))
    \<and> (\<forall>k v. get_event log (JStr k) = Inr (Some v) \<longrightarrow> get_event log' (JStr k) = Inr (Some v))"
proof -
  have wf: "wf_log log"
    using log_steps_wf [OF assms(1)] by simp
  have read: "get_event l (JStr k) = Inr (Some v) \<longleftrightarrow> read_event l k = Some v" for l k v
    by (auto simp: read_event_def split: sum.splits)
  show ?thesis
    unfolding read
    using log_store.adds_readable [OF assms(2) wf assms(3)] log_store.adds_keep [OF assms(2) wf assms(3)]
    by (auto simp: submission_key_def submission_record_def)
qed

lemma appended_events_readable_witness:
  "\<exists>log'. fold_res submit [] [(toy_event ''e'' 5, [JNull], True)] = Inr log'
    \<and> get_event log' (JStr ''e'') = Inr (Some (sort_json (toy_record ''e'' 5)))"
proof -
  obtain r where "inserts [] (toy_event ''e'' 5) (toy_record ''e'' 5) True r"
    using toy_append [of "[]" "''e''" 5 toy_crypto] by auto
  then have f: "fold_res submit [] [(toy_event ''e'' 5, [JNull], True)] = Inr [r]"
    using submit_Inr [of "[]" "toy_event ''e'' 5" "[JNull]" True "[r]"] by (simp add: toy_record_def)
  have fit: "\<forall>s \<in> set [(toy_event ''e'' 5, [JNull], True)]. submission_fit s"
    by (simp add: submission_fit_def)
  have id: "ev_event_id (toy_event ''e'' 5) = JStr ''e''"
    by (simp add: toy_event_def)
  from appended_events_readable [OF rtranclp.rtrancl_refl [of "log_step toy_crypto"] f fit] f id
  show ?thesis unfolding toy_record_def by auto
qed

text \<open>When an append goes through: on a log the operations have made, \<open>_insert\<close> succeeds exactly
  when SQLite can store the event's id, type, token id and time stamp, the type is not null and the
  id is not taken; otherwise it raises one of the three database exceptions, none of which is an
  \<open>ATFError\<close>.\<close>

theorem append_succeeds_iff:
  assumes "(log_step C)\<^sup>*\<^sup>* [] log"
  shows "(if insertable log ev then \<exists>r. insert_event log ev rec pending = Inr (log @ [r])
     else \<exists>cls msg. insert_event log ev rec pending = Inl (Exn cls msg)
       \<and> cls \<in> {ProgrammingError, OverflowError, IntegrityError} \<and> \<not> is_a cls ATFError)"
proof -
  have wf: "wf_log log"
    using log_steps_wf [OF assms] by simp
  have text_error: "\<exists>cls msg. e = Exn cls msg \<and> cls \<in> {ProgrammingError, OverflowError}" if "bind_text v = Inl e" for v e
    using that by (cases v) (auto simp: bind_text_def bind_int_def bind_res_eq_Inl split: if_splits)
  show ?thesis
  proof (cases "insertable log ev")
    case True
    then show ?thesis
      using insertable_inserts [OF wf, of ev rec pending] by (auto simp: insert_event_Inr)
  next
    case False
    then obtain e where e: "insert_event log ev rec pending = Inl e"
      using insertable_inserts [OF wf, of ev rec pending]
      by (cases "insert_event log ev rec pending") (auto simp: insert_event_Inr)
    obtain h where "chain_hash (latest_hash log) rec = Inr h"
      using chain_hash_ok [OF wf] by blast
    then have "\<exists>cls msg. e = Exn cls msg \<and> cls \<in> {ProgrammingError, OverflowError, IntegrityError}"
      using e text_error
      by (auto simp: insert_event_def store_row_def bind_res_eq_Inl bind_int_def split: option.splits if_splits) blast+
    then show ?thesis
      using False e by (auto simp: is_a_ATFError atf_classes_def)
  qed
qed

lemma append_succeeds_iff_witness:
  "\<exists>cls msg. insert_event [] ((toy_event ''e'' 5)\<lparr>ev_event_id := JList []\<rparr>) JNull False = Inl (Exn cls msg) \<and> \<not> is_a cls ATFError"
proof -
  have "\<not> insertable [] ((toy_event ''e'' 5)\<lparr>ev_event_id := JList []\<rparr>)"
    by (simp add: insertable_def bind_text_def)
  then show ?thesis
    using append_succeeds_iff [OF rtranclp.rtrancl_refl [of "log_step toy_crypto" "[]"],
        of "(toy_event ''e'' 5)\<lparr>ev_event_id := JList []\<rparr>" JNull False] by auto
qed

end
