(* ===== verification/Atf_Delegation.thy ===== *)
theory Atf_Delegation
  imports Atf_Manifest
begin

text \<open>
  \<open>reference/py/src/atf/delegation.py\<close>: delegation tokens. The clock and the fresh token id are
  arguments. \<open>verify_token\<close> is the sequence of the code's checks in the code's order, on a payload
  that may hold values of any type; \<open>token_verdict\<close> is the abstract decision it makes on a
  well-typed payload.
\<close>

section \<open>Claims\<close>

definition DEFAULT_TTL_SECONDS :: int where
  "DEFAULT_TTL_SECONDS = 3600"

definition MAX_TTL_SECONDS :: int where
  "MAX_TTL_SECONDS = 86400"

record claims =
  dc_iss :: json
  dc_sub :: json
  dc_scope :: "json list"
  dc_exp :: int
  dc_nbf :: int
  dc_iat :: int
  dc_jti :: string
  dc_purpose :: string
  dc_constraints :: dict
  dc_audit_uri :: json

definition claims_dict :: "claims \<Rightarrow> json" where
  "claims_dict c =
     JDict [(''iss'', dc_iss c), (''sub'', dc_sub c), (''scope'', JList (dc_scope c)),
            (''exp'', JInt (dc_exp c)), (''nbf'', JInt (dc_nbf c)), (''iat'', JInt (dc_iat c)),
            (''jti'', JStr (dc_jti c)), (''purpose'', JStr (dc_purpose c)),
            (''constraints'', JDict (dc_constraints c)), (''audit_uri'', dc_audit_uri c)]"

section \<open>Issuing\<close>

definition issue_claims ::
  "identity \<Rightarrow> string \<Rightarrow> string list \<Rightarrow> string \<Rightarrow> dict option \<Rightarrow> int \<Rightarrow> string option \<Rightarrow> int \<Rightarrow> string \<Rightarrow> claims"
where
  "issue_claims delegator delegatee_id scope purpose constraints expires_in audit_uri now uuid =
     \<lparr>dc_iss = JStr (agent_id delegator), dc_sub = JStr delegatee_id, dc_scope = map JStr scope,
      dc_exp = now + expires_in, dc_nbf = now, dc_iat = now, dc_jti = ''tkn_'' @ uuid,
      dc_purpose = purpose, dc_constraints = (case constraints of None \<Rightarrow> [] | Some d \<Rightarrow> d),
      dc_audit_uri = opt_str audit_uri\<rparr>"

definition issue_token ::
  "crypto \<Rightarrow> identity \<Rightarrow> keypair \<Rightarrow> string \<Rightarrow> string list \<Rightarrow> string \<Rightarrow> dict option \<Rightarrow> int \<Rightarrow> string option
    \<Rightarrow> int \<Rightarrow> string \<Rightarrow> string res"
where
  "issue_token C delegator kp delegatee_id scope purpose constraints expires_in audit_uri now uuid =
     (if expires_in \<le> 0 \<or> MAX_TTL_SECONDS < expires_in
      then raise ValueError
        (''expires_in must be in (0, '' @ int_str MAX_TTL_SECONDS @ '']; got '' @ int_str expires_in)
      else Inr (sign_compact C
        (claims_dict (issue_claims delegator delegatee_id scope purpose constraints expires_in
          audit_uri now uuid)) kp))"

section \<open>Verification\<close>

text \<open>\<open>_scope_covers\<close>\<close>

definition scope_covers :: "json \<Rightarrow> string \<Rightarrow> bool res" where
  "scope_covers token_scopes required =
     bind_res (py_iter token_scopes)
       (any_res (\<lambda>s. if py_eq s (JStr required) then Inr True else starts_under (JStr required) s))"

definition check_lifetime :: "json \<Rightarrow> int \<Rightarrow> unit res" where
  "check_lifetime payload now =
     bind_res (py_index payload ''exp'') (\<lambda>expiry.
     bind_res (int_ge_json now expiry) (\<lambda>expired.
       if expired then raise TokenExpired (''expired at '' @ py_str expiry @ '', now '' @ int_str now)
       else
         bind_res (py_index payload ''nbf'') (\<lambda>nbf.
         bind_res (int_lt_json now nbf) (\<lambda>early.
           if early then raise TokenNotYetValid (''not yet valid until '' @ py_str nbf)
           else Inr ()))))"

definition check_subject :: "json \<Rightarrow> string \<Rightarrow> unit res" where
  "check_subject payload expected_sub =
     bind_res (py_index payload ''sub'') (\<lambda>sub.
       if \<not> py_eq sub (JStr expected_sub)
       then raise TokenInsufficientScope
         (''token sub '' @ py_repr sub @ '' does not match expected '' @ str_repr expected_sub)
       else Inr ())"

definition check_scope :: "json \<Rightarrow> string option \<Rightarrow> unit res" where
  "check_scope payload required_scope =
     (case required_scope of
        None \<Rightarrow> Inr ()
      | Some required \<Rightarrow>
          bind_res (py_index payload ''scope'') (\<lambda>scope.
          bind_res (scope_covers scope required) (\<lambda>covered.
            if \<not> covered
            then raise TokenInsufficientScope
              (''required scope '' @ str_repr required @ '' not in token scope '' @ py_repr scope)
            else Inr ())))"

definition check_declared :: "json \<Rightarrow> json option \<Rightarrow> unit res" where
  "check_declared payload delegator_manifest =
     (case delegator_manifest of
        None \<Rightarrow> Inr ()
      | Some content \<Rightarrow>
          bind_res (bind_res (py_index payload ''scope'') py_iter)
            (each_res (\<lambda>s.
               bind_res (manifest_has_capability content s) (\<lambda>declared.
                 if \<not> declared
                 then raise TokenInsufficientScope (''delegator does not declare capability '' @ py_repr s)
                 else Inr ()))))"

definition claims_of_payload :: "json \<Rightarrow> claims res" where
  "claims_of_payload payload =
     bind_res (py_index payload ''iss'') (\<lambda>iss.
     bind_res (py_index payload ''sub'') (\<lambda>sub.
     bind_res (bind_res (py_index payload ''scope'') py_iter) (\<lambda>scope.
     bind_res (bind_res (py_index payload ''exp'') py_int) (\<lambda>expiry.
     bind_res (bind_res (py_index payload ''nbf'') py_int) (\<lambda>nbf.
     bind_res (bind_res (py_index payload ''iat'') py_int) (\<lambda>iat.
     bind_res (py_index payload ''jti'') (\<lambda>jti.
     bind_res (py_index payload ''purpose'') (\<lambda>purpose.
     bind_res (bind_res (py_get payload ''constraints'') (\<lambda>v. py_dict (or_empty v))) (\<lambda>constraints.
     bind_res (py_get payload ''audit_uri'') (\<lambda>audit_uri.
       Inr \<lparr>dc_iss = iss, dc_sub = sub, dc_scope = scope, dc_exp = expiry, dc_nbf = nbf, dc_iat = iat,
            dc_jti = py_str jti, dc_purpose = py_str purpose, dc_constraints = constraints,
            dc_audit_uri = audit_uri\<rparr>))))))))))"

definition verify_token ::
  "crypto \<Rightarrow> string \<Rightarrow> bytes \<Rightarrow> string \<Rightarrow> string option \<Rightarrow> json option \<Rightarrow> int \<Rightarrow> claims res"
where
  "verify_token C token pk expected_sub required_scope delegator_manifest now =
     bind_res (rewrap (reraise TokenInvalidSignature) (verify_compact C token pk)) (\<lambda>(header, payload).
     bind_res (check_lifetime payload now) (\<lambda>_.
     bind_res (check_subject payload expected_sub) (\<lambda>_.
     bind_res (check_scope payload required_scope) (\<lambda>_.
     bind_res (check_declared payload delegator_manifest) (\<lambda>_.
       claims_of_payload payload)))))"

section \<open>The scope test\<close>

lemma scope_covers_strings: "scope_covers (JList (map JStr ss)) s = Inr (\<exists>x \<in> set ss. covers x s)"
proof -
  have eq: "(if py_eq (JStr x) (JStr s) then Inr True else starts_under (JStr s) (JStr x)) = Inr (covers x s)" for x
    using covers_decided [of s x] by (auto simp: py_eq_def)
  have "any_res (\<lambda>s'. if py_eq s' (JStr s) then Inr True else starts_under (JStr s) s') (map JStr ss)
      = Inr (\<exists>v \<in> set (map JStr ss). \<exists>x. v = JStr x \<and> covers x s)"
  proof (rule any_res_Inr)
    fix v
    assume "v \<in> set (map JStr ss)"
    then obtain x where "v = JStr x" by auto
    then show "(if py_eq v (JStr s) then Inr True else starts_under (JStr s) v)
        = Inr (\<exists>x. v = JStr x \<and> covers x s)"
      using eq [of x] by (cases "x = s") auto
  qed
  then show ?thesis
    by (simp add: scope_covers_def Bex_def image_iff) blast
qed

interpretation scope_test: capability_test
  "\<lambda>scopes s. scope_covers (JList (map JStr scopes)) s" "\<lambda>scopes. scopes" "\<lambda>_. True"
  by unfold_locales (rule scope_covers_strings)

section \<open>The decision on a well-typed payload\<close>

text \<open>The exception class a token is refused with, or \<open>None\<close>: the checks in order.\<close>

definition token_verdict ::
  "int \<Rightarrow> int \<Rightarrow> string \<Rightarrow> string list \<Rightarrow> string \<Rightarrow> string option \<Rightarrow> string list option \<Rightarrow> int
    \<Rightarrow> exn_class option"
where
  "token_verdict expiry nbf sub scope expected required declared now =
     (if expiry \<le> now then Some TokenExpired
      else if now < nbf then Some TokenNotYetValid
      else if sub \<noteq> expected then Some TokenInsufficientScope
      else if \<exists>r. required = Some r \<and> \<not> (\<exists>x \<in> set scope. covers x r) then Some TokenInsufficientScope
      else if \<exists>names. declared = Some names \<and> \<not> (\<forall>s \<in> set scope. \<exists>d \<in> set names. covers d s)
      then Some TokenInsufficientScope
      else None)"

definition payload_typed :: "dict \<Rightarrow> int \<Rightarrow> int \<Rightarrow> string \<Rightarrow> string list \<Rightarrow> bool" where
  "payload_typed kvs expiry nbf sub scope \<longleftrightarrow>
     map_of kvs ''exp'' = Some (JInt expiry) \<and> map_of kvs ''nbf'' = Some (JInt nbf)
     \<and> map_of kvs ''sub'' = Some (JStr sub) \<and> map_of kvs ''scope'' = Some (JList (map JStr scope))
     \<and> (\<exists>i. map_of kvs ''iat'' = Some (JInt i))
     \<and> {''iss'', ''jti'', ''purpose''} \<subseteq> dom (map_of kvs)
     \<and> map_of kvs ''constraints'' \<in> {None, Some JNull} \<union> range (\<lambda>d. Some (JDict d))"

lemma check_lifetime_typed:
  "payload_typed kvs x n sub scope \<Longrightarrow>
    check_lifetime (JDict kvs) now =
      (if x \<le> now then raise TokenExpired (''expired at '' @ py_str (JInt x) @ '', now '' @ int_str now)
       else if now < n then raise TokenNotYetValid (''not yet valid until '' @ py_str (JInt n))
       else Inr ())"
  by (simp add: check_lifetime_def payload_typed_def)

lemma check_subject_typed:
  "payload_typed kvs x n sub scope \<Longrightarrow>
    check_subject (JDict kvs) expected =
      (if sub = expected then Inr ()
       else raise TokenInsufficientScope
         (''token sub '' @ py_repr (JStr sub) @ '' does not match expected '' @ str_repr expected))"
  by (auto simp: check_subject_def payload_typed_def py_eq_def)

lemma check_scope_typed:
  "payload_typed kvs x n sub scope \<Longrightarrow>
    check_scope (JDict kvs) required =
      (if \<exists>r. required = Some r \<and> \<not> (\<exists>s \<in> set scope. covers s r)
       then raise TokenInsufficientScope
         (''required scope '' @ str_repr (the required) @ '' not in token scope '' @ py_repr (JList (map JStr scope)))
       else Inr ())"
  by (simp add: check_scope_def payload_typed_def scope_test.test_covers split: option.split)

lemma check_declared_cls:
  assumes "check_declared payload (Some content) = Inl e" and "proper_manifest content"
    and "bind_res (py_index payload ''scope'') py_iter = Inr (map JStr scope)"
  shows "exn_cls e = TokenInsufficientScope"
proof -
  obtain s where "s \<in> set scope"
    and e: "bind_res (manifest_has_capability content (JStr s)) (\<lambda>declared.
      if \<not> declared then raise TokenInsufficientScope (''delegator does not declare capability '' @ py_repr (JStr s))
      else Inr ()) = Inl e"
    using assms(1) unfolding check_declared_def assms(3) by (auto dest!: each_res_Inl)
  then show ?thesis
    by (auto simp: manifest_test.test_covers [OF assms(2)] split: if_splits)
qed

lemma check_declared_Inr:
  assumes "proper_manifest content" and "bind_res (py_index payload ''scope'') py_iter = Inr (map JStr scope)"
  shows "check_declared payload (Some content) = Inr ()
    \<longleftrightarrow> (\<forall>s \<in> set scope. \<exists>d \<in> set (declared_names content). covers d s)"
  unfolding check_declared_def assms(2)
  by (auto simp: manifest_test.test_covers [OF assms(1)] split: if_splits)

lemma claims_typed:
  assumes "payload_typed kvs x n sub scope"
  shows "\<exists>c. claims_of_payload (JDict kvs) = Inr c \<and> dc_exp c = x \<and> dc_nbf c = n
    \<and> dc_sub c = JStr sub \<and> dc_scope c = map JStr scope
    \<and> map_of kvs ''iss'' = Some (dc_iss c) \<and> map_of kvs ''iat'' = Some (JInt (dc_iat c))
    \<and> map_option py_str (map_of kvs ''jti'') = Some (dc_jti c)
    \<and> map_option py_str (map_of kvs ''purpose'') = Some (dc_purpose c)
    \<and> dc_constraints c = (case map_of kvs ''constraints'' of Some (JDict d) \<Rightarrow> d | _ \<Rightarrow> [])
    \<and> dc_audit_uri c = (case map_of kvs ''audit_uri'' of None \<Rightarrow> JNull | Some u \<Rightarrow> u)"
proof -
  obtain iss jti purpose iat where v: "map_of kvs ''iss'' = Some iss" "map_of kvs ''jti'' = Some jti"
      "map_of kvs ''purpose'' = Some purpose" "map_of kvs ''iat'' = Some (JInt iat)"
    using assms by (auto simp: payload_typed_def)
  have d: "bind_res (py_get (JDict kvs) ''constraints'') (\<lambda>v. py_dict (or_empty v))
      = Inr (case map_of kvs ''constraints'' of Some (JDict d) \<Rightarrow> d | _ \<Rightarrow> [])"
    using assms by (auto simp: payload_typed_def py_dict_def or_empty_def)
  have u: "py_get (JDict kvs) ''audit_uri'' = Inr (case map_of kvs ''audit_uri'' of None \<Rightarrow> JNull | Some u \<Rightarrow> u)"
    by (simp add: py_get_Inr)
  show ?thesis
    unfolding claims_of_payload_def d u using assms v by (simp add: payload_typed_def)
qed

text \<open>The verdict on a typed payload is the abstract one.\<close>

lemma verify_token_verdict:
  assumes "verify_compact C token pk = Inr (h, JDict kvs)" and "payload_typed kvs x n sub scope"
    and "\<And>content. manifest = Some content \<Longrightarrow> proper_manifest content"
  shows "case token_verdict x n sub scope expected required (map_option declared_names manifest) now of
      None \<Rightarrow> verify_token C token pk expected required manifest now = claims_of_payload (JDict kvs)
    | Some cls \<Rightarrow> \<exists>msg. verify_token C token pk expected required manifest now = Inl (Exn cls msg)"
proof -
  have scope: "bind_res (py_index (JDict kvs) ''scope'') py_iter = Inr (map JStr scope)"
    using assms(2) by (simp add: payload_typed_def)
  note checks = check_lifetime_typed [OF assms(2)] check_subject_typed [OF assms(2)] check_scope_typed [OF assms(2)]
  consider (early) "token_verdict x n sub scope expected required None now \<noteq> None"
    | (free) "token_verdict x n sub scope expected required None now = None" "manifest = None"
    | (man) content where "token_verdict x n sub scope expected required None now = None" "manifest = Some content"
    by (cases manifest) auto
  then show ?thesis
  proof cases
    case early
    then show ?thesis
      by (auto simp: verify_token_def assms(1) checks token_verdict_def split: if_splits)
  next
    case free
    then show ?thesis
      by (simp add: verify_token_def assms(1) checks token_verdict_def check_declared_def split: if_splits) auto
  next
    case man
    then have ok: "check_lifetime (JDict kvs) now = Inr ()" "check_subject (JDict kvs) expected = Inr ()"
        "check_scope (JDict kvs) required = Inr ()"
      by (auto simp: checks token_verdict_def split: if_splits)
    have pre: "verify_token C token pk expected required manifest now =
        bind_res (check_declared (JDict kvs) (Some content)) (\<lambda>_. claims_of_payload (JDict kvs))"
      by (simp add: verify_token_def assms(1) ok man(2))
    note p = assms(3) [OF man(2)]
    show ?thesis
    proof (cases "check_declared (JDict kvs) (Some content)")
      case (Inl e)
      then have "exn_cls e = TokenInsufficientScope"
        using check_declared_cls [OF _ p scope] by blast
      then have "e = Exn TokenInsufficientScope (exn_msg e)"
        by (cases e) simp
      moreover have "\<not> (\<forall>s \<in> set scope. \<exists>d \<in> set (declared_names content). covers d s)"
        using Inl check_declared_Inr [OF p scope] by auto
      ultimately show ?thesis
        using man Inl unfolding pre by (auto simp: token_verdict_def split: if_splits)
    next
      case (Inr u)
      then have "\<forall>s \<in> set scope. \<exists>d \<in> set (declared_names content). covers d s"
        using check_declared_Inr [OF p scope] by simp
      then show ?thesis
        using man Inr unfolding pre by (auto simp: token_verdict_def split: if_splits)
    qed
  qed
qed

section \<open>What an accepted token satisfies\<close>

lemma scope_covers_True:
  assumes "scope_covers scopes r = Inr True" and "py_iter scopes = Inr xs"
  shows "\<exists>s. JStr s \<in> set xs \<and> covers s r"
proof -
  obtain x where x: "x \<in> set xs"
      "(if py_eq x (JStr r) then Inr True else starts_under (JStr r) x) = Inr True"
    using assms by (auto simp: scope_covers_def dest!: any_res_True)
  have "\<exists>s. x = JStr s \<and> covers s r"
    using x(2) by (cases x) (auto simp: starts_under_def covers_def split: if_splits)
  with x(1) show ?thesis by auto
qed

text \<open>\<open>int\<close> cuts towards zero, so it keeps an order against an integer, except that equality may
  replace the strict one.\<close>

lemma int_ge_json_py_int:
  assumes "int_ge_json n v = Inr b" and "py_int v = Inr i"
  shows "if b then i \<le> n else n \<le> i"
proof (cases v)
  case (JFloat s m e)
  show ?thesis
  proof (cases "0 \<le> e")
    case True
    then show ?thesis
      using assms JFloat by (auto simp: int_ge_json_def py_int_def Let_def)
  next
    case False
    define p :: int where "p = 10 ^ nat (- e)"
    have p: "0 < p" by (simp add: p_def)
    have b: "b \<longleftrightarrow> (if s then - int m else int m) \<le> n * p"
      and i: "i = (if s then - (int m div p) else int m div p)"
      using assms JFloat False by (auto simp: int_ge_json_def py_int_def Let_def p_def)
    have e: "int m = int m div p * p + int m mod p"
      by (rule div_mult_mod_eq [symmetric])
    have q: "int m div p * p \<le> int m" "int m < (int m div p + 1) * p"
      using e pos_mod_sign [OF p, of "int m"] pos_mod_bound [OF p, of "int m"]
      unfolding distrib_right mult_1 by linarith+
    let ?d = "int m div p"
    show ?thesis
    proof (cases s)
      case True
      have "b \<Longrightarrow> - n < ?d + 1" "\<not> b \<Longrightarrow> ?d < - n"
        using b q True mult_less_cancel_right_pos [OF p, of "- n" "?d + 1"]
          mult_less_cancel_right_pos [OF p, of ?d "- n"] by simp_all
      then show ?thesis
        using i True by (cases b) simp_all
    next
      case False
      have "b \<Longrightarrow> ?d \<le> n" "\<not> b \<Longrightarrow> n < ?d + 1"
        using b q False mult_le_cancel_right_pos [OF p, of ?d n]
          mult_less_cancel_right_pos [OF p, of n "?d + 1"] by simp_all
      then show ?thesis
        using i False by (cases b) simp_all
    qed
  qed
qed (use assms in \<open>auto simp: int_ge_json_def py_int_def\<close>)

lemma verify_token_Inr:
  "verify_token C token pk expected required manifest now = Inr c \<longleftrightarrow>
     (\<exists>h payload. verify_compact C token pk = Inr (h, payload) \<and> check_lifetime payload now = Inr ()
        \<and> check_subject payload expected = Inr () \<and> check_scope payload required = Inr ()
        \<and> check_declared payload manifest = Inr () \<and> claims_of_payload payload = Inr c)"
  by (auto simp: verify_token_def)

lemma check_lifetime_Inr:
  "check_lifetime payload now = Inr () \<longleftrightarrow>
     (\<exists>x n. py_index payload ''exp'' = Inr x \<and> int_ge_json now x = Inr False
        \<and> py_index payload ''nbf'' = Inr n \<and> int_lt_json now n = Inr False)"
  by (auto simp: check_lifetime_def if_distrib [of "\<lambda>r. r = Inr _"] split: if_splits)

lemma claims_of_payload_fields:
  assumes "claims_of_payload payload = Inr c"
  shows "bind_res (py_index payload ''scope'') py_iter = Inr (dc_scope c)"
    and "bind_res (py_index payload ''exp'') py_int = Inr (dc_exp c)"
    and "bind_res (py_index payload ''nbf'') py_int = Inr (dc_nbf c)"
    and "py_index payload ''sub'' = Inr (dc_sub c)"
    and "\<exists>j. py_index payload ''jti'' = Inr j \<and> dc_jti c = py_str j"
    and "py_index payload ''iss'' = Inr (dc_iss c)"
  using assms by (auto simp: claims_of_payload_def)

lemma verify_token_lifetime:
  assumes "check_lifetime payload now = Inr ()" and "claims_of_payload payload = Inr c"
  shows "dc_nbf c \<le> now \<and> now \<le> dc_exp c"
proof -
  obtain x n where x: "py_index payload ''exp'' = Inr x" "int_ge_json now x = Inr False"
    and n: "py_index payload ''nbf'' = Inr n" "int_ge_json now n = Inr True"
    using assms(1) by (auto simp: check_lifetime_Inr int_lt_json_def)
  have "py_int x = Inr (dc_exp c)" "py_int n = Inr (dc_nbf c)"
    using claims_of_payload_fields(2,3) [OF assms(2)] x(1) n(1) by auto
  then show ?thesis
    using int_ge_json_py_int [OF x(2)] int_ge_json_py_int [OF n(2)] by auto
qed

lemma verify_token_declared:
  assumes "check_declared payload (Some content) = Inr ()" and "claims_of_payload payload = Inr c"
    and "s \<in> set (dc_scope c)"
  shows "manifest_has_capability content s = Inr True"
  using assms(1,3) claims_of_payload_fields(1) [OF assms(2)]
  by (auto simp: check_declared_def if_distrib [of "\<lambda>r. r = Inr _"] split: if_splits)

lemma verify_token_scope:
  assumes "check_scope payload (Some r) = Inr ()" and "claims_of_payload payload = Inr c"
  shows "\<exists>s. JStr s \<in> set (dc_scope c) \<and> covers s r"
proof -
  obtain v where "py_index payload ''scope'' = Inr v" "scope_covers v r = Inr True"
    using assms(1) by (auto simp: check_scope_def split: if_splits)
  then show ?thesis
    using scope_covers_True claims_of_payload_fields(1) [OF assms(2)] by auto
qed

lemma check_subject_Inr: "check_subject payload expected = Inr () \<longleftrightarrow> py_index payload ''sub'' = Inr (JStr expected)"
  by (auto simp: check_subject_def if_distrib [of "\<lambda>r. r = Inr _"] split: if_splits)

section \<open>Issued tokens\<close>

definition sort_claims :: "claims \<Rightarrow> claims" where
  "sort_claims c =
     c\<lparr>dc_iss := sort_json (dc_iss c), dc_sub := sort_json (dc_sub c), dc_scope := map sort_json (dc_scope c),
       dc_constraints := sort_dict (dc_constraints c), dc_audit_uri := sort_json (dc_audit_uri c)\<rparr>"

lemma claims_of_sorted: "claims_of_payload (sort_json (claims_dict c)) = Inr (sort_claims c)"
proof -
  define kvs where "kvs = [(''iss'', dc_iss c), (''sub'', dc_sub c), (''scope'', JList (dc_scope c)),
            (''exp'', JInt (dc_exp c)), (''nbf'', JInt (dc_nbf c)), (''iat'', JInt (dc_iat c)),
            (''jti'', JStr (dc_jti c)), (''purpose'', JStr (dc_purpose c)),
            (''constraints'', JDict (dc_constraints c)), (''audit_uri'', dc_audit_uri c)]"
  have c: "claims_dict c = JDict kvs"
    by (simp add: claims_dict_def kvs_def)
  have "distinct (map fst kvs)"
    by (simp add: kvs_def)
  note look = sort_dict_lookup [OF this]
  have fields: "map_of kvs ''iss'' = Some (dc_iss c)" "map_of kvs ''sub'' = Some (dc_sub c)"
    "map_of kvs ''scope'' = Some (JList (dc_scope c))" "map_of kvs ''exp'' = Some (JInt (dc_exp c))"
    "map_of kvs ''nbf'' = Some (JInt (dc_nbf c))" "map_of kvs ''iat'' = Some (JInt (dc_iat c))"
    "map_of kvs ''jti'' = Some (JStr (dc_jti c))" "map_of kvs ''purpose'' = Some (JStr (dc_purpose c))"
    "map_of kvs ''constraints'' = Some (JDict (dc_constraints c))"
    "map_of kvs ''audit_uri'' = Some (dc_audit_uri c)"
    by (simp_all add: kvs_def)
  show ?thesis
    unfolding c sort_json_sort_dict claims_of_payload_def
    by (simp add: look fields sort_claims_def sort_json_sort_dict del: sort_json.simps(2))
qed

lemma claims_dict_normal:
  assumes "normal (dc_iss c)" and "normal (dc_sub c)" and "\<forall>v \<in> set (dc_scope c). normal v"
    and "normal (JDict (dc_constraints c))" and "normal (dc_audit_uri c)"
  shows "normal (claims_dict c)"
  using assms by (simp add: claims_dict_def)

lemma issue_claims_normal:
  "constraints = None \<or> normal (JDict (the constraints)) \<Longrightarrow>
    normal (claims_dict (issue_claims i d scope p constraints x a now uuid))"
  by (rule claims_dict_normal; cases constraints) (simp_all add: issue_claims_def)

lemma issue_claims_simps [simp]:
  "dc_exp (issue_claims i d scope p cs x a now uuid) = now + x"
  "dc_nbf (issue_claims i d scope p cs x a now uuid) = now"
  "dc_sub (issue_claims i d scope p cs x a now uuid) = JStr d"
  "dc_scope (issue_claims i d scope p cs x a now uuid) = map JStr scope"
  "dc_jti (issue_claims i d scope p cs x a now uuid) = ''tkn_'' @ uuid"
  "dc_iss (issue_claims i d scope p cs x a now uuid) = JStr (agent_id i)"
  by (simp_all add: issue_claims_def)

lemma sort_json_Strs [simp]: "map (sort_json \<circ> JStr) ss = map JStr ss"
  by simp

lemma issued_payload_typed:
  assumes "sort_json (claims_dict (issue_claims i d scope p cs x a now uuid)) = JDict kvs"
  shows "payload_typed kvs (now + x) now d scope"
proof -
  let ?c = "issue_claims i d scope p cs x a now uuid"
  obtain ds where ds: "claims_dict ?c = JDict ds" "distinct (map fst ds)"
    by (simp add: claims_dict_def)
  have look: "map_of kvs k = map_option sort_json (map_of ds k)" for k
    using sort_json_lookup [OF ds(2)] assms ds(1) by simp
  have "map_of ds ''exp'' = Some (JInt (now + x))" "map_of ds ''nbf'' = Some (JInt now)"
    "map_of ds ''sub'' = Some (JStr d)" "map_of ds ''scope'' = Some (JList (map JStr scope))"
    "\<exists>i. map_of ds ''iat'' = Some (JInt i)" "\<exists>v. map_of ds ''iss'' = Some v"
    "\<exists>v. map_of ds ''jti'' = Some v" "\<exists>v. map_of ds ''purpose'' = Some v"
    "map_of ds ''constraints'' = Some (JDict (dc_constraints ?c))"
    using ds(1) by (auto simp: claims_dict_def)
  then show ?thesis
    unfolding payload_typed_def look by (auto simp: sort_json_sort_dict simp del: sort_json.simps(2))
qed

definition tokens_of :: "keypair \<Rightarrow> claims set \<Rightarrow> bytes set" where
  "tokens_of kp S = (\<lambda>c. token_message kp (claims_dict c)) ` S"

interpretation signed_token: authentic
  "\<lambda>token. verify_token C token pk expected required manifest now" "\<lambda>m. \<exists>sig. ed_verify C pk sig m"
  "\<lambda>m c. \<exists>h payload. token_states m (h, payload) \<and> claims_of_payload payload = Inr c"
  "\<lambda>c. token_message kp (claims_dict c)" sort_claims "\<lambda>c. normal (claims_dict c)" "\<lambda>_. True" "(=)"
  for C pk expected required manifest now kp
proof unfold_locales
  fix token c
  assume "verify_token C token pk expected required manifest now = Inr c"
  then obtain h payload where "verify_compact C token pk = Inr (h, payload)" "claims_of_payload payload = Inr c"
    by (auto simp: verify_token_Inr)
  then show "\<exists>m. (\<exists>sig. ed_verify C pk sig m) \<and>
      (\<exists>h payload. token_states m (h, payload) \<and> claims_of_payload payload = Inr c)"
    using compact.accept_vouched by blast
next
  fix a c
  assume "normal (claims_dict a)"
    and "\<exists>h payload. token_states (token_message kp (claims_dict a)) (h, payload) \<and> claims_of_payload payload = Inr c"
  then have "claims_of_payload (sort_json (claims_dict a)) = Inr c"
    using token_message_states by blast
  then show "c = sort_claims a"
    by (simp add: claims_of_sorted)
qed

section \<open>Properties\<close>

lemma verify_issued:
  assumes "ed25519_correct C" and "wf_keypair C kp" and "constraints = None \<or> normal (JDict (the constraints))"
    and "\<And>r. required = Some r \<Longrightarrow> \<exists>s \<in> set scope. covers s r"
    and "\<And>content. manifest = Some content \<Longrightarrow> proper_manifest content
      \<and> (\<forall>s \<in> set scope. \<exists>d \<in> set (declared_names content). covers d s)"
  shows "let c = issue_claims i d scope p constraints x a now uuid;
      verdict = token_verdict (now + x) now d scope d required (map_option declared_names manifest) t
    in case verdict of
        None \<Rightarrow> verify_token C (sign_compact C (claims_dict c) kp) (kp_public kp) d required manifest t = Inr (sort_claims c)
      | Some cls \<Rightarrow> \<exists>msg. verify_token C (sign_compact C (claims_dict c) kp) (kp_public kp) d required manifest t
          = Inl (Exn cls msg)"
proof -
  let ?c = "issue_claims i d scope p constraints x a now uuid"
  obtain kvs where kvs: "sort_json (claims_dict ?c) = JDict kvs"
    by (simp add: claims_dict_def)
  have v: "verify_compact C (sign_compact C (claims_dict ?c) kp) (kp_public kp) = Inr (jws_header kp, JDict kvs)"
    using verify_sign_compact [OF assms(1,2) issue_claims_normal [OF assms(3)]] kvs by simp
  have "claims_of_payload (JDict kvs) = Inr (sort_claims ?c)"
    using claims_of_sorted [of ?c] kvs by simp
  then show ?thesis
    using verify_token_verdict [OF v issued_payload_typed [OF kvs], of manifest d required t] assms(5)
    by (simp add: Let_def split: option.splits)
qed

text \<open>C15: A token \<open>issue_token\<close> makes is accepted by \<open>verify_token\<close> exactly in its window: for its
  delegatee, a required scope it covers and a manifest that declares its scope, from the second of
  issue up to, and not including, the expiry; the claims come back as issued (the constraints with
  sorted keys). Before the window it raises \<open>TokenNotYetValid\<close>, after it \<open>TokenExpired\<close>.\<close>

theorem issued_token_window:
  assumes "ed25519_correct C" and "wf_keypair C kp" and "constraints = None \<or> normal (JDict (the constraints))"
    and "0 < x" and "x \<le> MAX_TTL_SECONDS"
    and "\<And>r. required = Some r \<Longrightarrow> \<exists>s \<in> set scope. covers s r"
    and "\<And>content. manifest = Some content \<Longrightarrow> proper_manifest content
      \<and> (\<forall>s \<in> set scope. \<exists>d \<in> set (declared_names content). covers d s)"
  shows "\<exists>token. issue_token C i kp d scope p constraints x a now uuid = Inr token
    \<and> (\<forall>t. now \<le> t \<and> t < now + x \<longrightarrow> verify_token C token (kp_public kp) d required manifest t
          = Inr (sort_claims (issue_claims i d scope p constraints x a now uuid)))
    \<and> (\<forall>t. now + x \<le> t \<longrightarrow>
          (\<exists>msg. verify_token C token (kp_public kp) d required manifest t = Inl (Exn TokenExpired msg)))
    \<and> (\<forall>t. t < now \<longrightarrow>
          (\<exists>msg. verify_token C token (kp_public kp) d required manifest t = Inl (Exn TokenNotYetValid msg)))"
proof -
  let ?c = "issue_claims i d scope p constraints x a now uuid"
  let ?token = "sign_compact C (claims_dict ?c) kp"
  let ?verdict = "token_verdict (now + x) now d scope d required (map_option declared_names manifest)"
  note verdict = verify_issued [where required = required and manifest = manifest, OF assms(1-3,6,7), where i = i and d = d and p = p and x = x and a = a and now = now and uuid = uuid, unfolded Let_def]
  have "verify_token C ?token (kp_public kp) d required manifest t = Inr (sort_claims ?c)"
    if "now \<le> t" "t < now + x" for t
  proof -
    have "?verdict t = None"
      using that assms(6,7) by (auto simp: token_verdict_def)
    then show ?thesis
      using verdict [where t = t] by simp
  qed
  moreover have "\<exists>msg. verify_token C ?token (kp_public kp) d required manifest t = Inl (Exn TokenExpired msg)"
    if "now + x \<le> t" for t
    using verdict [where t = t] that by (simp add: token_verdict_def)
  moreover have "\<exists>msg. verify_token C ?token (kp_public kp) d required manifest t = Inl (Exn TokenNotYetValid msg)"
    if "t < now" for t
    using verdict [where t = t] assms(4) that by (simp add: token_verdict_def)
  moreover have "issue_token C i kp d scope p constraints x a now uuid = Inr ?token"
    using assms(4,5) by (simp add: issue_token_def)
  ultimately show ?thesis by blast
qed

lemma toy_manifest_caps [simp]: "map cap_name (man_capabilities toy_manifest) = [''code.write'']"
  by (simp add: toy_manifest_def)

lemma toy_manifest_declares: "declared_names (manifest_content toy_manifest) = [''code.write'']"
  by (simp add: toy_manifest_def)

lemma issued_token_window_witness:
  "\<exists>token. issue_token toy_crypto toy_identity toy_keypair ''b'' [''code.write.python''] ''p'' None 60 None 100 ''0'' = Inr token
    \<and> (\<exists>msg. verify_token toy_crypto token (kp_public toy_keypair) ''b'' (Some ''code.write.python.x'')
          (Some (manifest_content toy_manifest)) 160 = Inl (Exn TokenExpired msg))"
proof -
  have cover: "covers ''code.write.python'' ''code.write.python.x''" "covers ''code.write'' ''code.write.python''"
    by (simp_all add: covers_def)
  have r: "\<exists>s \<in> set [''code.write.python'']. covers s r" if "Some ''code.write.python.x'' = Some r" for r
    using cover(1) that by simp
  have m: "proper_manifest content \<and> (\<forall>s \<in> set [''code.write.python'']. \<exists>d \<in> set (declared_names content). covers d s)"
    if "Some (manifest_content toy_manifest) = Some content" for content
    using cover(2) that toy_manifest_declares manifest_content_proper(1) [of toy_manifest] by fastforce
  have x: "(60 :: int) \<le> MAX_TTL_SECONDS"
    by (simp add: MAX_TTL_SECONDS_def)
  obtain token where t: "issue_token toy_crypto toy_identity toy_keypair ''b'' [''code.write.python''] ''p'' None 60 None 100 ''0'' = Inr token"
    and e: "\<forall>t. 100 + 60 \<le> t \<longrightarrow> (\<exists>msg. verify_token toy_crypto token (kp_public toy_keypair) ''b''
      (Some ''code.write.python.x'') (Some (manifest_content toy_manifest)) t = Inl (Exn TokenExpired msg))"
    using issued_token_window [OF toy_crypto_ok(1) toy_keypair_wf disjI1 [OF refl] _ x,
        where required = "Some ''code.write.python.x''" and scope = "[''code.write.python'']"
        and manifest = "Some (manifest_content toy_manifest)" and i = toy_identity and d = "''b''" and p = "''p''" and a = None and now = 100 and uuid = "''0''"] r m
    by auto
  show ?thesis
    using t e [rule_format, of 160] by auto
qed

text \<open>What an accepted token guarantees, whatever its payload holds: the signature verified, the
  subject is the expected one, now lies between the not-before time and the expiry (strictly before
  an integer expiry), some scope entry covers the required capability, and the manifest declares
  every scope entry.\<close>

theorem accepted_token_sound:
  assumes "verify_token C token pk expected required manifest now = Inr c"
  shows "(\<exists>h payload. verify_compact C token pk = Inr (h, payload)
      \<and> (\<forall>x. py_index payload ''exp'' = Inr (JInt x) \<longrightarrow> now < x))
    \<and> dc_sub c = JStr expected \<and> dc_nbf c \<le> now \<and> now \<le> dc_exp c
    \<and> (\<forall>r. required = Some r \<longrightarrow> (\<exists>s. JStr s \<in> set (dc_scope c) \<and> covers s r))
    \<and> (\<forall>content. manifest = Some content \<longrightarrow>
         (\<forall>s \<in> set (dc_scope c). manifest_has_capability content s = Inr True))"
proof -
  obtain h payload where v: "verify_compact C token pk = Inr (h, payload)"
    and ok: "check_lifetime payload now = Inr ()" "check_subject payload expected = Inr ()"
      "check_scope payload required = Inr ()" "check_declared payload manifest = Inr ()"
      "claims_of_payload payload = Inr c"
    using assms by (auto simp: verify_token_Inr)
  have "dc_sub c = JStr expected"
    using ok(2) claims_of_payload_fields(4) [OF ok(5)] by (simp add: check_subject_Inr)
  moreover have "\<forall>x. py_index payload ''exp'' = Inr (JInt x) \<longrightarrow> now < x"
    using ok(1) by (auto simp: check_lifetime_Inr)
  ultimately show ?thesis
    using v verify_token_lifetime [OF ok(1,5)] verify_token_scope [OF _ ok(5)] ok(3,4)
      verify_token_declared [OF _ ok(5)] by blast
qed

text \<open>A token that the witnesses verify: issued at second 100 for a minute.\<close>

definition toy_claims :: claims where
  "toy_claims = issue_claims toy_identity ''b'' [''code.write.python''] ''p'' None 60 None 100 ''0''"

definition toy_token :: string where
  "toy_token = sign_compact toy_crypto (claims_dict toy_claims) toy_keypair"

lemma toy_token_accepted:
  assumes "ed_verify C pk (ed_sign C (kp_private toy_keypair) (token_message toy_keypair (claims_dict toy_claims)))
      (token_message toy_keypair (claims_dict toy_claims))"
  shows "verify_token C (sign_compact C (claims_dict toy_claims) toy_keypair) pk ''b'' (Some ''code.write.python'')
    (Some (manifest_content toy_manifest)) 110 = Inr (sort_claims toy_claims)"
proof -
  obtain kvs where kvs: "sort_json (claims_dict toy_claims) = JDict kvs"
    by (simp add: claims_dict_def)
  have n: "normal (claims_dict toy_claims)"
    unfolding toy_claims_def by (rule issue_claims_normal) simp
  have t: "payload_typed kvs 160 100 ''b'' [''code.write.python'']"
    using issued_payload_typed [OF kvs [unfolded toy_claims_def]] by simp
  have "token_verdict 160 100 ''b'' [''code.write.python''] ''b'' (Some ''code.write.python'')
      (Some [''code.write'']) 110 = None"
    by (simp add: token_verdict_def covers_def)
  then show ?thesis
    using verify_token_verdict [OF _ t, of C _ pk _ "Some (manifest_content toy_manifest)" "''b''"
        "Some ''code.write.python''" 110] verify_sign_compact_with [OF assms n] kvs claims_of_sorted [of toy_claims]
    by (simp add: toy_manifest_caps)
qed

lemma toy_token_ok: "verify_token toy_crypto toy_token (kp_public toy_keypair) ''b'' (Some ''code.write.python'')
    (Some (manifest_content toy_manifest)) 110 = Inr (sort_claims toy_claims)"
  unfolding toy_token_def
  by (rule toy_token_accepted) (rule ed_verify_own [OF toy_crypto_ok(1) toy_keypair_wf])

lemma accepted_token_sound_witness:
  "dc_nbf (sort_claims toy_claims) \<le> 110 \<and> 110 \<le> dc_exp (sort_claims toy_claims)"
  using accepted_token_sound [OF toy_token_ok] by blast

text \<open>C11: No escalation: when a token is accepted for a required capability against the delegator's
  manifest, the manifest itself declares that capability, so a delegator cannot grant what it
  does not have, however the scope is written.\<close>

theorem no_scope_escalation:
  assumes "verify_token C token pk expected (Some r) (Some content) now = Inr c" and "proper_manifest content"
  shows "manifest_has_capability content (JStr r) = Inr True"
proof -
  obtain payload where ok: "check_scope payload (Some r) = Inr ()" "check_declared payload (Some content) = Inr ()"
      "claims_of_payload payload = Inr c"
    using assms(1) by (auto simp: verify_token_Inr)
  obtain s where "JStr s \<in> set (dc_scope c)" "covers s r"
    using verify_token_scope [OF ok(1,3)] by blast
  then show ?thesis
    using verify_token_declared [OF ok(2,3)] manifest_test.test_down [OF assms(2)] by blast
qed

lemma no_scope_escalation_witness:
  "manifest_has_capability (manifest_content toy_manifest) (JStr ''code.write.python'') = Inr True"
  by (rule no_scope_escalation [OF toy_token_ok]) simp

text \<open>C13: On a signed payload with values of the documented types, \<open>verify_token\<close> makes exactly the
  decision of \<open>token_verdict\<close>: expiry first, then not-before, then the subject, the required scope
  and the manifest, each refusal with its own exception class, and otherwise claims that repeat the
  payload, all ten of them: token id and purpose as text, no constraints and no audit address where
  the payload has none.\<close>

theorem token_decision:
  assumes "verify_compact C token pk = Inr (h, JDict kvs)" and "payload_typed kvs x n sub scope"
    and "\<And>content. manifest = Some content \<Longrightarrow> proper_manifest content"
  shows "case token_verdict x n sub scope expected required (map_option declared_names manifest) now of
      None \<Rightarrow> \<exists>c. verify_token C token pk expected required manifest now = Inr c \<and> dc_exp c = x
        \<and> dc_nbf c = n \<and> dc_sub c = JStr sub \<and> dc_scope c = map JStr scope
        \<and> map_of kvs ''iss'' = Some (dc_iss c) \<and> map_of kvs ''iat'' = Some (JInt (dc_iat c))
        \<and> map_option py_str (map_of kvs ''jti'') = Some (dc_jti c)
        \<and> map_option py_str (map_of kvs ''purpose'') = Some (dc_purpose c)
        \<and> dc_constraints c = (case map_of kvs ''constraints'' of Some (JDict d) \<Rightarrow> d | _ \<Rightarrow> [])
        \<and> dc_audit_uri c = (case map_of kvs ''audit_uri'' of None \<Rightarrow> JNull | Some u \<Rightarrow> u)
    | Some cls \<Rightarrow> \<exists>msg. verify_token C token pk expected required manifest now = Inl (Exn cls msg)"
  using verify_token_verdict [OF assms(1,2), where manifest = manifest and expected = expected and required = required and now = now]
    claims_typed [OF assms(2)] assms(3)
  by (cases "token_verdict x n sub scope expected required (map_option declared_names manifest) now") simp_all

lemma token_decision_witness:
  "(\<exists>msg. verify_token toy_crypto toy_token (kp_public toy_keypair) ''mallory'' None None 110
     = Inl (Exn TokenInsufficientScope msg))
   \<and> (\<exists>c. verify_token toy_crypto toy_token (kp_public toy_keypair) ''b'' (Some ''code.write.python'') None 110 = Inr c
        \<and> dc_exp c = 160 \<and> dc_scope c = [JStr ''code.write.python''])"
proof -
  obtain kvs where kvs: "sort_json (claims_dict toy_claims) = JDict kvs"
    by (simp add: claims_dict_def)
  have n: "normal (claims_dict toy_claims)"
    unfolding toy_claims_def by (rule issue_claims_normal) simp
  have t: "payload_typed kvs 160 100 ''b'' [''code.write.python'']"
    using issued_payload_typed [OF kvs [unfolded toy_claims_def]] by simp
  have v: "verify_compact toy_crypto toy_token (kp_public toy_keypair) = Inr (jws_header toy_keypair, JDict kvs)"
    using verify_sign_compact [OF toy_crypto_ok(1) toy_keypair_wf n] kvs by (simp add: toy_token_def)
  show ?thesis
    using token_decision [OF v t, of None "''mallory''" None 110]
      token_decision [OF v t, of None "''b''" "Some ''code.write.python''" 110]
    by (auto simp: token_verdict_def covers_def)
qed

text \<open>\<open>issue_token\<close> succeeds exactly for a lifetime of 1 to 86400 seconds and otherwise raises
  \<open>ValueError\<close> with the offending value.\<close>

theorem issue_token_bounds:
  "(\<exists>token. issue_token C i kp d scope p constraints x a now uuid = Inr token) = (0 < x \<and> x \<le> 86400)
   \<and> (x \<notin> {1..86400} \<longrightarrow> issue_token C i kp d scope p constraints x a now uuid
        = Inl (Exn ValueError (''expires_in must be in (0, 86400]; got '' @ int_str x)))"
proof -
  have m: "int_str MAX_TTL_SECONDS = ''86400''"
    by (simp add: MAX_TTL_SECONDS_def int_str_def nat_str.simps digit_char_def char_of_eq_iff take_bit_eq_mod)
  have r: "expires \<le> 0 \<or> MAX_TTL_SECONDS < expires \<longleftrightarrow> \<not> (0 < expires \<and> expires \<le> 86400)" for expires
    by (auto simp: MAX_TTL_SECONDS_def)
  show ?thesis
    unfolding issue_token_def m r by (cases "0 < x \<and> x \<le> 86400") (auto simp: raise_def)
qed

lemma issue_token_bounds_witness:
  "issue_token toy_crypto toy_identity toy_keypair ''b'' [] ''p'' None 86401 None 100 ''0''
     = Inl (Exn ValueError (''expires_in must be in (0, 86400]; got '' @ int_str 86401))"
  using issue_token_bounds [of toy_crypto toy_identity toy_keypair "''b''" "[]" "''p''" None 86401 None 100 "''0''"]
  by auto



text \<open>C39: Where the exceptions of \<open>verify_token\<close> come from: everything that goes wrong up to the
  signature check, a malformed token included, is \<open>TokenInvalidSignature\<close>; but a properly signed
  token without an expiry raises \<open>KeyError\<close>, which no \<open>except ATFError\<close> clause catches.\<close>

theorem verify_token_exceptions:
  "(\<forall>e. verify_compact C token pk = Inl e \<longrightarrow>
      verify_token C token pk expected required manifest now = Inl (Exn TokenInvalidSignature (str_exn e)))
   \<and> (\<forall>h kvs. verify_compact C token pk = Inr (h, JDict kvs) \<and> map_of kvs ''exp'' = None \<longrightarrow>
        verify_token C token pk expected required manifest now = Inl (Exn KeyError (str_repr ''exp'')))
   \<and> is_a TokenInvalidSignature ATFError \<and> \<not> is_a KeyError ATFError"
  by (simp add: verify_token_def reraise_def check_lifetime_def raise_def is_a_ATFError atf_classes_def)

lemma verify_token_exceptions_witness:
  "verify_token toy_crypto (sign_compact toy_crypto (JDict []) toy_keypair) (kp_public toy_keypair) ''b'' None None 0
     = Inl (Exn KeyError (str_repr ''exp''))"
proof -
  have "verify_compact toy_crypto (sign_compact toy_crypto (JDict []) toy_keypair) (kp_public toy_keypair)
      = Inr (jws_header toy_keypair, JDict [])"
    using verify_sign_compact [OF toy_crypto_ok(1) toy_keypair_wf, of "JDict []"] by simp
  then show ?thesis
    using verify_token_exceptions [of toy_crypto "sign_compact toy_crypto (JDict []) toy_keypair" "kp_public toy_keypair"
        "''b''" None None 0] by simp
qed

end
