(* ===== verification/Atf_Indent.thy ===== *)
theory Atf_Indent
  imports Atf_Roundtrip
begin

text \<open>
  The indented form of JSON text, \<open>json.dumps(v, indent=2)\<close>, which the agent writes its manifest in
  and the command line prints, and the theorem that \<open>json.loads\<close> reads it back.
\<close>

definition newline :: "nat \<Rightarrow> string" where
  "newline depth = char_of (10 :: nat) # replicate (2 * depth) (CHR '' '')"

fun render_indent :: "bool \<Rightarrow> nat \<Rightarrow> json \<Rightarrow> string" where
  "render_indent a d (JList xs) =
     (if xs = [] then ''[]''
      else ''['' @ newline (Suc d)
        @ join ('','' @ newline (Suc d)) (map (render_indent a (Suc d)) xs) @ newline d @ '']'')"
| "render_indent a d (JDict kvs) =
     (if kvs = [] then ''{}''
      else ''{'' @ newline (Suc d)
        @ join ('','' @ newline (Suc d))
            (map (\<lambda>p. quote a (fst p) @ '': '' @ render_indent a (Suc d) (snd p)) kvs) @ newline d @ ''}'')"
| "render_indent a d v = render a v"

lemma newline_ws: "list_all is_ws (newline d)"
  by (auto simp: newline_def is_ws_def list_all_iff)

lemma space_ws: "list_all is_ws '' ''"
  by (simp add: is_ws_def)

lemma render_indent_starts: "starts_value (render_indent a d v)"
  using render_starts [of a v] by (cases v) (auto simp: starts_value_def is_ws_def)

lemma render_indent_members:
  "kvs \<noteq> [] \<Longrightarrow> render_indent a d (JDict kvs) =
     ''{'' @ newline (Suc d) @ join (CHR '','' # newline (Suc d)) (map (member_text a '' '' (render_indent a (Suc d))) kvs)
       @ newline d @ ''}''"
  by (simp add: member_text_def cong: map_cong)

lemma scan_once_indent:
  "normal v \<Longrightarrow> stops r \<Longrightarrow> 2 * length (render_indent a d v) + 1 \<le> f \<Longrightarrow>
     scan_once f (render_indent a d v @ r) = Some (v, r)"
proof (induction v arbitrary: f r d rule: json_induct)
  case (List xs)
  show ?case
  proof (cases "xs = []")
    case True
    then show ?thesis
      using List.prems(3) by (cases f) simp_all
  next
    case False
    let ?w = "newline (Suc d)"
    define t where "t = join (CHR '','' # ?w) (map (render_indent a (Suc d)) xs)"
    obtain f' where f: "f = Suc f'" "2 * length t + 2 \<le> f'"
      using List.prems(3) False by (cases f) (auto simp: t_def)
    have "starts_value t"
      using False render_indent_starts starts_value_join unfolding t_def by (cases xs) simp_all
    then obtain e es where "t = e # es" "e \<noteq> CHR '']''" "skip_ws (t @ newline d @ CHR '']'' # r) = t @ newline d @ CHR '']'' # r"
      by (rule starts_value_Cons)
    moreover have "scan_elems f' (t @ newline d @ CHR '']'' # r) = Some (xs, r)"
      unfolding t_def
      by (rule scan_elems_join) (use List False f render_indent_starts newline_ws in \<open>auto simp: t_def\<close>)
    ultimately show ?thesis
      using False by (simp add: f t_def [symmetric] skip_ws_all [OF newline_ws])
  qed
next
  case (Dict kvs)
  show ?case
  proof (cases "kvs = []")
    case True
    then show ?thesis
      using Dict.prems(3) by (cases f) simp_all
  next
    case False
    let ?w = "newline (Suc d)" and ?g = "render_indent a (Suc d)"
    define t where "t = join (CHR '','' # ?w) (map (member_text a '' '' ?g) kvs)"
    have render: "render_indent a d (JDict kvs) = ''{'' @ ?w @ t @ newline d @ ''}''"
      unfolding t_def by (rule render_indent_members [OF False])
    obtain f' where f: "f = Suc f'" "2 * length t + 2 \<le> f'"
      using Dict.prems(3) unfolding render by (cases f) auto
    have "starts_value t"
      using False member_text_starts starts_value_join unfolding t_def by (cases kvs) simp_all
    then obtain e es where "t = e # es" "e \<noteq> CHR ''}''" "skip_ws (t @ newline d @ CHR ''}'' # r) = t @ newline d @ CHR ''}'' # r"
      by (rule starts_value_Cons)
    moreover have "scan_members f' [] (t @ newline d @ CHR ''}'' # r) = Some ([] @ kvs, r)"
      unfolding t_def
    proof (rule scan_members_join)
      fix p f r
      assume "p \<in> set kvs" "stops r" "2 * length (?g (snd p)) + 1 \<le> f"
      then show "scan_once f (?g (snd p) @ r) = Some (snd p, r)"
        using Dict.IH [of "fst p" "snd p"] Dict.prems(1) by simp
    qed (use False f Dict.prems render_indent_starts newline_ws space_ws in \<open>auto simp: t_def\<close>)
    ultimately show ?thesis
      unfolding render by (simp add: f skip_ws_all [OF newline_ws])
  qed
qed (simp_all only: render_indent.simps scan_once_render)

theorem loads_render_indent: "normal v \<Longrightarrow> loads (render_indent a d v) = Inr v"
  using scan_once_indent [of v "[]" a d "2 * length (render_indent a d v) + 1"] skip_ws_start [OF render_indent_starts, of a d v "[]"]
  by (simp add: loads_def)

end
