(* ===== verification/Atf_Agent.thy ===== *)
theory Atf_Agent
  imports Atf_Audit_Claims Atf_Delegation Atf_Indent
begin

text \<open>
  \<open>reference/py/src/atf/agent.py\<close>: the agent that composes identity, manifest, tokens, outcomes and
  the audit log. Its state is the record \<open>agent\<close>; the files of its data directory, the SQLite log
  among them, are the record \<open>data_dir\<close> inside it. Clock readings and fresh identifiers are
  arguments, in the order the code takes them. Which directory it is, is chosen in \<open>Atf_Tool\<close>.
\<close>

section \<open>State\<close>

record peer_record =
  pr_agent_id :: string
  pr_public_key :: bytes
  pr_manifest_content :: json

text \<open>\<open>private.pem\<close>, \<open>manifest.json\<close> and \<open>audit.sqlite\<close>.\<close>

record data_dir =
  dir_key :: "bytes option"
  dir_manifest :: "string option"
  dir_log :: audit_log

record agent =
  ag_identity :: identity
  ag_keypair :: keypair
  ag_data_dir :: data_dir
  ag_manifest_envelope :: "json option"
  ag_peers :: "string \<Rightarrow> peer_record option"

definition ag_id :: "agent \<Rightarrow> string" where
  "ag_id a = agent_id (ag_identity a)"

abbreviation ag_log :: "agent \<Rightarrow> audit_log" where
  "ag_log a \<equiv> dir_log (ag_data_dir a)"

definition set_log :: "audit_log \<Rightarrow> agent \<Rightarrow> agent" where
  "set_log log a = a\<lparr>ag_data_dir := (ag_data_dir a)\<lparr>dir_log := log\<rparr>\<rparr>"

section \<open>Construction\<close>

definition create :: "crypto \<Rightarrow> string \<Rightarrow> string \<Rightarrow> string \<Rightarrow> data_dir \<Rightarrow> bytes \<Rightarrow> agent res" where
  "create C nam ownr kid dir fresh =
     bind_res
       (case dir_key dir of
          Some pem \<Rightarrow> bind_res (from_pem C pem kid) (\<lambda>kp. Inr (kp, dir))
        | None \<Rightarrow>
            (let kp = generate C kid fresh in Inr (kp, dir\<lparr>dir_key := Some (private_pem C kp)\<rparr>)))
       (\<lambda>(kp, dir').
          let ident = \<lparr>id_owner = ownr, id_name = nam, id_keypair = kp, id_attestations = [],
                id_manifest_uri = None\<rparr>;
              a = \<lparr>ag_identity = ident, ag_keypair = kp, ag_data_dir = dir', ag_manifest_envelope = None,
                ag_peers = (\<lambda>_. None)\<rparr>
          in case dir_manifest dir' of
               None \<Rightarrow> Inr a
             | Some text \<Rightarrow> bind_res (loads text) (\<lambda>env. Inr (a\<lparr>ag_manifest_envelope := Some env\<rparr>)))"

section \<open>Manifest\<close>

datatype capability_arg = CapName string | CapObject capability

definition capability_of :: "capability_arg \<Rightarrow> capability" where
  "capability_of c =
     (case c of
        CapName n \<Rightarrow> \<lparr>cap_name = n, cap_description = [], cap_metadata = []\<rparr>
      | CapObject cap \<Rightarrow> cap)"

definition publish_manifest ::
  "crypto \<Rightarrow> agent \<Rightarrow> capability_arg list \<Rightarrow> string \<Rightarrow> string \<Rightarrow> json \<times> agent"
where
  "publish_manifest C a capabilities version description =
     (let m = \<lparr>man_agent_id = ag_id a, man_version = version,
            man_capabilities = map capability_of capabilities, man_evidence = [],
            man_description = description, man_homepage = None\<rparr>;
          envelope = sign_manifest C m (ag_keypair a)
      in (envelope,
          a\<lparr>ag_manifest_envelope := Some envelope,
            ag_data_dir := (ag_data_dir a)\<lparr>dir_manifest := Some (render_indent False 0 (sort_json envelope))\<rparr>\<rparr>))"

text \<open>\<open>self.manifest_envelope["manifest"] if self.manifest_envelope else None\<close>\<close>

definition own_manifest_content :: "agent \<Rightarrow> json res" where
  "own_manifest_content a =
     (case ag_manifest_envelope a of
        None \<Rightarrow> Inr JNull
      | Some env \<Rightarrow> if py_true env then py_index env ''manifest'' else Inr JNull)"

section \<open>Peers\<close>

definition register_peer ::
  "crypto \<Rightarrow> agent \<Rightarrow> string \<Rightarrow> json option \<Rightarrow> bytes option \<Rightarrow> json \<Rightarrow> (peer_record \<times> agent) res"
where
  "register_peer C a peer_id jwk public_key manifest_envelope =
     bind_res
       (case public_key of
          Some pk \<Rightarrow> Inr pk
        | None \<Rightarrow>
            (case jwk of
               None \<Rightarrow> raise ATFError ''must provide either jwk or public_key''
             | Some k \<Rightarrow> public_key_from_jwk C k))
       (\<lambda>pk.
     bind_res
       (rewrap (\<lambda>e. if is_a (exn_cls e) ManifestInvalidSignature
                 then Exn ATFError (''peer manifest signature invalid: '' @ str_exn e) else e)
         (verify_manifest C manifest_envelope pk))
       (\<lambda>content.
     bind_res (py_index content ''agent_id'') (\<lambda>declared.
       if \<not> py_eq declared (JStr peer_id)
       then raise ATFError (''manifest agent_id '' @ py_repr declared @ '' != registered '' @ str_repr peer_id)
       else
         let p = \<lparr>pr_agent_id = peer_id, pr_public_key = pk, pr_manifest_content = content\<rparr>
         in Inr (p, a\<lparr>ag_peers := (ag_peers a)(peer_id \<mapsto> p)\<rparr>))))"

text \<open>\<open>self.peers[agent_id]\<close>, where the id may be any value of a token or a request.\<close>

definition find_peer :: "agent \<Rightarrow> json \<Rightarrow> peer_record res" where
  "find_peer a peer_id =
     bind_res (hashed peer_id) (\<lambda>_.
       case (case peer_id of JStr s \<Rightarrow> ag_peers a s | _ \<Rightarrow> None) of
         Some p \<Rightarrow> Inr p
       | None \<Rightarrow> raise ATFError (''unknown peer '' @ py_repr peer_id @ ''; call register_peer first''))"

section \<open>Delegation\<close>

text \<open>A new event: its random id and time stamp are given.\<close>

definition new_event ::
  "string \<Rightarrow> json \<Rightarrow> json \<Rightarrow> json \<Rightarrow> dict \<Rightarrow> string \<Rightarrow> int \<Rightarrow> audit_event"
where
  "new_event ty jti delegator delegatee flds uuid now =
     \<lparr>ev_type = JStr ty, ev_token_jti = jti, ev_delegator_id = delegator, ev_delegatee_id = delegatee,
      ev_fields = flds, ev_event_id = JStr (''evt_'' @ uuid), ev_ts = now\<rparr>"

definition journal :: "crypto \<Rightarrow> agent \<Rightarrow> audit_event \<Rightarrow> agent res" where
  "journal C a ev =
     bind_res (append_self C (ag_log a) ev (ag_keypair a) (ag_id a)) (\<lambda>(rcd, log). Inr (set_log log a))"

text \<open>\<open>_, payload_b, _ = token.split("."); json.loads(b64url_decode(payload_b))\<close>, for payloads that nest
  less deeply than the interpreter's recursion limit; beyond it \<open>json.loads\<close> raises
  \<open>RecursionError\<close>, and where that is depends on the interpreter and on the calls already made.\<close>

definition peek_payload :: "string \<Rightarrow> json res" where
  "peek_payload token =
     (case split_on (CHR ''.'') token of
        [_, payload_b, _] \<Rightarrow> bind_res (b64url_decode payload_b) loads_bytes
      | _ \<Rightarrow> raise ValueError ''wrong number of values to unpack (expected 3)'')"

definition check_own_manifest :: "agent \<Rightarrow> string list \<Rightarrow> unit res" where
  "check_own_manifest a scope =
     (case ag_manifest_envelope a of
        None \<Rightarrow> Inr ()
      | Some _ \<Rightarrow>
          bind_res (own_manifest_content a) (\<lambda>content.
            each_res (\<lambda>s.
              bind_res (manifest_has_capability content (JStr s)) (\<lambda>declared.
                if \<not> declared
                then raise ATFError (''cannot delegate '' @ str_repr s @ '': not in own manifest'')
                else Inr ())) scope))"

definition issue_delegation ::
  "crypto \<Rightarrow> agent \<Rightarrow> string \<Rightarrow> string list \<Rightarrow> string \<Rightarrow> dict option \<Rightarrow> int
    \<Rightarrow> int \<Rightarrow> string \<Rightarrow> string \<Rightarrow> int \<Rightarrow> (string \<times> agent) res"
where
  "issue_delegation C a to scope purpose constraints expires_in now token_uuid event_uuid event_now =
     bind_res (check_own_manifest a scope) (\<lambda>_.
     bind_res (issue_token C (ag_identity a) (ag_keypair a) to scope purpose constraints expires_in
         (Some (''local://'' @ ag_id a)) now token_uuid) (\<lambda>token.
     bind_res (bind_res (peek_payload token) (\<lambda>p. py_index p ''jti'')) (\<lambda>jti.
     bind_res
       (journal C a (new_event ''delegation.issued'' jti (JStr (ag_id a)) (JStr to)
          [(''scope'', JList (map JStr scope)), (''purpose'', JStr purpose)] event_uuid event_now))
       (\<lambda>a'. Inr (token, a')))))"

text \<open>Whether a stored event is a delegation with this token that was started or completed.\<close>

definition uses_jti :: "json \<Rightarrow> json \<Rightarrow> bool res" where
  "uses_jti jti e =
     bind_res (py_index e ''content'') (\<lambda>c.
     bind_res (py_get c ''token_jti'') (\<lambda>j.
       if \<not> py_eq j jti then Inr False
       else
         bind_res (bind_res (bind_res (py_index e ''content'') (\<lambda>c. py_get c ''type'')) hashed)
           (\<lambda>ty. Inr (ty \<in> {JStr ''delegation.started'', JStr ''delegation.completed''}))))"

fun filter_res :: "('a \<Rightarrow> bool res) \<Rightarrow> 'a list \<Rightarrow> 'a list res" where
  "filter_res f [] = Inr []"
| "filter_res f (x # xs) =
     bind_res (f x) (\<lambda>b. bind_res (filter_res f xs) (\<lambda>ys. Inr (if b then x # ys else ys)))"

text \<open>The replay test: the events that used the token before.\<close>

definition prior_uses :: "agent \<Rightarrow> json \<Rightarrow> json list res" where
  "prior_uses a jti =
     bind_res (has_jti (ag_log a) jti) (\<lambda>seen.
       if seen then bind_res (all_events (ag_log a)) (filter_res (uses_jti jti)) else Inr [])"

text \<open>The state may change even when the call raises: the replay attempt is journalled.\<close>

definition verify_delegation ::
  "crypto \<Rightarrow> agent \<Rightarrow> string \<Rightarrow> string \<Rightarrow> string \<Rightarrow> int \<Rightarrow> agent \<times> claims res"
where
  "verify_delegation C a token required_scope uuid now =
     (let before =
        bind_res (bind_res (peek_payload token) (\<lambda>p. py_index p ''iss'')) (\<lambda>iss.
        bind_res (find_peer a iss) (\<lambda>p.
        bind_res (bind_res (peek_payload token) (\<lambda>p. py_index p ''jti'')) (\<lambda>jti.
        bind_res (prior_uses a jti) (\<lambda>existing. Inr (iss, p, jti, existing)))))
      in case before of
           Inl e \<Rightarrow> (a, Inl e)
         | Inr (iss, p, jti, existing) \<Rightarrow>
             if existing \<noteq> [] then
               (case journal C a (new_event ''delegation.replay_attempt'' jti iss (JStr (ag_id a)) [] uuid now) of
                  Inl e \<Rightarrow> (a, Inl e)
                | Inr a' \<Rightarrow> (a', raise TokenReplay (''jti '' @ py_repr jti @ '' already used'')))
             else
               (a, verify_token C token (pr_public_key p) (ag_id a) (Some required_scope)
                     (Some (pr_manifest_content p)) now))"

section \<open>Outcomes and completion\<close>

definition make_outcome ::
  "crypto \<Rightarrow> agent \<Rightarrow> string \<Rightarrow> string \<Rightarrow> json \<Rightarrow> string \<Rightarrow> string option \<Rightarrow> int \<Rightarrow> json"
where
  "make_outcome C a jti status payload schema_id reason now =
     sign_outcome C
       \<lparr>out_token_jti = JStr jti, out_status = JStr status, out_payload = payload,
        out_schema_id = JStr schema_id, out_executed_at = JInt now, out_reason = opt_str reason\<rparr>
       (ag_keypair a) (ag_id a)"

definition verify_outcome_envelope :: "crypto \<Rightarrow> agent \<Rightarrow> json \<Rightarrow> string \<Rightarrow> string option \<Rightarrow> json res" where
  "verify_outcome_envelope C a env from_peer expected =
     bind_res (find_peer a (JStr from_peer)) (\<lambda>p. verify_outcome C env (pr_public_key p) expected)"

definition build_completion_event :: "claims \<Rightarrow> json \<Rightarrow> string \<Rightarrow> int \<Rightarrow> audit_event res" where
  "build_completion_event c env uuid now =
     bind_res (py_index env ''outcome'') (\<lambda>content.
     bind_res (py_index content ''status'') (\<lambda>status.
     bind_res (py_index content ''payload_hash'') (\<lambda>h.
     bind_res (py_index content ''schema_id'') (\<lambda>schema.
       Inr (new_event
         (if py_eq status (JStr ''ok'') then ''delegation.completed'' else ''delegation.failed'')
         (JStr (dc_jti c)) (dc_iss c) (dc_sub c)
         [(''purpose'', JStr (dc_purpose c)), (''scope'', JList (dc_scope c)), (''status'', status),
          (''outcome_hash'', h), (''schema_id'', schema)] uuid now)))))"

end
