(* ===== verification/Atf_Wire.thy ===== *)
theory Atf_Wire
  imports Atf_Agent
begin

text \<open>
  \<open>reference/py/src/atf/wire.py\<close>: the endpoints of the delegatee's HTTP server and the delegator's
  client. An endpoint is a function from the agent and the request to the agent afterwards and a
  reply. \<open>POST /atf/v1/invoke\<close> has one point where the event loop may run other requests, the
  \<open>await\<close> of the handler, so it is two functions: \<open>invoke_begin\<close> up to the call of the handler
  and \<open>invoke_finish\<close> from its result on. FastAPI, httpx and the registered handlers are not in
  the repository: a request is its token header and its body's bytes, a handler is a parameter.
\<close>

section \<open>Replies\<close>

text \<open>
  What an endpoint does: it returns a value, raises \<open>HTTPException(status_code, detail)\<close>, or lets
  another exception escape, which the framework answers with status 500.
\<close>

datatype 'a http = Reply 'a | HttpError nat string | Crash exn

definition of_res :: "'a res \<Rightarrow> 'a http" where
  "of_res r = (case r of Inl e \<Rightarrow> Crash e | Inr x \<Rightarrow> Reply x)"

definition bind_http :: "'a http \<Rightarrow> ('a \<Rightarrow> 'b http) \<Rightarrow> 'b http" where
  "bind_http r f = (case r of Reply x \<Rightarrow> f x | HttpError s m \<Rightarrow> HttpError s m | Crash e \<Rightarrow> Crash e)"

text \<open>A fresh identifier and the clock when it is drawn.\<close>

type_synonym tick = "string \<times> int"

text \<open>\<open>d.get(k)\<close> of a dict with string keys, where the key may be any hashable value.\<close>

definition lookup_key :: "(string \<Rightarrow> 'a option) \<Rightarrow> json \<Rightarrow> 'a option" where
  "lookup_key d k = (case k of JStr s \<Rightarrow> d s | _ \<Rightarrow> None)"

lemma lookup_key_Some: "lookup_key d k = Some x \<longleftrightarrow> (\<exists>s. k = JStr s \<and> d s = Some x)"
  by (cases k) (simp_all add: lookup_key_def)

lemma lookup_key_Str [simp]: "lookup_key d (JStr s) = d s"
  by (simp add: lookup_key_def)

section \<open>The server\<close>

text \<open>A handler returns a value, raises (the class name and the text of its exception), or returns an
  object that \<open>json.dumps\<close> refuses, as a \<open>set\<close> or an object that holds itself: then nothing of it
  matters but the exception that \<open>dumps\<close> raises.\<close>

datatype handler_result = Returned json | Raised string string | Undumpable exn

record handler_spec =
  hs_capability :: string
  hs_schema_id :: string
  hs_handler :: "json \<Rightarrow> handler_result"

type_synonym handlers = "string \<Rightarrow> handler_spec option"

definition serve_jwks :: "agent \<Rightarrow> json http" where
  "serve_jwks a = Reply (jwks (ag_identity a))"

definition serve_manifest :: "agent \<Rightarrow> json http" where
  "serve_manifest a =
     (case ag_manifest_envelope a of
        None \<Rightarrow> HttpError 404 ''manifest not published''
      | Some env \<Rightarrow> Reply env)"

text \<open>The request up to the handler's entry: token, action and specification.\<close>

definition read_invoke :: "handlers \<Rightarrow> string option \<Rightarrow> bytes \<Rightarrow> (string \<times> json \<times> handler_spec) http" where
  "read_invoke handlers token_header raw =
     (let token = (case token_header of None \<Rightarrow> [] | Some t \<Rightarrow> t) in
      if token = [] then HttpError 400 ''missing X-ATF-Token header''
      else
        bind_http (of_res (loads_bytes raw)) (\<lambda>body.
        bind_http
          (of_res (bind_res (py_get_or body ''payload'' (JDict [])) (\<lambda>p. py_get p ''action''))) (\<lambda>action.
          if \<not> py_true action then HttpError 400 ''missing payload.action''
          else
            bind_http (of_res (hashed action)) (\<lambda>_.
              case lookup_key handlers action of
                None \<Rightarrow> HttpError 404 (''unknown action '' @ py_repr action)
              | Some spec \<Rightarrow> Reply (token, body, spec)))))"

text \<open>The \<open>except\<close> clauses around \<open>verify_delegation\<close>, in their order.\<close>

definition delegation_refusal :: "exn \<Rightarrow> 'a http" where
  "delegation_refusal e =
     (if is_a (exn_cls e) TokenExpired then HttpError 401 (''token.expired: '' @ str_exn e)
      else if is_a (exn_cls e) TokenNotYetValid then HttpError 401 (''token.nbf: '' @ str_exn e)
      else if is_a (exn_cls e) TokenInvalidSignature
      then HttpError 401 (''token.invalid_signature: '' @ str_exn e)
      else if is_a (exn_cls e) TokenReplay then HttpError 409 (''token.replay: '' @ str_exn e)
      else if is_a (exn_cls e) TokenInsufficientScope
      then HttpError 403 (''token.insufficient_scope: '' @ str_exn e)
      else if is_a (exn_cls e) ATFError then HttpError 400 (str_exn e)
      else Crash e)"

text \<open>A request that waits for its handler.\<close>

record run =
  run_claims :: claims
  run_spec :: handler_spec
  run_params :: json
  run_request_id :: json

definition started_event :: "agent \<Rightarrow> claims \<Rightarrow> tick \<Rightarrow> audit_event" where
  "started_event a cl t =
     new_event ''delegation.started'' (JStr (dc_jti cl)) (dc_iss cl) (JStr (ag_id a))
       [(''scope'', JList (dc_scope cl))] (fst t) (snd t)"

definition start_run :: "json \<Rightarrow> claims \<Rightarrow> handler_spec \<Rightarrow> run res" where
  "start_run body cl spec =
     bind_res (bind_res (py_index body ''payload'') (\<lambda>p. py_get p ''params'')) (\<lambda>params.
     bind_res (py_get body ''request_id'') (\<lambda>rid.
       Inr \<lparr>run_claims = cl, run_spec = spec, run_params = or_empty params, run_request_id = rid\<rparr>))"

text \<open>The decision: the request is read and its token verified.\<close>

definition invoke_check ::
  "crypto \<Rightarrow> handlers \<Rightarrow> agent \<Rightarrow> string option \<Rightarrow> bytes \<Rightarrow> tick \<Rightarrow> agent \<times> (claims \<times> json \<times> handler_spec) http"
where
  "invoke_check C handlers a token_header raw t =
     (case read_invoke handlers token_header raw of
        HttpError s m \<Rightarrow> (a, HttpError s m)
      | Crash e \<Rightarrow> (a, Crash e)
      | Reply (token, body, spec) \<Rightarrow>
          (case verify_delegation C a token (hs_capability spec) (fst t) (snd t) of
             (a1, Inl e) \<Rightarrow> (a1, delegation_refusal e)
           | (a1, Inr cl) \<Rightarrow> (a1, Reply (cl, body, spec))))"

text \<open>The act: the start is recorded and the handler's arguments are taken from the body.\<close>

definition invoke_start ::
  "crypto \<Rightarrow> agent \<Rightarrow> claims \<Rightarrow> json \<Rightarrow> handler_spec \<Rightarrow> tick \<Rightarrow> agent \<times> run http"
where
  "invoke_start C a cl body spec t =
     (case journal C a (started_event a cl t) of
        Inl e \<Rightarrow> (a, Crash e)
      | Inr a' \<Rightarrow> (a', of_res (start_run body cl spec)))"

text \<open>Both run without an \<open>await\<close> in between, so within one process nothing else runs.\<close>

definition invoke_begin ::
  "crypto \<Rightarrow> handlers \<Rightarrow> agent \<Rightarrow> string option \<Rightarrow> bytes \<Rightarrow> tick \<Rightarrow> tick \<Rightarrow> agent \<times> run http"
where
  "invoke_begin C handlers a token_header raw t1 t2 =
     (case invoke_check C handlers a token_header raw t1 of
        (a1, HttpError s m) \<Rightarrow> (a1, HttpError s m)
      | (a1, Crash e) \<Rightarrow> (a1, Crash e)
      | (a1, Reply (cl, body, spec)) \<Rightarrow> invoke_start C a1 cl body spec t2)"

lemmas invoke_begin_defs = invoke_begin_def invoke_check_def invoke_start_def

text \<open>Status, payload and reason of the outcome, or what hashing the payload raises in \<open>make_outcome\<close>,
  which is outside the \<open>try\<close>.\<close>

definition handler_outcome :: "handler_result \<Rightarrow> (string \<times> json \<times> string option) res" where
  "handler_outcome r =
     (case r of
        Returned result \<Rightarrow> Inr (''ok'', result, None)
      | Raised cls msg \<Rightarrow>
          Inr (''error'', JDict [(''error'', JStr cls), (''message'', JStr msg)], Some msg)
      | Undumpable e \<Rightarrow> Inl e)"

definition invoke_reply :: "json \<Rightarrow> json \<Rightarrow> audit_event \<Rightarrow> json \<Rightarrow> json" where
  "invoke_reply request_id outcome_envelope ev my_sig =
     JDict [(''atf_version'', JStr ''0.1''), (''request_id'', request_id), (''outcome'', outcome_envelope),
            (''audit_event'', JDict [(''content'', event_content ev), (''signature'', my_sig)])]"

definition invoke_finish ::
  "crypto \<Rightarrow> agent \<Rightarrow> run \<Rightarrow> handler_result \<Rightarrow> int \<Rightarrow> tick \<Rightarrow> agent \<times> json http"
where
  "invoke_finish C a r result now t =
     (case handler_outcome result of
        Inl e \<Rightarrow> (a, Crash e)
      | Inr (status, payload, reason) \<Rightarrow>
          (let env = make_outcome C a (dc_jti (run_claims r)) status payload (hs_schema_id (run_spec r)) reason now
           in case build_completion_event (run_claims r) env (fst t) (snd t) of
                Inl e \<Rightarrow> (a, Crash e)
              | Inr ev \<Rightarrow>
                  (let my_sig = sign_only C ev (ag_keypair a) (ag_id a) in
                   case append_pending (ag_log a) ev my_sig of
                     Inl e \<Rightarrow> (a, Crash e)
                   | Inr (rcd, log) \<Rightarrow> (set_log log a, Reply (invoke_reply (run_request_id r) env ev my_sig)))))"

text \<open>The whole endpoint, when no other request runs in between.\<close>

definition invoke ::
  "crypto \<Rightarrow> handlers \<Rightarrow> agent \<Rightarrow> string option \<Rightarrow> bytes \<Rightarrow> tick \<Rightarrow> tick \<Rightarrow> int \<Rightarrow> tick \<Rightarrow> agent \<times> json http"
where
  "invoke C handlers a token_header raw t1 t2 now t3 =
     (case invoke_begin C handlers a token_header raw t1 t2 of
        (a1, HttpError s m) \<Rightarrow> (a1, HttpError s m)
      | (a1, Crash e) \<Rightarrow> (a1, Crash e)
      | (a1, Reply r) \<Rightarrow> invoke_finish C a1 r (hs_handler (run_spec r) (run_params r)) now t3)"

definition read_cosign :: "bytes \<Rightarrow> (json \<times> json \<times> json) res" where
  "read_cosign raw =
     bind_res (loads_bytes raw) (\<lambda>body.
     bind_res (py_index body ''event_id'') (\<lambda>event_id.
     bind_res (py_index body ''signature'') (\<lambda>peer_signature.
     bind_res (py_index peer_signature ''signed_by'') (\<lambda>peer_id.
     bind_res (hashed peer_id) (\<lambda>_. Inr (event_id, peer_signature, peer_id))))))"

definition audit_cosign :: "crypto \<Rightarrow> agent \<Rightarrow> bytes \<Rightarrow> agent \<times> json http" where
  "audit_cosign C a raw =
     (case read_cosign raw of
        Inl e \<Rightarrow> (a, Crash e)
      | Inr (event_id, peer_signature, peer_id) \<Rightarrow>
          if lookup_key (ag_peers a) peer_id = None
          then (a, HttpError 400 (''unknown peer '' @ py_repr peer_id))
          else
            (case bind_res (find_peer a peer_id) (\<lambda>p.
                finalize_pending C (ag_log a) event_id peer_signature (pr_public_key p)) of
               Inl e \<Rightarrow> (a, if is_a (exn_cls e) ATFError then HttpError 400 (str_exn e) else Crash e)
             | Inr (rcd, log) \<Rightarrow> (set_log log a, Reply (JDict [(''status'', JStr ''ok'')]))))"

definition audit_events :: "agent \<Rightarrow> json http" where
  "audit_events a =
     of_res (bind_res (all_events (ag_log a)) (\<lambda>es. Inr (JDict [(''events'', JList es)])))"

section \<open>The client\<close>

text \<open>What the client gets back: status, the body as text and as bytes.\<close>

record http_response =
  rs_status :: nat
  rs_text :: string
  rs_body :: bytes

text \<open>\<open>r.raise_for_status(); return r.json()\<close>, for the key set and the manifest of a peer.\<close>

definition fetch_json :: "http_response \<Rightarrow> json res" where
  "fetch_json r =
     (if 200 \<le> rs_status r \<and> rs_status r < 300 then loads_bytes (rs_body r)
      else raise PyException ''HTTPStatusError'')"

text \<open>The claims read from the token, and the request's body.\<close>

definition client_request :: "string \<Rightarrow> json \<Rightarrow> (json \<times> json) res" where
  "client_request token payload =
     bind_res (peek_payload token) (\<lambda>token_claims.
     bind_res (py_index token_claims ''jti'') (\<lambda>jti.
     bind_res (py_get token_claims ''audit_uri'') (\<lambda>audit_uri.
       Inr (token_claims,
         JDict [(''atf_version'', JStr ''0.1''), (''request_id'', JStr (''req_'' @ py_str jti)),
                (''payload'', payload), (''audit_uri'', audit_uri)]))))"

text \<open>\<open>except OutcomeInvalidSignature as e\<close>: a one-sided event is recorded, then \<open>e\<close> is raised again.\<close>

definition dispute :: "crypto \<Rightarrow> agent \<Rightarrow> json \<Rightarrow> string \<Rightarrow> exn \<Rightarrow> tick \<Rightarrow> agent res" where
  "dispute C a token_claims delegatee_id e t =
     bind_res (py_index token_claims ''jti'') (\<lambda>jti.
       journal C a (new_event ''delegation.disputed'' jti (JStr (ag_id a)) (JStr delegatee_id)
         [(''reason'', JStr ''outcome.invalid_signature''), (''detail'', JStr (str_exn e))] (fst t) (snd t)))"

text \<open>The peer's completion event is read, signed and stored; \<open>push\<close> is the body of the cosign request.\<close>

definition accept_event :: "crypto \<Rightarrow> agent \<Rightarrow> json \<Rightarrow> string \<Rightarrow> (agent \<times> json) res" where
  "accept_event C a resp delegatee_id =
     bind_res (py_index resp ''audit_event'') (\<lambda>ae.
     bind_res (py_index ae ''content'') (\<lambda>content.
     bind_res (py_index ae ''signature'') (\<lambda>peer_sig.
     bind_res (from_content content) (\<lambda>ev.
       let my_sig = sign_only C ev (ag_keypair a) (ag_id a) in
       bind_res (find_peer a (JStr delegatee_id)) (\<lambda>p.
       bind_res (append_finalized C (ag_log a) ev my_sig peer_sig (pr_public_key p)) (\<lambda>(rcd, log).
         Inr (set_log log a, JDict [(''event_id'', ev_event_id ev), (''signature'', my_sig)])))))))"

definition client_response ::
  "crypto \<Rightarrow> agent \<Rightarrow> json \<Rightarrow> string \<Rightarrow> string option \<Rightarrow> bool \<Rightarrow> http_response \<Rightarrow> tick
    \<Rightarrow> agent \<times> (json \<times> json option) res"
where
  "client_response C a token_claims delegatee_id expected cosign r t =
     (if 400 \<le> rs_status r
      then (a, raise ATFError (''invoke failed '' @ nat_str (rs_status r) @ '': '' @ rs_text r))
      else
        case bind_res (loads_bytes (rs_body r)) (\<lambda>resp.
             bind_res (py_index resp ''outcome'') (\<lambda>env. Inr (resp, env))) of
          Inl e \<Rightarrow> (a, Inl e)
        | Inr (resp, env) \<Rightarrow>
            (case verify_outcome_envelope C a env delegatee_id expected of
               Inl e \<Rightarrow>
                 if is_a (exn_cls e) OutcomeInvalidSignature then
                   (case dispute C a token_claims delegatee_id e t of
                      Inl e' \<Rightarrow> (a, Inl e')
                    | Inr a' \<Rightarrow> (a', Inl e))
                 else (a, Inl e)
             | Inr content \<Rightarrow>
                 (case accept_event C a resp delegatee_id of
                    Inl e \<Rightarrow> (a, Inl e)
                  | Inr (a', push) \<Rightarrow> (a', Inr (resp, if cosign then Some push else None)))))"

section \<open>One exchange\<close>

text \<open>
  The framework between the two sides: a value travels as the bytes \<open>send\<close> makes of it, an
  \<open>HTTPException\<close> as its status with the detail as text, an escaped exception as status 500.
\<close>

definition deliver :: "(json \<Rightarrow> bytes) \<Rightarrow> json http \<Rightarrow> http_response" where
  "deliver send r =
     (case r of
        Reply v \<Rightarrow> \<lparr>rs_status = 200, rs_text = [], rs_body = send v\<rparr>
      | HttpError s m \<Rightarrow> \<lparr>rs_status = s, rs_text = m, rs_body = send (JDict [(''detail'', JStr m)])\<rparr>
      | Crash e \<Rightarrow> \<lparr>rs_status = 500, rs_text = ''Internal Server Error'', rs_body = []\<rparr>)"

text \<open>\<open>ATFClient.invoke\<close> against the server of \<open>b\<close>: request, reply and cosign push.\<close>

record exchange_ticks =
  xt_verify :: tick
  xt_started :: tick
  xt_outcome :: int
  xt_completed :: tick
  xt_client :: tick

text \<open>What becomes of a request: \<open>httpx\<close> raises when it does not arrive, when its reply is lost or when
  the reply comes after the client's timeout. A failed cosign push is logged and forgotten.\<close>

datatype fate = Arrives | RequestLost | ReplyLost

definition transport_error :: "'a res" where
  "transport_error = raise PyException ''TransportError''"

definition lossy_invoke ::
  "crypto \<Rightarrow> (json \<Rightarrow> bytes) \<Rightarrow> handlers \<Rightarrow> fate \<Rightarrow> fate \<Rightarrow> agent \<Rightarrow> agent \<Rightarrow> string \<Rightarrow> json \<Rightarrow> string option
    \<Rightarrow> string \<Rightarrow> bool \<Rightarrow> exchange_ticks \<Rightarrow> agent \<times> agent \<times> json res"
where
  "lossy_invoke C send handlers request_fate push_fate a b token payload expected delegatee_id cosign ts =
     (case client_request token payload of
        Inl e \<Rightarrow> (a, b, Inl e)
      | Inr (token_claims, body) \<Rightarrow>
          (if request_fate = RequestLost then (a, b, transport_error)
           else
             let (b1, r) = invoke C handlers b (Some token) (send body)
                   (xt_verify ts) (xt_started ts) (xt_outcome ts) (xt_completed ts)
             in if request_fate = ReplyLost then (a, b1, transport_error)
                else
                  let (a1, out) = client_response C a token_claims delegatee_id expected cosign
                        (deliver send r) (xt_client ts)
                  in case out of
                       Inl e \<Rightarrow> (a1, b1, Inl e)
                     | Inr (resp, None) \<Rightarrow> (a1, b1, Inr resp)
                     | Inr (resp, Some push) \<Rightarrow>
                         (a1, if push_fate = RequestLost then b1 else fst (audit_cosign C b1 (send push)), Inr resp)))"

text \<open>The call when nothing is lost\<close>

definition client_invoke ::
  "crypto \<Rightarrow> (json \<Rightarrow> bytes) \<Rightarrow> handlers \<Rightarrow> agent \<Rightarrow> agent \<Rightarrow> string \<Rightarrow> json \<Rightarrow> string option \<Rightarrow> string \<Rightarrow> bool
    \<Rightarrow> exchange_ticks \<Rightarrow> agent \<times> agent \<times> json res"
where
  "client_invoke C send handlers a b token payload expected delegatee_id cosign ts =
     lossy_invoke C send handlers Arrives Arrives a b token payload expected delegatee_id cosign ts"

end
