(* ===== verification/Atf_Agent_Claims.thy ===== *)
theory Atf_Agent_Claims
  imports Atf_Agent Atf_Fuel
begin

text \<open>
  What the agent guarantees: an accepted token comes from a registered peer and was not used
  before, a used token is refused and the attempt is journalled, an issued token is accepted by
  the delegatee, and where the replay test does not reach.
\<close>

section \<open>Reading a token\<close>

lemma peek_sign_compact: "normal p \<Longrightarrow> peek_payload (sign_compact C p kp) = Inr (sort_json p)"
  unfolding peek_payload_def sign_compact_split by (simp add: b64url_inverse loads_bytes_canonical)

lemma peek_verify_compact:
  assumes "verify_compact C token pk = Inr (h, payload)"
  shows "peek_payload token = Inr payload"
  using assms verify_compact_iff [of C token pk h payload]
  by (auto simp: compact_ok_def peek_payload_def)

section \<open>The replay test\<close>

text \<open>The content is of a delegation with the token id \<open>j\<close> that was started or completed.\<close>

definition event_uses :: "json \<Rightarrow> json \<Rightarrow> bool" where
  "event_uses j c \<longleftrightarrow>
     (\<exists>kvs tj ty. c = JDict kvs \<and> map_of kvs ''token_jti'' = Some tj \<and> map_of kvs ''type'' = Some ty
        \<and> py_eq tj j \<and> ty \<in> {JStr ''delegation.started'', JStr ''delegation.completed''})"

definition log_uses :: "audit_log \<Rightarrow> json \<Rightarrow> bool" where
  "log_uses log j \<longleftrightarrow> (\<exists>r \<in> set log. \<exists>c sigs. stored r c sigs \<and> event_uses j c)"

lemma bind_text_hashable: "bind_text v = Inr t \<Longrightarrow> hashed v = Inr v"
  by (cases v) (simp_all add: bind_text_def hashed_def hashable_def)

lemma uses_jti_stored:
  assumes "stored r c sigs"
  shows "uses_jti j (audit_record c sigs) = Inr (event_uses j c)"
proof -
  obtain kvs tj ty t where c: "c = JDict kvs" "map_of kvs ''token_jti'' = Some tj" "map_of kvs ''type'' = Some ty"
      "bind_text ty = Inr t"
    using assms by (auto simp: stored_def columns_def)
  then show ?thesis
    using bind_text_hashable [OF c(4)] by (auto simp: uses_jti_def event_uses_def audit_record_def)
qed

lemma filter_res_Inr: "(\<And>x. x \<in> set xs \<Longrightarrow> f x = Inr (P x)) \<Longrightarrow> filter_res f xs = Inr (filter P xs)"
  by (induction xs) auto

definition row_record :: "row \<Rightarrow> json" where
  "row_record r = (case loads (row_record_json r) of Inr v \<Rightarrow> v | Inl e \<Rightarrow> JNull)"

lemma row_record_stored: "stored r c sigs \<Longrightarrow> row_record r = audit_record c sigs"
  by (simp add: row_record_def loads_stored)

lemma wf_log_stored: "wf_log log \<Longrightarrow> r \<in> set log \<Longrightarrow> \<exists>c sigs. stored r c sigs"
  unfolding wf_log_def wf_row_def by meson

lemma all_events_wf:
  assumes "wf_log log"
  shows "all_events log = Inr (map row_record (sort_key row_key_of log))"
  unfolding all_events_def
proof (rule map_res_Inr)
  fix r
  assume "r \<in> set (sort_key row_key_of log)"
  then have "r \<in> set log" by simp
  then obtain c sigs where "stored r c sigs"
    using wf_log_stored [OF assms] by blast
  then show "loads (row_record_json r) = Inr (row_record r)"
    by (simp add: loads_stored row_record_stored)
qed

lemma prior_uses_wf:
  assumes "wf_log (ag_log a)" and "bind_text j = Inr t"
  shows "\<exists>es. prior_uses a j = Inr es
    \<and> (es = [] \<longleftrightarrow> \<not> (t \<noteq> None \<and> (\<exists>r \<in> set (ag_log a). row_token_jti r = t) \<and> log_uses (ag_log a) j))"
proof -
  let ?P = "\<lambda>v. \<exists>c sigs. v = audit_record c sigs \<and> event_uses j c"
  have f: "filter_res (uses_jti j) (map row_record (sort_key row_key_of (ag_log a)))
      = Inr (filter ?P (map row_record (sort_key row_key_of (ag_log a))))"
  proof (rule filter_res_Inr)
    fix v
    assume "v \<in> set (map row_record (sort_key row_key_of (ag_log a)))"
    then obtain r where r: "v = row_record r" "r \<in> set (ag_log a)"
      by auto
    moreover obtain c sigs where "stored r c sigs"
      using wf_log_stored [OF assms(1) r(2)] by blast
    ultimately show "uses_jti j v = Inr (?P v)"
      using uses_jti_stored by (auto simp: row_record_stored)
  qed
  have "filter ?P (map row_record (sort_key row_key_of (ag_log a))) = [] \<longleftrightarrow> \<not> log_uses (ag_log a) j"
    unfolding filter_empty_conv log_uses_def
    using wf_log_stored [OF assms(1)] row_record_stored by fastforce
  then show ?thesis
    using f assms(2) all_events_wf [OF assms(1)] by (auto simp: prior_uses_def has_jti_def)
qed

text \<open>For a text id the column test adds nothing: an event that uses it has it in its column.\<close>

lemma log_uses_column: "log_uses log (JStr j) \<Longrightarrow> \<exists>r \<in> set log. row_token_jti r = Some j"
  by (auto simp: log_uses_def event_uses_def stored_def columns_def)

lemma prior_uses_text:
  assumes "wf_log (ag_log a)"
  shows "\<exists>es. prior_uses a (JStr j) = Inr es \<and> (es = [] \<longleftrightarrow> \<not> log_uses (ag_log a) (JStr j))"
  using prior_uses_wf [OF assms, of "JStr j" "Some j"] log_uses_column [of "ag_log a" j] by auto

lemma find_peer_Str: "find_peer a (JStr i) = (case ag_peers a i of Some p \<Rightarrow> Inr p
    | None \<Rightarrow> raise ATFError (''unknown peer '' @ py_repr (JStr i) @ ''; call register_peer first''))"
  by (simp add: find_peer_def)

lemma find_peer_Inr: "find_peer a v = Inr p \<longleftrightarrow> (\<exists>i. v = JStr i \<and> ag_peers a i = Some p)"
  by (cases v) (auto simp: find_peer_def hashed_def hashable_def split: option.splits)

lemma verify_delegation_fresh:
  assumes "peek_payload token = Inr p" and "py_index p ''iss'' = Inr (JStr i)" and "ag_peers a i = Some pr"
    and "py_index p ''jti'' = Inr j" and "prior_uses a j = Inr []"
  shows "verify_delegation C a token scope uuid now = (a, verify_token C token (pr_public_key pr) (ag_id a)
     (Some scope) (Some (pr_manifest_content pr)) now)"
  using assms by (simp add: verify_delegation_def Let_def find_peer_Str)

lemma verify_delegation_Inr:
  assumes "verify_delegation C a token scope uuid now = (a', Inr cl)"
  shows "a' = a \<and> (\<exists>p i pr j. peek_payload token = Inr p \<and> py_index p ''iss'' = Inr (JStr i) \<and> ag_peers a i = Some pr
    \<and> py_index p ''jti'' = Inr j \<and> prior_uses a j = Inr []
    \<and> verify_token C token (pr_public_key pr) (ag_id a) (Some scope) (Some (pr_manifest_content pr)) now = Inr cl)"
  using assms
  by (auto simp: verify_delegation_def Let_def find_peer_Inr split: sum.splits if_splits)

lemma journal_Inr:
  "journal C a ev = Inr a' \<longleftrightarrow> (\<exists>r. inserts (ag_log a) ev
     (audit_record (event_content ev) [sign_envelope C (event_content ev) (ag_keypair a) (ag_id a)]) False r
     \<and> a' = set_log (ag_log a @ [r]) a)"
  by (auto simp: journal_def append_self_Inr split_beta)

lemma set_log_simps [simp]:
  "ag_log (set_log log a) = log" "ag_id (set_log log a) = ag_id a" "ag_peers (set_log log a) = ag_peers a"
  "ag_keypair (set_log log a) = ag_keypair a" "ag_identity (set_log log a) = ag_identity a"
  by (simp_all add: set_log_def ag_id_def)

lemma new_event_simps [simp]:
  "ev_type (new_event ty j d e fs u n) = JStr ty" "ev_token_jti (new_event ty j d e fs u n) = j"
  "ev_event_id (new_event ty j d e fs u n) = JStr (''evt_'' @ u)" "ev_ts (new_event ty j d e fs u n) = n"
  by (simp_all add: new_event_def)

section \<open>Journalling\<close>

lemma new_event_insertable:
  assumes "bind_text j = Inr t" and "- (2 ^ 63) \<le> n" and "n < 2 ^ 63"
    and "Some (''evt_'' @ u) \<notin> row_event_id ` set log"
  shows "insertable log (new_event ty j d e fs u n)"
  using assms by (simp add: insertable_def)

lemma journal_ok:
  assumes "wf_log (ag_log a)" and "insertable (ag_log a) ev"
  shows "\<exists>r. journal C a ev = Inr (set_log (ag_log a @ [r]) a)
    \<and> inserts (ag_log a) ev (audit_record (event_content ev)
         [sign_envelope C (event_content ev) (ag_keypair a) (ag_id a)]) False r"
proof -
  obtain r where "inserts (ag_log a) ev (audit_record (event_content ev)
         [sign_envelope C (event_content ev) (ag_keypair a) (ag_id a)]) False r"
    using insertable_inserts [OF assms(1)] assms(2) by blast
  then show ?thesis
    by (intro exI [of _ r]) (auto simp: journal_Inr)
qed

lemma journal_step: "journal C a ev = Inr a' \<Longrightarrow> normal_event ev \<Longrightarrow> log_step C (ag_log a) (ag_log a')"
  by (auto simp: journal_Inr intro!: log_step.self simp: append_self_Inr)

section \<open>Agents for the witnesses\<close>

definition toy_peer :: peer_record where
  "toy_peer = \<lparr>pr_agent_id = agent_id toy_identity, pr_public_key = kp_public toy_keypair,
     pr_manifest_content = manifest_content toy_manifest\<rparr>"

definition toy_agent :: "audit_log \<Rightarrow> agent" where
  "toy_agent log =
     \<lparr>ag_identity = toy_identity\<lparr>id_name := ''y'', id_keypair := toy_keypair_2\<rparr>, ag_keypair = toy_keypair_2,
      ag_data_dir = \<lparr>dir_key = None, dir_manifest = None, dir_log = log\<rparr>, ag_manifest_envelope = None,
      ag_peers = [agent_id toy_identity \<mapsto> toy_peer]\<rparr>"

lemma toy_agent_simps [simp]:
  "ag_log (toy_agent log) = log" "ag_peers (toy_agent log) (agent_id toy_identity) = Some toy_peer"
  by (simp_all add: toy_agent_def)

text \<open>A token's text with the given token id, and a log whose one event used \<open>tkn_1\<close>.\<close>

definition toy_payload :: "json \<Rightarrow> json" where
  "toy_payload j = JDict [(''iss'', JStr (agent_id toy_identity)), (''jti'', j)]"

lemma toy_payload_peek:
  assumes "j \<in> {JStr t, JInt n}"
  shows "\<exists>p. peek_payload (sign_compact toy_crypto (toy_payload j) toy_keypair) = Inr p
    \<and> py_index p ''iss'' = Inr (JStr (agent_id toy_identity)) \<and> py_index p ''jti'' = Inr j"
proof -
  have "peek_payload (sign_compact toy_crypto (toy_payload j) toy_keypair) = Inr (toy_payload j)"
    using peek_sign_compact [of "toy_payload j" toy_crypto toy_keypair] assms by (auto simp: toy_payload_def)
  then show ?thesis by (auto simp: toy_payload_def)
qed

lemma toy_used_log:
  "\<exists>r kvs sigs. log_step C [] [r] \<and> stored r (JDict kvs) sigs \<and> map_of kvs ''token_jti'' = Some (JStr ''tkn_1'')
    \<and> map_of kvs ''type'' = Some (JStr ''delegation.completed'') \<and> row_event_id r = Some ''e''"
proof -
  obtain r where r: "inserts [] (toy_event ''e'' 5) (toy_record ''e'' 5) True r" "log_step C [] [r]" "row_event_id r = Some ''e''"
    using toy_append [of "[]" "''e''" 5 C] by auto
  obtain kvs where kvs: "event_content (toy_event ''e'' 5) = JDict kvs" "distinct (map fst kvs)"
      "map_of kvs ''token_jti'' = Some (JStr ''tkn_1'')" "map_of kvs ''type'' = Some (JStr ''delegation.completed'')"
    by (simp add: event_content_def toy_event_def)
  have "stored r (JDict (sort_dict kvs)) (map sort_json [JNull])"
    using inserts_stored [OF r(1) [unfolded toy_record_def] toy_event_normal] kvs(1) sort_json_sort_dict by simp
  moreover have "map_of (sort_dict kvs) ''token_jti'' = Some (JStr ''tkn_1'')"
    "map_of (sort_dict kvs) ''type'' = Some (JStr ''delegation.completed'')"
    using sort_dict_lookup [OF kvs(2)] kvs(3,4) by simp_all
  ultimately show ?thesis
    using r(2,3) by blast
qed

lemma issued_delegation_accepted:
  assumes "ed25519_correct C" and "wf_keypair C (ag_keypair a)" and "constraints = None \<or> normal (JDict (the constraints))"
    and "issue_delegation C a (ag_id b) scope purpose constraints x now uuid euuid enow = Inr (token, a')"
    and "(log_step C)\<^sup>*\<^sup>* [] (ag_log b)"
    and "ag_peers b (ag_id a) = Some pr" and "pr_public_key pr = kp_public (ag_keypair a)"
    and "proper_manifest (pr_manifest_content pr)"
    and "ag_manifest_envelope a = Some env" and "own_manifest_content a = Inr (pr_manifest_content pr)"
    and "\<not> log_uses (ag_log b) (JStr (''tkn_'' @ uuid))"
    and "now \<le> t" and "t < now + x" and "s \<in> set scope" and "covers s required"
  shows "(\<exists>cl. verify_delegation C b token required vuuid t = (b, Inr cl) \<and> dc_scope cl = map JStr scope
      \<and> dc_jti cl = ''tkn_'' @ uuid \<and> dc_exp cl = now + x)
    \<and> (\<exists>r. ag_log a' = ag_log a @ [r] \<and> row_type r = ''delegation.issued'' \<and> row_token_jti r = Some (''tkn_'' @ uuid))"
proof -
  let ?c = "issue_claims (ag_identity a) (ag_id b) scope purpose constraints x (Some (''local://'' @ ag_id a)) now uuid"
  have n: "normal (claims_dict ?c)"
    by (rule issue_claims_normal [OF assms(3)])
  obtain jti where i: "check_own_manifest a scope = Inr ()"
      "issue_token C (ag_identity a) (ag_keypair a) (ag_id b) scope purpose constraints x
        (Some (''local://'' @ ag_id a)) now uuid = Inr token"
      "bind_res (peek_payload token) (\<lambda>p. py_index p ''jti'') = Inr jti"
      "journal C a (new_event ''delegation.issued'' jti (JStr (ag_id a)) (JStr (ag_id b))
          [(''scope'', JList (map JStr scope)), (''purpose'', JStr purpose)] euuid enow) = Inr a'"
    using assms(4) by (auto simp: issue_delegation_def)
  have tok: "token = sign_compact C (claims_dict ?c) (ag_keypair a)" and x: "0 < x" "x \<le> MAX_TTL_SECONDS"
    using i(2) by (auto simp: issue_token_def split: if_splits)
  obtain kvs where kvs: "sort_json (claims_dict ?c) = JDict kvs"
    by (simp add: claims_dict_def)
  have peek: "peek_payload token = Inr (JDict kvs)"
    using peek_sign_compact [OF n, of C "ag_keypair a"] kvs tok by simp
  have claims: "claims_of_payload (JDict kvs) = Inr (sort_claims ?c)"
    using claims_of_sorted [of ?c] kvs by simp
  have f: "py_index (JDict kvs) ''iss'' = Inr (JStr (ag_id a))" "py_index (JDict kvs) ''jti'' = Inr (JStr (''tkn_'' @ uuid))"
  proof -
    show "py_index (JDict kvs) ''iss'' = Inr (JStr (ag_id a))"
      using claims_of_payload_fields(6) [OF claims] by (simp add: sort_claims_def ag_id_def)
    obtain ds where ds: "claims_dict ?c = JDict ds" "distinct (map fst ds)" "map_of ds ''jti'' = Some (JStr (''tkn_'' @ uuid))"
      by (simp add: claims_dict_def)
    have "map_of kvs ''jti'' = Some (JStr (''tkn_'' @ uuid))"
      using sort_json_lookup [OF ds(2) kvs [unfolded ds(1)], of "''jti''"] ds(3) by simp
    then show "py_index (JDict kvs) ''jti'' = Inr (JStr (''tkn_'' @ uuid))"
      by simp
  qed
  have declared: "\<forall>s \<in> set scope. \<exists>d \<in> set (declared_names (pr_manifest_content pr)). covers d s"
    using i(1) assms(9,10) manifest_test.test_covers [OF assms(8)]
    by (auto simp: check_own_manifest_def split: if_splits)
  have v: "verify_compact C token (kp_public (ag_keypair a)) = Inr (jws_header (ag_keypair a), JDict kvs)"
    using verify_sign_compact [OF assms(1,2) n] kvs tok by simp
  have "token_verdict (now + x) now (ag_id b) scope (ag_id b) (Some required)
      (map_option declared_names (Some (pr_manifest_content pr))) t = None"
    using assms(12-15) declared by (auto simp: token_verdict_def)
  then have ver: "verify_token C token (pr_public_key pr) (ag_id b) (Some required) (Some (pr_manifest_content pr)) t
      = Inr (sort_claims ?c)"
    using verify_token_verdict [OF v issued_payload_typed [OF kvs], where manifest = "Some (pr_manifest_content pr)"
        and expected = "ag_id b" and required = "Some required" and now = t] assms(7,8) claims by simp
  have "prior_uses b (JStr (''tkn_'' @ uuid)) = Inr []"
    using prior_uses_text [OF log_steps_wf [OF assms(5) wf_log_Nil]] assms(11) by fastforce
  then have "verify_delegation C b token required vuuid t = (b, Inr (sort_claims ?c))"
    using verify_delegation_fresh [OF peek f(1) assms(6) f(2)] ver by simp
  moreover have "jti = JStr (''tkn_'' @ uuid)"
    using i(3) peek f(2) by simp
  then have "\<exists>r. ag_log a' = ag_log a @ [r] \<and> row_type r = ''delegation.issued'' \<and> row_token_jti r = Some (''tkn_'' @ uuid)"
    using i(4) by (auto simp: journal_Inr inserts_def)
  ultimately show ?thesis
    by (simp add: sort_claims_def)
qed

text \<open>The issuer, with its manifest published.\<close>

definition toy_issuer :: agent where
  "toy_issuer =
     \<lparr>ag_identity = toy_identity, ag_keypair = toy_keypair,
      ag_data_dir = \<lparr>dir_key = None, dir_manifest = None, dir_log = []\<rparr>,
      ag_manifest_envelope = Some (sign_manifest toy_crypto toy_manifest toy_keypair), ag_peers = (\<lambda>_. None)\<rparr>"

lemma toy_issuer_simps [simp]:
  "ag_id toy_issuer = agent_id toy_identity" "ag_keypair toy_issuer = toy_keypair" "ag_log toy_issuer = []"
  "ag_identity toy_issuer = toy_identity"
  "ag_manifest_envelope toy_issuer = Some (sign_manifest toy_crypto toy_manifest toy_keypair)"
  "own_manifest_content toy_issuer = Inr (manifest_content toy_manifest)"
  by (simp_all add: toy_issuer_def ag_id_def own_manifest_content_def sign_manifest_def Let_def)

lemma toy_issue:
  "\<exists>token a'. issue_delegation toy_crypto toy_issuer (ag_id (toy_agent [])) [''code.write.python''] ''p'' None 60 100 ''0'' ''1'' 100
    = Inr (token, a')"
proof -
  let ?to = "ag_id (toy_agent [])"
  let ?c = "issue_claims toy_identity ?to [''code.write.python''] ''p'' None 60 (Some (''local://'' @ agent_id toy_identity)) 100 ''0''"
  let ?token = "sign_compact toy_crypto (claims_dict ?c) toy_keypair"
  have n: "normal (claims_dict ?c)"
    by (rule issue_claims_normal) simp
  have check: "check_own_manifest toy_issuer [''code.write.python''] = Inr ()"
    by (simp add: check_own_manifest_def manifest_test.test_covers covers_def)
  have issue: "issue_token toy_crypto toy_identity toy_keypair ?to [''code.write.python''] ''p'' None 60
      (Some (''local://'' @ agent_id toy_identity)) 100 ''0'' = Inr ?token"
    by (simp add: issue_token_def MAX_TTL_SECONDS_def)
  obtain ds where ds: "claims_dict ?c = JDict ds" "distinct (map fst ds)" "map_of ds ''jti'' = Some (JStr ''tkn_0'')"
    by (simp add: claims_dict_def)
  have "map_of (sort_dict ds) ''jti'' = Some (JStr ''tkn_0'')"
    using sort_dict_lookup [OF ds(2)] ds(3) by simp
  then have jti: "bind_res (peek_payload ?token) (\<lambda>p. py_index p ''jti'') = Inr (JStr ''tkn_0'')"
    using peek_sign_compact [OF n, of toy_crypto toy_keypair] ds(1) sort_json_sort_dict by simp
  let ?ev = "new_event ''delegation.issued'' (JStr ''tkn_0'') (JStr (agent_id toy_identity)) (JStr ?to)
     [(''scope'', JList (map JStr [''code.write.python''])), (''purpose'', JStr ''p'')] ''1'' 100"
  have "insertable (ag_log toy_issuer) ?ev"
    by (rule new_event_insertable [OF bind_text_Str(1)]) simp_all
  then obtain a' where "journal toy_crypto toy_issuer ?ev = Inr a'"
    using journal_ok [of toy_issuer ?ev toy_crypto] by auto
  then show ?thesis
    unfolding issue_delegation_def toy_issuer_simps check issue jti bind_res_Inr by auto
qed

lemma toy_accept:
  "\<exists>token a' cl. issue_delegation toy_crypto toy_issuer (ag_id (toy_agent [])) [''code.write.python''] ''p'' None 60 100 ''0'' ''1'' 100
      = Inr (token, a')
    \<and> verify_delegation toy_crypto (toy_agent []) token ''code.write.python.x'' ''2'' 130 = (toy_agent [], Inr cl)
    \<and> dc_jti cl = ''tkn_'' @ ''0''"
proof -
  obtain token a' where t: "issue_delegation toy_crypto toy_issuer (ag_id (toy_agent [])) [''code.write.python''] ''p'' None 60 100 ''0'' ''1'' 100
      = Inr (token, a')"
    using toy_issue by blast
  have wf: "wf_keypair toy_crypto (ag_keypair toy_issuer)"
    by (simp add: toy_keypair_wf)
  have log: "(log_step toy_crypto)\<^sup>*\<^sup>* [] (ag_log (toy_agent []))"
    by simp
  have peer: "ag_peers (toy_agent []) (ag_id toy_issuer) = Some toy_peer"
    by simp
  have pk: "pr_public_key toy_peer = kp_public (ag_keypair toy_issuer)" "proper_manifest (pr_manifest_content toy_peer)"
    by (simp_all add: toy_peer_def)
  have man: "own_manifest_content toy_issuer = Inr (pr_manifest_content toy_peer)"
    by (simp add: toy_peer_def)
  have fresh: "\<not> log_uses (ag_log (toy_agent [])) (JStr (''tkn_'' @ ''0''))"
    by (simp add: log_uses_def)
  have window: "(100 :: int) \<le> 130" "(130 :: int) < 100 + 60"
    by simp_all
  have scope: "''code.write.python'' \<in> set [''code.write.python'']" "covers ''code.write.python'' ''code.write.python.x''"
    by (simp_all add: covers_def)
  from issued_delegation_accepted [OF toy_crypto_ok(1) wf disjI1 [OF refl] t log peer pk toy_issuer_simps(5) man fresh window scope, of "''2''"]
  show ?thesis
    using t by blast
qed

section \<open>Properties\<close>

lemma loads_error: "loads s = Inl e \<Longrightarrow> exn_cls e = ValueError"
  by (auto simp: loads_def Let_def simp del: scan_once.simps split: option.splits if_splits)

lemma utf8_decode_error: "utf8_decode b = Inl e \<Longrightarrow> exn_cls e = ValueError"
  by (induction b arbitrary: e rule: utf8_decode.induct) (auto simp: bind_res_eq_Inl split: if_splits list.splits)

lemma loads_bytes_error: "loads_bytes b = Inl e \<Longrightarrow> exn_cls e = ValueError"
  by (auto simp: loads_bytes_def bind_res_eq_Inl dest: loads_error utf8_decode_error split: if_splits)

lemma a2b_base64_error: "a2b_base64 q l n s = Inl e \<Longrightarrow> exn_cls e = ValueError"
  by (induction q l n s arbitrary: e rule: a2b_base64.induct)
    (auto simp: bind_res_eq_Inl split: if_splits option.splits)

lemma b64url_decode_error: "b64url_decode s = Inl e \<Longrightarrow> exn_cls e = ValueError"
  by (auto simp: b64url_decode_def urlsafe_b64decode_def Let_def dest: a2b_base64_error split: if_splits)

lemma peek_payload_error: "peek_payload token = Inl e \<Longrightarrow> exn_cls e = ValueError"
  by (auto simp: peek_payload_def bind_res_eq_Inl dest: b64url_decode_error loads_bytes_error split: list.splits)

text \<open>A used token is refused: once the delegatee's log holds a started or completed delegation
  with a text token id, no token that names a registered peer and that id is accepted again,
  whatever else it says and whoever signed it; if the log can take one more event, the call raises
  \<open>TokenReplay\<close> and the attempt is journalled.\<close>

theorem replay_refused:
  assumes "(log_step C)\<^sup>*\<^sup>* [] (ag_log a)" and "r \<in> set (ag_log a)" and "stored r (JDict kvs) sigs"
    and "map_of kvs ''token_jti'' = Some (JStr j)"
    and "map_of kvs ''type'' \<in> {Some (JStr ''delegation.started''), Some (JStr ''delegation.completed'')}"
    and "peek_payload token = Inr p" and "py_index p ''iss'' = Inr (JStr i)" and "ag_peers a i = Some pr"
    and "py_index p ''jti'' = Inr (JStr j)"
  shows "\<exists>a' e. verify_delegation C a token scope uuid now = (a', Inl e)
    \<and> (- (2 ^ 63) \<le> now \<and> now < 2 ^ 63 \<and> Some (''evt_'' @ uuid) \<notin> row_event_id ` set (ag_log a) \<longrightarrow>
        e = Exn TokenReplay (''jti '' @ str_repr j @ '' already used'')
        \<and> (\<exists>r'. ag_log a' = ag_log a @ [r'] \<and> row_type r' = ''delegation.replay_attempt'' \<and> row_token_jti r' = Some j))"
proof -
  have wf: "wf_log (ag_log a)"
    using log_steps_wf [OF assms(1)] by simp
  have "event_uses (JStr j) (JDict kvs)"
    using assms(4,5) by (auto simp: event_uses_def)
  then have "log_uses (ag_log a) (JStr j)"
    using assms(2,3) unfolding log_uses_def by blast
  then obtain es where es: "prior_uses a (JStr j) = Inr es" "es \<noteq> []"
    using prior_uses_text [OF wf] by blast
  let ?ev = "new_event ''delegation.replay_attempt'' (JStr j) (JStr i) (JStr (ag_id a)) [] uuid now"
  have v: "verify_delegation C a token scope uuid now = (case journal C a ?ev of
      Inl e \<Rightarrow> (a, Inl e) | Inr a' \<Rightarrow> (a', raise TokenReplay (''jti '' @ py_repr (JStr j) @ '' already used'')))"
    using assms(6-9) es by (simp add: verify_delegation_def Let_def find_peer_Str)
  show ?thesis
  proof (cases "insertable (ag_log a) ?ev")
    case True
    then obtain r' where r': "journal C a ?ev = Inr (set_log (ag_log a @ [r']) a)" "row_type r' = ''delegation.replay_attempt''"
        "row_token_jti r' = Some j"
      using journal_ok [OF wf, of ?ev C] by (auto simp: inserts_def)
    then show ?thesis
      using v by (simp add: raise_def)
  next
    case False
    then have "\<not> (- (2 ^ 63) \<le> now \<and> now < 2 ^ 63 \<and> Some (''evt_'' @ uuid) \<notin> row_event_id ` set (ag_log a))"
      using new_event_insertable [OF bind_text_Str(1)] by blast
    then show ?thesis
      using v by (cases "journal C a ?ev") (auto simp: raise_def)
  qed
qed

lemma replay_refused_witness:
  "\<exists>r a' e. verify_delegation toy_crypto (toy_agent [r]) (sign_compact toy_crypto (toy_payload (JStr ''tkn_1'')) toy_keypair)
      ''code'' ''0'' 7 = (a', Inl e) \<and> exn_cls e = TokenReplay"
proof -
  obtain r kvs sigs where r: "log_step toy_crypto [] [r]" "stored r (JDict kvs) sigs"
      "map_of kvs ''token_jti'' = Some (JStr ''tkn_1'')" "map_of kvs ''type'' = Some (JStr ''delegation.completed'')"
      "row_event_id r = Some ''e''"
    using toy_used_log [of toy_crypto] by blast
  obtain p where p: "peek_payload (sign_compact toy_crypto (toy_payload (JStr ''tkn_1'')) toy_keypair) = Inr p"
      "py_index p ''iss'' = Inr (JStr (agent_id toy_identity))" "py_index p ''jti'' = Inr (JStr ''tkn_1'')"
    using toy_payload_peek [of "JStr ''tkn_1''" "''tkn_1''" 0] by blast
  have "(log_step toy_crypto)\<^sup>*\<^sup>* [] (ag_log (toy_agent [r]))"
    using r(1) by (simp add: r_into_rtranclp)
  from replay_refused [OF this _ r(2,3) _ p(1,2) toy_agent_simps(2) p(3), of "''code''" "''0''" 7] r(4,5)
  show ?thesis by fastforce
qed

text \<open>C9: What an accepted delegation guarantees: the issuer named in the token is a registered peer,
  the token verified under that peer's key, for this agent, the required scope and the peer's
  manifest at this time; the returned claims name that issuer; if the token's id is a text, no
  started or completed delegation in the log has it; and the agent is unchanged.\<close>

theorem accepted_delegation_sound:
  assumes "(log_step C)\<^sup>*\<^sup>* [] (ag_log a)" and "verify_delegation C a token scope uuid now = (a', Inr cl)"
  shows "a' = a \<and> (\<exists>i pr j p. dc_iss cl = JStr i \<and> ag_peers a i = Some pr
    \<and> verify_token C token (pr_public_key pr) (ag_id a) (Some scope) (Some (pr_manifest_content pr)) now = Inr cl
    \<and> peek_payload token = Inr p \<and> py_index p ''jti'' = Inr j \<and> dc_jti cl = py_str j
    \<and> (\<forall>t r kvs sigs. j = JStr t \<and> r \<in> set (ag_log a) \<and> stored r (JDict kvs) sigs
        \<and> map_of kvs ''type'' \<in> {Some (JStr ''delegation.started''), Some (JStr ''delegation.completed'')}
        \<longrightarrow> map_of kvs ''token_jti'' \<noteq> Some (JStr t)))"
proof -
  have wf: "wf_log (ag_log a)"
    using log_steps_wf [OF assms(1)] by simp
  obtain p i pr j where d: "a' = a" "peek_payload token = Inr p" "py_index p ''iss'' = Inr (JStr i)" "ag_peers a i = Some pr"
      "py_index p ''jti'' = Inr j" "prior_uses a j = Inr []"
      "verify_token C token (pr_public_key pr) (ag_id a) (Some scope) (Some (pr_manifest_content pr)) now = Inr cl"
    using verify_delegation_Inr [OF assms(2)] by blast
  obtain h payload where v: "verify_compact C token (pr_public_key pr) = Inr (h, payload)" "claims_of_payload payload = Inr cl"
    using d(7) by (auto simp: verify_token_Inr)
  have "payload = p"
    using peek_verify_compact [OF v(1)] d(2) by simp
  then have "dc_iss cl = JStr i" "dc_jti cl = py_str j"
    using claims_of_payload_fields(5,6) [OF v(2)] d(3,5) by auto
  moreover have "\<not> log_uses (ag_log a) (JStr t)" if "j = JStr t" for t
    using prior_uses_text [OF wf, of t] d(6) that by auto
  then have "map_of kvs ''token_jti'' \<noteq> Some (JStr t)"
    if "j = JStr t" "r \<in> set (ag_log a)" "stored r (JDict kvs) sigs"
      "map_of kvs ''type'' \<in> {Some (JStr ''delegation.started''), Some (JStr ''delegation.completed'')}" for t r kvs sigs
    using that by (fastforce simp: log_uses_def event_uses_def)
  ultimately show ?thesis
    using d by blast
qed

lemma accepted_delegation_sound_witness:
  "\<exists>token cl. verify_delegation toy_crypto (toy_agent []) token ''code.write.python.x'' ''2'' 130 = (toy_agent [], Inr cl)
    \<and> (\<exists>i. dc_iss cl = JStr i)"
proof -
  obtain token cl where v: "verify_delegation toy_crypto (toy_agent []) token ''code.write.python.x'' ''2'' 130 = (toy_agent [], Inr cl)"
    using toy_accept by blast
  have "(log_step toy_crypto)\<^sup>*\<^sup>* [] (ag_log (toy_agent []))"
    by simp
  from accepted_delegation_sound [OF this v] v show ?thesis by blast
qed

text \<open>C36: The replay test misses a token whose id is a number: such an id is kept as text in the log
  (\<open>str(jti)\<close>) and compared as a number, so, on a log whose token ids are texts or null, the token
  is verified as if it had never been used, however often it was.\<close>

theorem numeric_jti_not_replay_protected:
  assumes "(log_step C)\<^sup>*\<^sup>* [] (ag_log a)"
    and "\<And>r kvs sigs. r \<in> set (ag_log a) \<Longrightarrow> stored r (JDict kvs) sigs \<Longrightarrow>
      map_of kvs ''token_jti'' = Some JNull \<or> (\<exists>t. map_of kvs ''token_jti'' = Some (JStr t))"
    and "peek_payload token = Inr p" and "py_index p ''iss'' = Inr (JStr i)" and "ag_peers a i = Some pr"
    and "py_index p ''jti'' = Inr (JInt n)" and "- (2 ^ 63) \<le> n" and "n < 2 ^ 63"
  shows "verify_delegation C a token scope uuid now =
    (a, verify_token C token (pr_public_key pr) (ag_id a) (Some scope) (Some (pr_manifest_content pr)) now)"
proof -
  have wf: "wf_log (ag_log a)"
    using log_steps_wf [OF assms(1)] by simp
  have "\<not> log_uses (ag_log a) (JInt n)"
  proof
    assume "log_uses (ag_log a) (JInt n)"
    then obtain r kvs sigs tj where "r \<in> set (ag_log a)" "stored r (JDict kvs) sigs" "map_of kvs ''token_jti'' = Some tj"
        "py_eq tj (JInt n)"
      by (auto simp: log_uses_def event_uses_def)
    then show False
      using assms(2) by (fastforce simp: py_eq_def)
  qed
  moreover have "bind_text (JInt n) = Inr (Some (int_str n))"
    using assms(7,8) by (simp add: bind_text_def bind_int_def)
  ultimately have "prior_uses a (JInt n) = Inr []"
    using prior_uses_wf [OF wf] by fastforce
  then show ?thesis
    using verify_delegation_fresh assms(3-6) by blast
qed

lemma numeric_jti_not_replay_protected_witness:
  "\<exists>r. verify_delegation toy_crypto (toy_agent [r]) (sign_compact toy_crypto (toy_payload (JInt 5)) toy_keypair) ''code'' ''0'' 7
    = (toy_agent [r], verify_token toy_crypto (sign_compact toy_crypto (toy_payload (JInt 5)) toy_keypair)
        (kp_public toy_keypair) (ag_id (toy_agent [r])) (Some ''code'') (Some (manifest_content toy_manifest)) 7)"
proof -
  obtain r kvs sigs where r: "log_step toy_crypto [] [r]" "stored r (JDict kvs) sigs"
      "map_of kvs ''token_jti'' = Some (JStr ''tkn_1'')"
    using toy_used_log [of toy_crypto] by blast
  obtain p where p: "peek_payload (sign_compact toy_crypto (toy_payload (JInt 5)) toy_keypair) = Inr p"
      "py_index p ''iss'' = Inr (JStr (agent_id toy_identity))" "py_index p ''jti'' = Inr (JInt 5)"
    using toy_payload_peek [of "JInt 5" "''t''" 5] by blast
  have 1: "(log_step toy_crypto)\<^sup>*\<^sup>* [] (ag_log (toy_agent [r]))"
    using r(1) by (simp add: r_into_rtranclp)
  have 2: "map_of kvs' ''token_jti'' = Some JNull \<or> (\<exists>t. map_of kvs' ''token_jti'' = Some (JStr t))"
    if "q \<in> set (ag_log (toy_agent [r]))" "stored q (JDict kvs') sigs'" for q kvs' sigs'
    using that r(2,3) stored_unique by fastforce
  have "verify_delegation toy_crypto (toy_agent [r]) (sign_compact toy_crypto (toy_payload (JInt 5)) toy_keypair) ''code'' ''0'' 7
    = (toy_agent [r], verify_token toy_crypto (sign_compact toy_crypto (toy_payload (JInt 5)) toy_keypair)
        (pr_public_key toy_peer) (ag_id (toy_agent [r])) (Some ''code'') (Some (pr_manifest_content toy_peer)) 7)"
    by (rule numeric_jti_not_replay_protected [OF 1 _ p(1,2) toy_agent_simps(2) p(3)]) (erule (1) 2, simp_all)
  then show ?thesis
    unfolding toy_peer_def peer_record.simps by blast
qed

end
