(* ===== verification/Atf_Server.thy ===== *)
theory Atf_Server
  imports Atf_Wire Atf_Agent_Claims Atf_Fuel "HOL-Library.Multiset"
begin

text \<open>
  The server as a state machine. Requests interleave where the endpoint awaits its handler, so the
  state is the agent with the runs that wait; a history variable lists every run started. Beside
  the endpoints, the agent may use its log and register peers as it likes, and the process may end at
  any time and be started again on its data directory, which forgets the waiting runs and the
  peers. The invariant is that a run starts only with a token no earlier run used and that its
  start is in the log.
\<close>

section \<open>What an endpoint does to the agent\<close>

lemma of_res_Reply [simp]: "of_res r = Reply x \<longleftrightarrow> r = Inr x" "Reply x = of_res r \<longleftrightarrow> r = Inr x"
  by (auto simp: of_res_def split: sum.splits)

lemma of_res_simps [simp, result_simps]: "of_res (Inr x) = Reply x" "of_res (Inl e) = Crash e"
  by (simp_all add: of_res_def)

lemma bind_http_simps [simp, result_simps]:
  "bind_http (Reply x) f = f x" "bind_http (HttpError s m) f = HttpError s m" "bind_http (Crash e) f = Crash e"
  by (simp_all add: bind_http_def)

lemma bind_http_Reply [simp]: "bind_http r f = Reply y \<longleftrightarrow> (\<exists>x. r = Reply x \<and> f x = Reply y)"
  by (cases r) auto

lemma delegation_refusal_not_Reply [simp]: "delegation_refusal e \<noteq> Reply x"
  by (simp add: delegation_refusal_def)

lemma delegation_refusal_through [simp]:
  "(case delegation_refusal e of Reply x \<Rightarrow> f x | HttpError s m \<Rightarrow> (a, HttpError s m) | Crash e' \<Rightarrow> (a, Crash e'))
     = (a, delegation_refusal e)"
  by (auto simp: delegation_refusal_def)

lemma find_handler_Reply:
  "(case lookup_key hs k of None \<Rightarrow> HttpError st m | Some spec \<Rightarrow> Reply (f spec)) = Reply y \<longleftrightarrow>
     (\<exists>s spec. k = JStr s \<and> hs s = Some spec \<and> y = f spec)"
  by (auto simp: lookup_key_Some split: option.splits)

lemma read_invoke_Reply:
  "read_invoke hs hdr raw = Reply (token, body, spec) \<longleftrightarrow>
     (\<exists>kvs pkvs action. hdr = Some token \<and> token \<noteq> [] \<and> loads_bytes raw = Inr body \<and> body = JDict kvs
        \<and> map_of kvs ''payload'' = Some (JDict pkvs) \<and> map_of pkvs ''action'' = Some (JStr action)
        \<and> action \<noteq> [] \<and> hs action = Some spec)"
proof -
  have get: "bind_res (py_get_or body ''payload'' (JDict [])) (\<lambda>p. py_get p ''action'') = Inr act \<and> py_true act \<longleftrightarrow>
      (\<exists>kvs pkvs. body = JDict kvs \<and> map_of kvs ''payload'' = Some (JDict pkvs)
        \<and> map_of pkvs ''action'' = Some act \<and> py_true act)" for body act
    by (cases body) (auto simp: py_get_or_def py_get_Inr split: option.splits)
  have h: "hashed (JStr s) = Inr (JStr s)" for s
    by (simp add: hashed_def hashable_def)
  have "read_invoke hs hdr raw = Reply (token, body, spec) \<longleftrightarrow> hdr = Some token \<and> token \<noteq> []
      \<and> loads_bytes raw = Inr body \<and> (\<exists>act. (bind_res (py_get_or body ''payload'' (JDict [])) (\<lambda>p. py_get p ''action'') = Inr act
      \<and> py_true act) \<and> (\<exists>s. act = JStr s \<and> hs s = Some spec))"
    by (cases hdr) (auto simp: read_invoke_def Let_def find_handler_Reply simp del: bind_res_eq_Inr, metis h py_true.simps(5))
  then show ?thesis
    unfolding get by auto
qed

section \<open>Values from the network are normal\<close>

lemma verify_compact_normal: "verify_compact C token pk = Inr (h, payload) \<Longrightarrow> normal payload"
  by (auto simp: verify_compact_iff compact_ok_def dest: loads_bytes_normal)

lemma peek_payload_normal: "peek_payload token = Inr p \<Longrightarrow> normal p"
  by (auto simp: peek_payload_def split: list.splits dest: loads_bytes_normal)

lemma py_index_normal: "py_index d k = Inr v \<Longrightarrow> normal d \<Longrightarrow> normal v"
  by (auto simp: py_index_Inr intro: normal_member)

lemma py_get_normal: "py_get d k = Inr v \<Longrightarrow> normal d \<Longrightarrow> normal v"
  by (auto simp: py_get_Inr split: option.splits intro: normal_member)

lemma py_iter_normal: "py_iter v = Inr xs \<Longrightarrow> normal v \<Longrightarrow> x \<in> set xs \<Longrightarrow> normal x"
  by (cases v) (auto simp: py_iter_def)

lemmas value_normal = loads_bytes_normal verify_compact_normal peek_payload_normal py_index_normal
  py_get_normal

lemma verify_token_normal:
  assumes "verify_token C token pk expected required manifest now = Inr cl"
  shows "normal (dc_iss cl)" and "normal (dc_sub cl)" and "\<forall>s \<in> set (dc_scope cl). normal s"
proof -
  obtain h p where v: "verify_compact C token pk = Inr (h, p)" and c: "claims_of_payload p = Inr cl"
    using assms by (auto simp: verify_token_Inr)
  note n = verify_compact_normal [OF v] and f = claims_of_payload_fields [OF c]
  show "normal (dc_iss cl)" "normal (dc_sub cl)"
    using py_index_normal [OF f(6) n] py_index_normal [OF f(4) n] .
  obtain w where w: "py_index p ''scope'' = Inr w" "py_iter w = Inr (dc_scope cl)"
    using f(1) by auto
  show "\<forall>s \<in> set (dc_scope cl). normal s"
    using py_iter_normal [OF w(2) py_index_normal [OF w(1) n]] by blast
qed

lemma new_event_normal:
  "normal_event (new_event ty j d e fs u n) \<longleftrightarrow> normal j \<and> normal d \<and> normal e \<and> normal (JDict fs)"
  by (auto simp: normal_event_def event_content_def new_event_def)

lemma verify_delegation_step:
  assumes "verify_delegation C a token scope uuid now = (a', r)"
  shows "a' = a \<or> (\<exists>ev. journal C a ev = Inr a' \<and> normal_event ev \<and> ev_type ev = JStr ''delegation.replay_attempt''
    \<and> (\<exists>e. r = Inl e))"
proof (cases "a' = a")
  case False
  then obtain p iss j where p: "peek_payload token = Inr p" "py_index p ''iss'' = Inr iss" "py_index p ''jti'' = Inr j"
    and j: "journal C a (new_event ''delegation.replay_attempt'' j iss (JStr (ag_id a)) [] uuid now) = Inr a'"
    and e: "\<exists>e. r = Inl e"
    using assms by (auto simp: verify_delegation_def Let_def raise_def split: sum.splits if_splits)
  have "normal_event (new_event ''delegation.replay_attempt'' j iss (JStr (ag_id a)) [] uuid now)"
    using peek_payload_normal [OF p(1)] p(2,3) by (auto simp: new_event_normal intro: py_index_normal)
  then show ?thesis
    using j e by (metis new_event_simps(1))
qed simp

lemma start_run_ok:
  assumes "read_invoke hs hdr raw = Reply (token, body, spec)"
  shows "\<exists>params rid. start_run body cl spec
    = Inr \<lparr>run_claims = cl, run_spec = spec, run_params = params, run_request_id = rid\<rparr>
      \<and> normal rid \<and> normal params"
proof -
  obtain kvs pkvs where b: "loads_bytes raw = Inr body" "body = JDict kvs" "map_of kvs ''payload'' = Some (JDict pkvs)"
    using assms by (auto simp: read_invoke_Reply)
  have body: "normal v" if "map_of kvs k = Some v" for k v
    using that normal_member loads_bytes_normal [OF b(1)] b(2) by blast
  have "normal v" if "map_of pkvs k = Some v" for k v
    using that normal_member body [OF b(3)] by blast
  with body show ?thesis
    using b(2,3) by (auto simp: start_run_def or_empty_def split: option.splits)
qed

lemma invoke_begin_Reply:
  "invoke_begin C hs a hdr raw t1 t2 = (a', Reply r) \<longleftrightarrow>
     (\<exists>token body spec cl. read_invoke hs hdr raw = Reply (token, body, spec)
        \<and> verify_delegation C a token (hs_capability spec) (fst t1) (snd t1) = (a, Inr cl)
        \<and> journal C a (started_event a cl t2) = Inr a' \<and> start_run body cl spec = Inr r)"
    (is "?L \<longleftrightarrow> ?R")
proof
  assume ?L
  then obtain token body spec a1 cl where v: "read_invoke hs hdr raw = Reply (token, body, spec)"
      "verify_delegation C a token (hs_capability spec) (fst t1) (snd t1) = (a1, Inr cl)"
      "journal C a1 (started_event a1 cl t2) = Inr a'" "start_run body cl spec = Inr r"
    by (auto simp: invoke_begin_defs split: http.splits prod.splits sum.splits)
  moreover have "a1 = a"
    using verify_delegation_Inr [OF v(2)] by simp
  ultimately show ?R
    by blast
next
  assume ?R
  then show ?L
    by (auto simp: invoke_begin_defs)
qed

text \<open>A request that starts no run leaves the agent alone or journals a replay attempt.\<close>

lemma invoke_begin_refused:
  assumes "invoke_begin C hs a hdr raw t1 t2 = (a', x)" and "\<And>r. x \<noteq> Reply r"
  shows "a' = a \<or> (\<exists>ev. journal C a ev = Inr a' \<and> normal_event ev \<and> ev_type ev = JStr ''delegation.replay_attempt'')"
proof (cases "read_invoke hs hdr raw")
  case (Reply y)
  obtain token body spec where y: "y = (token, body, spec)" by (cases y)
  note rd = Reply [unfolded y]
  obtain a1 res where v: "verify_delegation C a token (hs_capability spec) (fst t1) (snd t1) = (a1, res)"
    by fastforce
  show ?thesis
  proof (cases res)
    case (Inl e)
    then have "a' = a1"
      using assms(1) rd v by (simp add: invoke_begin_defs)
    then show ?thesis
      using verify_delegation_step [OF v] by blast
  next
    case (Inr cl)
    then have "a1 = a"
      using v verify_delegation_Inr by blast
    moreover have "journal C a1 (started_event a1 cl t2) \<noteq> Inr a2" for a2
    proof
      assume "journal C a1 (started_event a1 cl t2) = Inr a2"
      then have "\<exists>r. x = Reply r"
        using assms(1) rd v Inr start_run_ok [OF rd, of cl] by (auto simp: invoke_begin_defs)
      then show False
        using assms(2) by blast
    qed
    ultimately show ?thesis
      using assms(1) rd v Inr by (cases "journal C a1 (started_event a1 cl t2)") (auto simp: invoke_begin_defs)
  qed
qed (use assms in \<open>auto simp: invoke_begin_defs\<close>)

lemma verify_delegation_claims:
  assumes "verify_delegation C a token scope uuid now = (a', Inr cl)"
  shows "\<exists>p i pr j. peek_payload token = Inr p \<and> py_index p ''iss'' = Inr (JStr i) \<and> ag_peers a i = Some pr
    \<and> py_index p ''jti'' = Inr j \<and> prior_uses a j = Inr [] \<and> dc_jti cl = py_str j
    \<and> verify_token C token (pr_public_key pr) (ag_id a) (Some scope) (Some (pr_manifest_content pr)) now = Inr cl"
proof -
  obtain p i pr j where v: "peek_payload token = Inr p" "py_index p ''iss'' = Inr (JStr i)" "ag_peers a i = Some pr"
      "py_index p ''jti'' = Inr j" "prior_uses a j = Inr []"
      "verify_token C token (pr_public_key pr) (ag_id a) (Some scope) (Some (pr_manifest_content pr)) now = Inr cl"
    using verify_delegation_Inr [OF assms] by blast
  obtain h q where q: "verify_compact C token (pr_public_key pr) = Inr (h, q)" "claims_of_payload q = Inr cl"
    using v(6) by (auto simp: verify_token_Inr)
  have "q = p"
    using peek_verify_compact [OF q(1)] v(1) by simp
  then have "dc_jti cl = py_str j"
    using claims_of_payload_fields(5) [OF q(2)] v(4) by auto
  then show ?thesis
    using v by blast
qed

lemma invoke_begin_claims:
  assumes "invoke_begin C hs a hdr raw t1 t2 = (a', Reply r)"
  shows "\<exists>token i pr j p. verify_token C token (pr_public_key pr) (ag_id a) (Some (hs_capability (run_spec r)))
      (Some (pr_manifest_content pr)) (snd t1) = Inr (run_claims r)
    \<and> ag_peers a i = Some pr \<and> peek_payload token = Inr p \<and> py_index p ''iss'' = Inr (JStr i)
    \<and> py_index p ''jti'' = Inr j \<and> prior_uses a j = Inr [] \<and> dc_jti (run_claims r) = py_str j
    \<and> journal C a (started_event a (run_claims r) t2) = Inr a' \<and> normal (run_request_id r) \<and> normal (run_params r)"
proof -
  obtain token body spec cl where b: "read_invoke hs hdr raw = Reply (token, body, spec)"
      "verify_delegation C a token (hs_capability spec) (fst t1) (snd t1) = (a, Inr cl)"
      "journal C a (started_event a cl t2) = Inr a'" "start_run body cl spec = Inr r"
    using assms by (auto simp: invoke_begin_Reply)
  have r: "run_claims r = cl" "run_spec r = spec" "normal (run_request_id r)" "normal (run_params r)"
    using start_run_ok [OF b(1), of cl] b(4) by auto
  show ?thesis
    using verify_delegation_claims [OF b(2)] b(3) r by blast
qed

lemma started_event_normal:
  assumes "verify_token C token pk expected required manifest now = Inr cl"
  shows "normal_event (started_event a cl t)"
  using verify_token_normal [OF assms] by (simp add: started_event_def new_event_normal)

lemma build_completion_ok:
  "build_completion_event cl (make_outcome C a jti status payload schema reason now) u n =
     Inr (new_event (if status = ''ok'' then ''delegation.completed'' else ''delegation.failed'')
       (JStr (dc_jti cl)) (dc_iss cl) (dc_sub cl)
       [(''purpose'', JStr (dc_purpose cl)), (''scope'', JList (dc_scope cl)), (''status'', JStr status),
        (''outcome_hash'', JStr (hash_text (canonical_json payload))), (''schema_id'', JStr schema)] u n)"
  by (simp add: build_completion_event_def make_outcome_def sign_outcome_def outcome_content_def payload_hash_canonical Let_def)

section \<open>The state machine\<close>

datatype server = Server (sv_agent: agent) (sv_running: "run list") (sv_history: "claims list")

inductive serve_step :: "crypto \<Rightarrow> handlers \<Rightarrow> server \<Rightarrow> server \<Rightarrow> bool" for C hs where
  started: "invoke_begin C hs a hdr raw t1 t2 = (a', Reply r)
    \<Longrightarrow> serve_step C hs (Server a rs h) (Server a' (r # rs) (run_claims r # h))"
| refused: "invoke_begin C hs a hdr raw t1 t2 = (a', x) \<Longrightarrow> (\<And>r. x \<noteq> Reply r)
    \<Longrightarrow> serve_step C hs (Server a rs h) (Server a' rs h)"
| finished: "r \<in> set rs \<Longrightarrow> invoke_finish C a r result now t = (a', x)
    \<Longrightarrow> serve_step C hs (Server a rs h) (Server a' (remove1 r rs) h)"
| cosigned: "audit_cosign C a raw = (a', x) \<Longrightarrow> serve_step C hs (Server a rs h) (Server a' rs h)"
| own_log: "log_step C (ag_log a) log' \<Longrightarrow> serve_step C hs (Server a rs h) (Server (set_log log' a) rs h)"
| registered: "register_peer C a i jwk pk env = Inr (p, a')
    \<Longrightarrow> serve_step C hs (Server a rs h) (Server a' rs h)"
| restarted: "create C nam ownr kid (ag_data_dir a) fresh = Inr a'
    \<Longrightarrow> serve_step C hs (Server a rs h) (Server a' [] h)"

inductive_cases serve_stepE: "serve_step C hs (Server a rs h) s"

text \<open>A run that waits holds claims whose values are normal, so its completion event is.\<close>

definition normal_claims :: "claims \<Rightarrow> bool" where
  "normal_claims cl \<longleftrightarrow> normal (dc_iss cl) \<and> normal (dc_sub cl) \<and> (\<forall>s \<in> set (dc_scope cl). normal s)"

text \<open>The log has a started delegation with this token id.\<close>

definition log_started :: "audit_log \<Rightarrow> string \<Rightarrow> bool" where
  "log_started log j \<longleftrightarrow>
     (\<exists>r \<in> set log. row_type r = ''delegation.started'' \<and> row_token_jti r = Some j \<and> \<not> row_pending r)
     \<and> log_uses log (JStr j)"

definition server_inv :: "server \<Rightarrow> bool" where
  "server_inv s \<longleftrightarrow> wf_log (ag_log (sv_agent s))
     \<and> (\<forall>cl \<in> set (sv_history s). log_started (ag_log (sv_agent s)) (dc_jti cl))
     \<and> (\<forall>u. length (filter (\<lambda>cl. dc_jti cl = ''tkn_'' @ u) (sv_history s)) \<le> 1)
     \<and> mset (map run_claims (sv_running s)) \<subseteq># mset (sv_history s)
     \<and> (\<forall>r \<in> set (sv_running s). normal_claims (run_claims r))"

lemma log_le_row: "log_le l l' \<Longrightarrow> r \<in> set l \<Longrightarrow> \<exists>r' \<in> set l'. row_le r r'"
  by (metis in_set_conv_nth log_le_def nth_mem order_less_le_trans)

lemma log_uses_mono:
  assumes "log_le l l'" and "log_uses l j"
  shows "log_uses l' j"
proof -
  obtain r c sigs where r: "r \<in> set l" "stored r c sigs" "event_uses j c"
    using assms(2) by (auto simp: log_uses_def)
  obtain r' where r': "r' \<in> set l'" "row_le r r'"
    using log_le_row [OF assms(1) r(1)] by blast
  then show ?thesis
    using r(2,3) unfolding log_uses_def row_le_def by blast
qed

lemma log_started_mono:
  assumes "log_le l l'" and "log_started l j"
  shows "log_started l' j"
proof -
  obtain r where r: "r \<in> set l" "row_type r = ''delegation.started''" "row_token_jti r = Some j" "\<not> row_pending r"
    using assms(2) by (auto simp: log_started_def)
  obtain r' where "r' \<in> set l'" "row_le r r'"
    using log_le_row [OF assms(1) r(1)] by blast
  then show ?thesis
    using r(2-4) assms(2) log_uses_mono [OF assms(1)] by (auto simp: log_started_def row_le_def)
qed

text \<open>Whatever the agent does to its log in steps, the invariant stays.\<close>

lemma server_inv_log:
  assumes "server_inv (Server a rs h)" and "ag_log a' = ag_log a \<or> log_step C (ag_log a) (ag_log a')"
    and "mset (map run_claims rs') \<subseteq># mset h" and "set rs' \<subseteq> set rs"
  shows "server_inv (Server a' rs' h)"
proof -
  have wf: "wf_log (ag_log a)"
    using assms(1) by (simp add: server_inv_def)
  have "wf_log (ag_log a') \<and> log_le (ag_log a) (ag_log a')"
    using assms(2) wf log_step_wf log_step_le by fastforce
  then show ?thesis
    using assms(1,3,4) log_started_mono by (auto simp: server_inv_def)
qed

text \<open>A token id with the prefix of issued ids is a string wherever it is read as text.\<close>

lemma starts_number_not_tkn: "starts_number s \<Longrightarrow> s \<noteq> ''tkn_'' @ u"
  by (auto simp: starts_number_def is_digit_def)

lemma py_str_tkn: "py_str v = ''tkn_'' @ u \<Longrightarrow> v = JStr (''tkn_'' @ u)"
  using int_str_starts float_repr_starts starts_number_not_tkn
  by (cases v) (auto simp: py_str_def split: if_splits)

lemma inserts_uses:
  assumes "inserts log ev (audit_record (event_content ev) sigs) pending r" and "normal_event ev"
    and "\<forall>s \<in> set sigs. normal s" and "ev_token_jti ev = JStr j"
    and "ev_type ev \<in> {JStr ''delegation.started'', JStr ''delegation.completed''}"
  shows "log_uses (log @ [r]) (JStr j)"
proof -
  obtain kvs where kvs: "event_content ev = JDict kvs" "distinct (map fst kvs)"
      "map_of kvs ''token_jti'' = Some (JStr j)" "map_of kvs ''type'' = Some (ev_type ev)"
    using assms(4) by (simp add: event_content_def)
  have s: "stored r (JDict (sort_dict kvs)) (map sort_json sigs)"
    using inserts_stored [OF assms(1-3)] kvs(1) sort_json_sort_dict by simp
  have "event_uses (JStr j) (JDict (sort_dict kvs))"
    using sort_dict_lookup [OF kvs(2)] kvs(3,4) assms(5) by (auto simp: event_uses_def)
  then show ?thesis
    using s unfolding log_uses_def by (meson in_set_conv_decomp)
qed

lemma started_journal:
  assumes "journal C a (started_event a cl t) = Inr a'" and "normal_event (started_event a cl t)"
  shows "log_started (ag_log a') (dc_jti cl)"
proof -
  let ?ev = "started_event a cl t"
  let ?sig = "sign_envelope C (event_content ?ev) (ag_keypair a) (ag_id a)"
  obtain r where r: "inserts (ag_log a) ?ev (audit_record (event_content ?ev) [?sig]) False r"
    and a': "a' = set_log (ag_log a @ [r]) a"
    using assms(1) by (auto simp: journal_Inr)
  have e: "ev_type ?ev = JStr ''delegation.started''" "ev_token_jti ?ev = JStr (dc_jti cl)"
    by (simp_all add: started_event_def)
  have "log_uses (ag_log a @ [r]) (JStr (dc_jti cl))"
    using inserts_uses [OF r assms(2)] e by simp
  moreover have "row_type r = ''delegation.started''" "row_token_jti r = Some (dc_jti cl)" "\<not> row_pending r"
    using r e by (auto simp: inserts_def)
  ultimately show ?thesis
    by (auto simp: a' log_started_def)
qed

lemma server_inv_started:
  assumes "invoke_begin C hs a hdr raw t1 t2 = (a', Reply r)" and inv: "server_inv (Server a rs h)"
  shows "server_inv (Server a' (r # rs) (run_claims r # h))"
proof -
  let ?cl = "run_claims r"
  obtain token and pr :: peer_record and j where v: "verify_token C token (pr_public_key pr) (ag_id a) (Some (hs_capability (run_spec r)))
      (Some (pr_manifest_content pr)) (snd t1) = Inr ?cl"
    and j: "prior_uses a j = Inr []" "dc_jti ?cl = py_str j"
    and w: "journal C a (started_event a ?cl t2) = Inr a'"
    using invoke_begin_claims [OF assms(1)] by blast
  note ev = started_event_normal [OF v, of a t2]
  have wf: "wf_log (ag_log a)"
    using inv by (simp add: server_inv_def)
  note st = journal_step [OF w ev]
  have old: "server_inv (Server a' rs h)"
    by (rule server_inv_log [OF inv disjI2 [OF st]]) (use inv in \<open>simp_all add: server_inv_def\<close>)
  have n: "normal_claims ?cl"
    using verify_token_normal [OF v] by (simp add: normal_claims_def)
  have fresh: "dc_jti c \<noteq> dc_jti ?cl" if "dc_jti ?cl = ''tkn_'' @ u" "c \<in> set h" for u c
  proof
    assume eq: "dc_jti c = dc_jti ?cl"
    have "j = JStr (''tkn_'' @ u)"
      using j(2) that(1) by (metis py_str_tkn)
    then have "\<not> log_uses (ag_log a) (JStr (dc_jti ?cl))"
      using prior_uses_text [OF wf, of "''tkn_'' @ u"] j(1) that(1) by auto
    moreover have "log_uses (ag_log a) (JStr (dc_jti c))"
      using inv that(2) by (simp add: server_inv_def log_started_def)
    ultimately show False
      using eq by simp
  qed
  have "length (filter (\<lambda>c. dc_jti c = ''tkn_'' @ u) (?cl # h)) \<le> 1" for u
  proof (cases "dc_jti ?cl = ''tkn_'' @ u")
    case True
    then have "filter (\<lambda>c. dc_jti c = ''tkn_'' @ u) h = []"
      using fresh [of u] by (auto simp: filter_empty_conv)
    then show ?thesis by simp
  next
    case False
    then show ?thesis
      using old by (simp add: server_inv_def)
  qed
  then show ?thesis
    using old started_journal [OF w ev] n by (simp add: server_inv_def)
qed

lemma invoke_finish_cases:
  assumes "invoke_finish C a r result now t = (a', x)"
  shows "(\<exists>e. a' = a \<and> x = Crash e)
    \<or> (\<exists>env ev row. x = Reply (invoke_reply (run_request_id r) env ev (sign_only C ev (ag_keypair a) (ag_id a)))
       \<and> append_pending (ag_log a) ev (sign_only C ev (ag_keypair a) (ag_id a))
           = Inr (audit_record (event_content ev) [sign_only C ev (ag_keypair a) (ag_id a)], ag_log a @ [row])
       \<and> a' = set_log (ag_log a @ [row]) a
       \<and> (\<exists>status payload reason. handler_outcome result = Inr (status, payload, reason)
           \<and> env = make_outcome C a (dc_jti (run_claims r)) status payload (hs_schema_id (run_spec r)) reason now
           \<and> build_completion_event (run_claims r) env (fst t) (snd t) = Inr ev))"
proof (cases "handler_outcome result")
  case (Inl e)
  then show ?thesis
    using assms by (auto simp: invoke_finish_def)
next
  case (Inr q)
  then obtain status payload reason where o: "handler_outcome result = Inr (status, payload, reason)"
    by (cases q) auto
  let ?env = "make_outcome C a (dc_jti (run_claims r)) status payload (hs_schema_id (run_spec r)) reason now"
  obtain ev where ev: "build_completion_event (run_claims r) ?env (fst t) (snd t) = Inr ev"
    by (simp add: build_completion_ok)
  let ?sig = "sign_only C ev (ag_keypair a) (ag_id a)"
  show ?thesis
  proof (cases "append_pending (ag_log a) ev ?sig")
    case (Inl e)
    then show ?thesis
      using assms o ev by (auto simp: invoke_finish_def Let_def)
  next
    case (Inr p)
    then obtain row where p: "p = (audit_record (event_content ev) [?sig], ag_log a @ [row])"
      by (cases p) (auto simp: append_pending_Inr)
    then have "x = Reply (invoke_reply (run_request_id r) ?env ev ?sig)" "a' = set_log (ag_log a @ [row]) a"
      using assms o ev Inr by (simp_all add: invoke_finish_def Let_def)
    then show ?thesis
      using o ev Inr p by blast
  qed
qed

lemma audit_cosign_cases:
  assumes "audit_cosign C a raw = (a', x)"
  shows "(a' = a \<and> (\<forall>v. x \<noteq> Reply v))
    \<or> (\<exists>eid sig i p rcd log. read_cosign raw = Inr (eid, sig, JStr i) \<and> ag_peers a i = Some p
         \<and> finalize_pending C (ag_log a) eid sig (pr_public_key p) = Inr (rcd, log)
         \<and> a' = set_log log a \<and> x = Reply (JDict [(''status'', JStr ''ok'')]))"
proof (cases "read_cosign raw")
  case (Inr q)
  obtain eid sig peer where q: "q = (eid, sig, peer)" by (cases q)
  show ?thesis
  proof (cases "lookup_key (ag_peers a) peer")
    case (Some p)
    then obtain i where i: "peer = JStr i" "ag_peers a i = Some p"
      by (auto simp: lookup_key_Some)
    then show ?thesis
      using assms Inr q
      by (cases "finalize_pending C (ag_log a) eid sig (pr_public_key p)") (auto simp: audit_cosign_def find_peer_Str split: if_splits)
  qed (use assms Inr q in \<open>auto simp: audit_cosign_def\<close>)
qed (use assms in \<open>auto simp: audit_cosign_def\<close>)

lemma read_cosign_normal: "read_cosign raw = Inr (eid, sig, peer) \<Longrightarrow> normal sig"
  by (auto simp: read_cosign_def intro: value_normal)

lemma invoke_finish_step:
  assumes "invoke_finish C a r result now t = (a', x)" and "normal_claims (run_claims r)"
  shows "a' = a \<or> log_step C (ag_log a) (ag_log a')"
  using invoke_finish_cases [OF assms(1)]
proof (elim disjE exE conjE)
  fix env ev row status payload reason
  let ?sig = "sign_only C ev (ag_keypair a) (ag_id a)"
  assume p: "append_pending (ag_log a) ev ?sig
      = Inr (audit_record (event_content ev) [?sig], ag_log a @ [row])"
    and e: "env = make_outcome C a (dc_jti (run_claims r)) status payload (hs_schema_id (run_spec r)) reason now"
      "build_completion_event (run_claims r) env (fst t) (snd t) = Inr ev"
    and a': "a' = set_log (ag_log a @ [row]) a"
  have "normal_event ev"
    using e assms(2) by (auto simp: build_completion_ok new_event_normal normal_claims_def)
  then show ?thesis
    using log_step.pending [OF p] a' by (simp add: sign_only_def)
qed simp

lemma audit_cosign_step:
  assumes "audit_cosign C a raw = (a', x)"
  shows "a' = a \<or> log_step C (ag_log a) (ag_log a')"
  using audit_cosign_cases [OF assms] by (auto intro: log_step.cosigned read_cosign_normal)

lemma register_peer_log: "register_peer C a i jwk pk env = Inr (p, a') \<Longrightarrow> ag_log a' = ag_log a"
  by (auto simp: register_peer_def Let_def split: if_splits)

lemma create_same_log: "create C nam ownr kid dir fresh = Inr a \<Longrightarrow> ag_log a = dir_log dir"
  by (auto simp: create_def Let_def split: option.splits)

lemma serve_step_inv:
  assumes "serve_step C hs s s'" and "server_inv s"
  shows "server_inv s'"
  using assms
proof (induction rule: serve_step.induct)
  case (started a hdr raw t1 t2 a' r rs h)
  then show ?case
    using server_inv_started by blast
next
  case (refused a hdr raw t1 t2 a' x rs h)
  then show ?case
    using invoke_begin_refused [OF refused(1,2)] journal_step
    by (intro server_inv_log [OF refused(3), of a' C rs]) (auto simp: server_inv_def)
next
  case (finished r rs a result now t a' x h)
  have "normal_claims (run_claims r)" and "mset (map run_claims rs) \<subseteq># mset h"
    using finished(1,3) by (auto simp: server_inv_def)
  then have "mset (map run_claims (remove1 r rs)) \<subseteq># mset h"
    by (simp add: image_mset_Diff finished(1)) (meson diff_subset_eq_self subset_mset.order_trans)
  then show ?case
    using invoke_finish_step [OF finished(2) \<open>normal_claims (run_claims r)\<close>]
    by (intro server_inv_log [OF finished(3), of a' C]) (auto dest: set_remove1_subset [THEN subsetD])
next
  case (cosigned a raw a' x rs h)
  then show ?case
    using audit_cosign_step [OF cosigned(1)]
    by (intro server_inv_log [OF cosigned(2), of a' C rs]) (auto simp: server_inv_def)
next
  case (own_log a log' rs h)
  then show ?case
    by (intro server_inv_log [OF own_log(2), of _ C rs]) (auto simp: server_inv_def)
next
  case (registered a i jwk pk env p a' rs h)
  then show ?case
    using register_peer_log [OF registered(1)]
    by (intro server_inv_log [OF registered(2), of a' C rs]) (auto simp: server_inv_def)
next
  case (restarted nam ownr kid a fresh a' rs h)
  then show ?case
    using create_same_log [OF restarted(1)]
    by (intro server_inv_log [OF restarted(2), of a' C "[]"]) (auto simp: server_inv_def)
qed

definition start_server :: "agent \<Rightarrow> server" where
  "start_server a = Server a [] []"

lemma server_reachable_inv:
  assumes "wf_log (ag_log a)" and "(serve_step C hs)\<^sup>*\<^sup>* (start_server a) s"
  shows "server_inv s"
  using assms(2)
proof (induction rule: rtranclp_induct)
  case base
  then show ?case
    using assms(1) by (simp add: start_server_def server_inv_def)
next
  case (step s s')
  then show ?case
    by (blast intro: serve_step_inv)
qed

text \<open>Waiting runs are in the history, and no issued token has two.\<close>

lemma inv_running:
  assumes "server_inv s" and "r \<in> set (sv_running s)"
  shows "run_claims r \<in> set (sv_history s)"
proof -
  have "mset (map run_claims (sv_running s)) \<subseteq># mset (sv_history s)"
    using assms(1) by (simp add: server_inv_def)
  then show ?thesis
    using mset_subset_eqD [of _ _ "run_claims r"] assms(2) by fastforce
qed

lemma inv_one_run:
  assumes "server_inv s"
  shows "length (filter (\<lambda>r. dc_jti (run_claims r) = ''tkn_'' @ u) (sv_running s)) \<le> 1"
proof -
  let ?P = "\<lambda>cl. dc_jti cl = ''tkn_'' @ u"
  have sub: "mset (map run_claims (sv_running s)) \<subseteq># mset (sv_history s)"
    using assms by (simp add: server_inv_def)
  have one: "length (filter ?P (sv_history s)) \<le> 1"
    using assms unfolding server_inv_def by (elim conjE) (erule spec)
  have "mset (filter ?P (map run_claims (sv_running s))) \<subseteq># mset (filter ?P (sv_history s))"
    using multiset_filter_mono [OF sub, of ?P] by simp
  then have "length (filter ?P (map run_claims (sv_running s))) \<le> length (filter ?P (sv_history s))"
    by (auto dest: size_mset_mono simp only: size_mset)
  then show ?thesis
    using one by (simp only: filter_map comp_def length_map)
qed

end
