(* ===== verification/Atf_Wire_Claims.thy ===== *)
theory Atf_Wire_Claims
  imports Atf_Server
begin

text \<open>
  What the wire layer guarantees: a token starts one run however requests interleave, no run gets
  stuck, every reply carries an outcome and an event that verify, the status of a refusal is that
  of the design document, and a whole exchange leaves both sides with one doubly signed event.
  Three theorems say where the code does less than the document: malformed tokens, cosigning by
  a third peer, and what the client signs.
\<close>

section \<open>The two halves of a run\<close>

text \<open>A fresh event id and a clock reading the log can store.\<close>

definition tick_ok :: "audit_log \<Rightarrow> tick \<Rightarrow> bool" where
  "tick_ok log t \<longleftrightarrow>
     - (2 ^ 63) \<le> snd t \<and> snd t < 2 ^ 63 \<and> Some (''evt_'' @ fst t) \<notin> row_event_id ` set log"

lemma new_event_tick:
  "tick_ok log t \<Longrightarrow> insertable log (new_event ty (JStr j) d e fs (fst t) (snd t))"
  by (rule new_event_insertable [where t = "Some j"]) (auto simp: tick_ok_def)

text \<open>The result can be serialised; then it has an outcome.\<close>

definition dumped :: "handler_result \<Rightarrow> bool" where
  "dumped result \<longleftrightarrow> (\<forall>e. result \<noteq> Undumpable e)"

lemma dumped_simps [simp]: "dumped (Returned v)" "dumped (Raised cls msg)" "\<not> dumped (Undumpable e)"
  by (simp_all add: dumped_def)

lemma dumped_outcome: "dumped result \<longleftrightarrow> (\<exists>status payload reason. handler_outcome result = Inr (status, payload, reason))"
  by (cases result) (simp_all add: handler_outcome_def)

text \<open>The outcome envelope and the completion event of a run whose result has an outcome.\<close>

definition run_outcome :: "crypto \<Rightarrow> agent \<Rightarrow> run \<Rightarrow> handler_result \<Rightarrow> int \<Rightarrow> json" where
  "run_outcome C a r result now =
     (let (status, payload, reason) = projr (handler_outcome result)
      in make_outcome C a (dc_jti (run_claims r)) status payload (hs_schema_id (run_spec r)) reason now)"

definition run_event :: "run \<Rightarrow> handler_result \<Rightarrow> tick \<Rightarrow> audit_event" where
  "run_event r result t =
     (let (status, payload, reason) = projr (handler_outcome result);
          cl = run_claims r
      in new_event (if status = ''ok'' then ''delegation.completed'' else ''delegation.failed'')
           (JStr (dc_jti cl)) (dc_iss cl) (dc_sub cl)
           [(''purpose'', JStr (dc_purpose cl)), (''scope'', JList (dc_scope cl)), (''status'', JStr status),
            (''outcome_hash'', JStr (hash_text (canonical_json payload))),
            (''schema_id'', JStr (hs_schema_id (run_spec r)))] (fst t) (snd t))"

lemma run_event_simps [simp]:
  "ev_event_id (run_event r result t) = JStr (''evt_'' @ fst t)"
  "ev_token_jti (run_event r result t) = JStr (dc_jti (run_claims r))"
  "ev_ts (run_event r result t) = snd t"
  by (simp_all add: run_event_def Let_def split_beta)

lemma run_event_normal: "normal_claims (run_claims r) \<Longrightarrow> normal_event (run_event r result t)"
  by (auto simp: run_event_def Let_def split_beta new_event_normal normal_claims_def)

lemma run_event_insertable: "tick_ok log t \<Longrightarrow> insertable log (run_event r result t)"
  unfolding run_event_def Let_def split_beta by (rule new_event_tick)

text \<open>The finishing half always ends with this outcome and this event, unless the result cannot be
  serialised or the row cannot be stored.\<close>

lemma invoke_finish_eq:
  assumes "dumped result"
  shows "invoke_finish C a r result now t =
     (let ev = run_event r result t; my_sig = sign_only C ev (ag_keypair a) (ag_id a) in
      case append_pending (ag_log a) ev my_sig of
        Inl e \<Rightarrow> (a, Crash e)
      | Inr (rcd, log) \<Rightarrow>
          (set_log log a, Reply (invoke_reply (run_request_id r) (run_outcome C a r result now) ev my_sig)))"
proof -
  obtain status payload reason where o: "handler_outcome result = Inr (status, payload, reason)"
    using assms by (auto simp: dumped_outcome)
  let ?env = "make_outcome C a (dc_jti (run_claims r)) status payload (hs_schema_id (run_spec r)) reason now"
  have b: "build_completion_event (run_claims r) ?env (fst t) (snd t) = Inr (run_event r result t)"
    by (simp add: build_completion_ok run_event_def o Let_def)
  have e: "run_outcome C a r result now = ?env"
    by (simp add: run_outcome_def o)
  show ?thesis
    unfolding invoke_finish_def by (simp add: o b e Let_def split: sum.split)
qed

lemma invoke_finish_undumped: "invoke_finish C a r (Undumpable e) now t = (a, Crash e)"
  by (simp add: invoke_finish_def handler_outcome_def)

lemma invoke_finishes:
  assumes "wf_log (ag_log a)" and "tick_ok (ag_log a) t" and "dumped result"
  shows "\<exists>row. invoke_finish C a r result now t = (set_log (ag_log a @ [row]) a,
      Reply (invoke_reply (run_request_id r) (run_outcome C a r result now) (run_event r result t)
        (sign_only C (run_event r result t) (ag_keypair a) (ag_id a))))
    \<and> append_pending (ag_log a) (run_event r result t) (sign_only C (run_event r result t) (ag_keypair a) (ag_id a))
        = Inr (audit_record (event_content (run_event r result t))
            [sign_only C (run_event r result t) (ag_keypair a) (ag_id a)], ag_log a @ [row])"
proof -
  let ?ev = "run_event r result t"
  let ?sig = "sign_only C ?ev (ag_keypair a) (ag_id a)"
  obtain row where "inserts (ag_log a) ?ev (audit_record (event_content ?ev) [?sig]) True row"
    using insertable_inserts [OF assms(1)] run_event_insertable [OF assms(2)] by blast
  then have "append_pending (ag_log a) ?ev ?sig = Inr (audit_record (event_content ?ev) [?sig], ag_log a @ [row])"
    by (auto simp: append_pending_Inr)
  then show ?thesis
    by (auto simp: invoke_finish_eq [OF assms(3)] Let_def)
qed

lemma invoke_accepts:
  assumes "verify_delegation C b token (hs_capability spec) (fst t1) (snd t1) = (b, Inr cl)"
    and "wf_log (ag_log b)" and "tick_ok (ag_log b) t2" and "token \<noteq> []"
    and "loads_bytes raw = Inr (JDict kvs)" and "map_of kvs ''payload'' = Some (JDict pkvs)"
    and "map_of pkvs ''action'' = Some (JStr action)" and "action \<noteq> []" and "hs action = Some spec"
  shows "\<exists>row r. invoke_begin C hs b (Some token) raw t1 t2 = (set_log (ag_log b @ [row]) b, Reply r)
    \<and> row_event_id row = Some (''evt_'' @ fst t2) \<and> row_pending row = False \<and> row_type row = ''delegation.started''
    \<and> run_claims r = cl \<and> run_spec r = spec \<and> start_run (JDict kvs) cl spec = Inr r"
proof -
  let ?ev = "started_event b cl t2"
  have rd: "read_invoke hs (Some token) raw = Reply (token, JDict kvs, spec)"
    using assms(4-9) by (auto simp: read_invoke_Reply)
  obtain r where r: "start_run (JDict kvs) cl spec = Inr r" "run_claims r = cl" "run_spec r = spec"
    using start_run_ok [OF rd, of cl] by auto
  have "insertable (ag_log b) ?ev"
    unfolding started_event_def by (rule new_event_tick [OF assms(3)])
  then obtain row where row: "journal C b ?ev = Inr (set_log (ag_log b @ [row]) b)"
      "inserts (ag_log b) ?ev (audit_record (event_content ?ev)
         [sign_envelope C (event_content ?ev) (ag_keypair b) (ag_id b)]) False row"
    using journal_ok [OF assms(2), of ?ev C] by blast
  have "invoke_begin C hs b (Some token) raw t1 t2 = (set_log (ag_log b @ [row]) b, Reply r)"
    using assms(1) rd row(1) r(1) by (auto simp: invoke_begin_Reply)
  then show ?thesis
    using row(2) r by (auto simp: inserts_def started_event_def)
qed

text \<open>A handler that returns values JSON can carry.\<close>

definition normal_result :: "handler_result \<Rightarrow> bool" where
  "normal_result result =
     (case result of Returned v \<Rightarrow> normal v | Raised cls msg \<Rightarrow> True | Undumpable e \<Rightarrow> False)"

definition normal_handlers :: "handlers \<Rightarrow> bool" where
  "normal_handlers hs \<longleftrightarrow>
     (\<forall>action spec params. hs action = Some spec \<and> normal params \<longrightarrow> normal_result (hs_handler spec params))"

lemma normal_dumped: "normal_result result \<Longrightarrow> dumped result"
  by (cases result) (simp_all add: normal_result_def)

lemma handler_outcome_normal:
  "normal_result result \<Longrightarrow> projr (handler_outcome result) = (status, payload, reason) \<Longrightarrow> normal payload"
  by (cases result) (auto simp: handler_outcome_def normal_result_def)

lemma run_outcome_normal: "normal_result result \<Longrightarrow> normal (run_outcome C a r result now)"
proof -
  assume n: "normal_result result"
  obtain status payload reason where o: "projr (handler_outcome result) = (status, payload, reason)"
    by (cases "projr (handler_outcome result)")
  show ?thesis
    using handler_outcome_normal [OF n o]
    by (simp add: run_outcome_def o make_outcome_def sign_outcome_normal wf_outcome_def)
qed

lemma invoke_reply_normal:
  "normal rid \<Longrightarrow> normal env \<Longrightarrow> normal_event ev \<Longrightarrow> normal sig \<Longrightarrow> normal (invoke_reply rid env ev sig)"
  by (simp add: invoke_reply_def normal_event_def)

lemma invoke_begin_spec: "invoke_begin C hs a hdr raw t1 t2 = (a', Reply r) \<Longrightarrow> \<exists>action. hs action = Some (run_spec r)"
  by (auto simp: invoke_begin_Reply read_invoke_Reply dest!: start_run_ok [rotated] simp: start_run_def)

text \<open>What the request of a started run says.\<close>

lemma invoke_begin_request:
  assumes "invoke_begin C hs a hdr raw t1 t2 = (a', Reply r)"
  shows "\<exists>token body pkvs action. hdr = Some token \<and> loads_bytes raw = Inr (JDict body)
    \<and> map_of body ''payload'' = Some (JDict pkvs) \<and> map_of pkvs ''action'' = Some (JStr action)
    \<and> hs action = Some (run_spec r)
    \<and> run_params r = (case map_of pkvs ''params'' of None \<Rightarrow> JDict [] | Some q \<Rightarrow> or_empty q)
    \<and> run_request_id r = (case map_of body ''request_id'' of None \<Rightarrow> JNull | Some q \<Rightarrow> q)
    \<and> verify_delegation C a token (hs_capability (run_spec r)) (fst t1) (snd t1) = (a, Inr (run_claims r))
    \<and> journal C a (started_event a (run_claims r) t2) = Inr a'"
proof -
  obtain token body spec cl where b: "read_invoke hs hdr raw = Reply (token, body, spec)"
      "verify_delegation C a token (hs_capability spec) (fst t1) (snd t1) = (a, Inr cl)"
      "journal C a (started_event a cl t2) = Inr a'" "start_run body cl spec = Inr r"
    using assms by (auto simp: invoke_begin_Reply)
  obtain kvs pkvs action where rq: "hdr = Some token" "loads_bytes raw = Inr (JDict kvs)" "body = JDict kvs"
      "map_of kvs ''payload'' = Some (JDict pkvs)" "map_of pkvs ''action'' = Some (JStr action)" "hs action = Some spec"
    using b(1) by (auto simp: read_invoke_Reply)
  have "run_claims r = cl" "run_spec r = spec"
      "run_params r = (case map_of pkvs ''params'' of None \<Rightarrow> JDict [] | Some q \<Rightarrow> or_empty q)"
      "run_request_id r = (case map_of kvs ''request_id'' of None \<Rightarrow> JNull | Some q \<Rightarrow> q)"
    using b(4) rq(3,4) by (auto simp: start_run_def or_empty_def py_get_Inr split: option.splits)
  then show ?thesis
    using rq b(2,3) by blast
qed

lemma invoke_begin_normal:
  assumes "invoke_begin C hs a hdr raw t1 t2 = (a', Reply r)"
  shows "normal_claims (run_claims r)" and "normal (run_request_id r)" and "normal (run_params r)"
  using invoke_begin_claims [OF assms] verify_token_normal by (auto simp: normal_claims_def)

lemma invoke_Reply:
  "invoke C hs a hdr raw t1 t2 now t3 = (a', Reply v) \<longleftrightarrow>
     (\<exists>a1 r. invoke_begin C hs a hdr raw t1 t2 = (a1, Reply r)
        \<and> invoke_finish C a1 r (hs_handler (run_spec r) (run_params r)) now t3 = (a', Reply v))"
  by (auto simp: invoke_def split: http.splits prod.splits)

lemma journal_frame: "journal C a ev = Inr a' \<Longrightarrow> ag_keypair a' = ag_keypair a \<and> ag_id a' = ag_id a \<and> ag_peers a' = ag_peers a"
  by (auto simp: journal_Inr)

lemma invoke_finish_Reply:
  assumes "invoke_finish C a r result now t = (a', Reply v)"
  shows "v = invoke_reply (run_request_id r) (run_outcome C a r result now) (run_event r result t)
    (sign_only C (run_event r result t) (ag_keypair a) (ag_id a))"
proof (cases "dumped result")
  case True
  then show ?thesis
    using assms by (auto simp: invoke_finish_eq Let_def split: sum.splits)
next
  case False
  then show ?thesis
    using assms by (auto simp: dumped_def invoke_finish_undumped)
qed

section \<open>Refusals\<close>

text \<open>The statuses of section 4.2 of the design document, and 401 for a token that is not yet valid.\<close>

definition refusal_status :: "exn_class \<Rightarrow> nat" where
  "refusal_status c =
     (if c = TokenExpired \<or> c = TokenNotYetValid \<or> c = TokenInvalidSignature then 401
      else if c = TokenReplay then 409
      else if c = TokenInsufficientScope then 403
      else 400)"

lemma delegation_refusal_status:
  assumes "c \<in> {TokenExpired, TokenNotYetValid, TokenInvalidSignature, TokenReplay, TokenInsufficientScope}"
  shows "\<exists>detail. delegation_refusal (Exn c msg) = HttpError (refusal_status c) detail"
  using assms by (auto simp: delegation_refusal_def refusal_status_def is_a_def mro_base)

lemma verify_delegation_used:
  assumes "wf_log (ag_log a)" and "log_uses (ag_log a) (JStr j)" and "tick_ok (ag_log a) t"
    and "peek_payload token = Inr p" and "py_index p ''iss'' = Inr (JStr i)" and "ag_peers a i = Some pr"
    and "py_index p ''jti'' = Inr (JStr j)"
  shows "\<exists>row msg. verify_delegation C a token scope (fst t) (snd t)
      = (set_log (ag_log a @ [row]) a, Inl (Exn TokenReplay msg))
    \<and> row_type row = ''delegation.replay_attempt'' \<and> row_token_jti row = Some j \<and> \<not> row_pending row
    \<and> row_event_id row = Some (''evt_'' @ fst t)"
proof -
  obtain es where es: "prior_uses a (JStr j) = Inr es" "es \<noteq> []"
    using prior_uses_text [OF assms(1)] assms(2) by blast
  let ?ev = "new_event ''delegation.replay_attempt'' (JStr j) (JStr i) (JStr (ag_id a)) [] (fst t) (snd t)"
  obtain row where "journal C a ?ev = Inr (set_log (ag_log a @ [row]) a)" "inserts (ag_log a) ?ev
      (audit_record (event_content ?ev) [sign_envelope C (event_content ?ev) (ag_keypair a) (ag_id a)]) False row"
    using journal_ok [OF assms(1) new_event_tick [OF assms(3)]] by blast
  then show ?thesis
    using assms(4-7) es by (auto simp: verify_delegation_def Let_def find_peer_Str raise_def inserts_def)
qed

lemma invoke_begin_refuses:
  assumes "read_invoke hs hdr raw = Reply (token, body, spec)"
    and "verify_delegation C a token (hs_capability spec) (fst t1) (snd t1) = (a', Inl e)"
  shows "invoke_begin C hs a hdr raw t1 t2 = (a', delegation_refusal e)"
  using assms by (simp add: invoke_begin_defs)

section \<open>A server for the witnesses\<close>

definition toy_spec :: handler_spec where
  "toy_spec =
     \<lparr>hs_capability = ''code.write.python.x'', hs_schema_id = ''s.v1'',
      hs_handler = (\<lambda>params. Returned (JDict [(''n'', JInt 1)]))\<rparr>"

definition toy_handlers :: handlers where
  "toy_handlers = [''run'' \<mapsto> toy_spec]"

definition toy_request :: bytes where
  "toy_request = utf8_encode (render True (JDict [(''payload'', JDict [(''action'', JStr ''run'')])]))"

lemma toy_request_loads: "loads_bytes toy_request = Inr (JDict [(''payload'', JDict [(''action'', JStr ''run'')])])"
  unfolding toy_request_def by (rule loads_bytes_render) simp

lemma toy_tick: "tick_ok [] t \<longleftrightarrow> - (2 ^ 63) \<le> snd t \<and> snd t < 2 ^ 63"
  by (simp add: tick_ok_def)

lemma toy_start:
  "\<exists>token cl row r. verify_delegation toy_crypto (toy_agent []) token ''code.write.python.x'' ''2'' 130 = (toy_agent [], Inr cl)
    \<and> invoke_begin toy_crypto toy_handlers (toy_agent []) (Some token) toy_request (''2'', 130) (''3'', 130)
      = (set_log [row] (toy_agent []), Reply r)
    \<and> run_claims r = cl \<and> row_event_id row = Some ''evt_3'' \<and> \<not> row_pending row \<and> dc_jti cl = ''tkn_'' @ ''0''"
proof -
  obtain token cl where v: "verify_delegation toy_crypto (toy_agent []) token ''code.write.python.x'' ''2'' 130 = (toy_agent [], Inr cl)"
      "dc_jti cl = ''tkn_'' @ ''0''"
    using toy_accept by blast
  then have v': "verify_delegation toy_crypto (toy_agent []) token (hs_capability toy_spec) (fst (''2'', 130)) (snd (''2'', 130 :: int))
      = (toy_agent [], Inr cl)"
    by (simp add: toy_spec_def)
  have "token \<noteq> []"
  proof
    assume "token = []"
    then show False
      using verify_delegation_Inr [OF v(1)] by (auto simp: peek_payload_def)
  qed
  then have "\<exists>row r. invoke_begin toy_crypto toy_handlers (toy_agent []) (Some token) toy_request (''2'', 130) (''3'', 130)
      = (set_log (ag_log (toy_agent []) @ [row]) (toy_agent []), Reply r) \<and> row_event_id row = Some (''evt_'' @ fst (''3'', 130 :: int))
      \<and> row_pending row = False \<and> row_type row = ''delegation.started'' \<and> run_claims r = cl \<and> run_spec r = toy_spec
      \<and> start_run (JDict [(''payload'', JDict [(''action'', JStr ''run'')])]) cl toy_spec = Inr r"
    by (intro invoke_accepts [OF v' _ _ _ toy_request_loads, where pkvs = "[(''action'', JStr ''run'')]" and action = "''run''"])
      (simp_all add: toy_tick toy_handlers_def)
  then show ?thesis
    using v by auto
qed

lemma toy_handlers_normal: "normal_handlers toy_handlers"
  by (auto simp: normal_handlers_def toy_handlers_def normal_result_def toy_spec_def split: if_splits)

lemma toy_agent_key: "wf_keypair toy_crypto (ag_keypair (toy_agent log))"
  by (simp add: toy_agent_def toy_keypair_2_wf)

lemma toy_invoke:
  "\<exists>token b' v. invoke toy_crypto toy_handlers (toy_agent []) (Some token) toy_request (''2'', 130) (''3'', 130) 131 (''4'', 132)
    = (b', Reply v)"
proof -
  obtain token row r where b: "invoke_begin toy_crypto toy_handlers (toy_agent []) (Some token) toy_request (''2'', 130) (''3'', 130)
      = (set_log [row] (toy_agent []), Reply r)" and e: "row_event_id row = Some ''evt_3''"
    using toy_start by blast
  have s: "serve_step toy_crypto toy_handlers (start_server (toy_agent [])) (Server (set_log [row] (toy_agent [])) [r] [run_claims r])"
    using serve_step.started [OF b, of "[]" "[]"] by (simp add: start_server_def)
  have wf: "wf_log (ag_log (set_log [row] (toy_agent [])))"
    using server_reachable_inv [OF _ r_into_rtranclp [of "serve_step toy_crypto toy_handlers", OF s]]
    by (simp add: server_inv_def)
  have t: "tick_ok (ag_log (set_log [row] (toy_agent []))) (''4'', 132)"
    by (simp add: tick_ok_def e)
  obtain action where "toy_handlers action = Some (run_spec r)"
    using invoke_begin_spec [OF b] by blast
  then have "run_spec r = toy_spec"
    by (simp add: toy_handlers_def split: if_splits)
  then have d: "dumped (hs_handler (run_spec r) (run_params r))"
    by (simp add: toy_spec_def)
  obtain b' v where "invoke_finish toy_crypto (set_log [row] (toy_agent [])) r (hs_handler (run_spec r) (run_params r)) 131 (''4'', 132)
      = (b', Reply v)"
    using invoke_finishes [OF wf t d] by blast
  then show ?thesis
    using b unfolding invoke_Reply by blast
qed

section \<open>Properties\<close>

text \<open>C3: A token starts at most one run, however the server's requests interleave with each other, with
  co-signatures and with the agent's own use of its log, and however often the process dies and is
  started again: of every token with an issued id (\<open>tkn_...\<close>) at most one run was ever started and at
  most one waits, and the start of every run is in the log, not pending, before its handler is
  called.\<close>

theorem token_started_once:
  assumes "(log_step C)\<^sup>*\<^sup>* [] (ag_log a)" and "(serve_step C hs)\<^sup>*\<^sup>* (start_server a) s"
  shows "length (filter (\<lambda>cl. dc_jti cl = ''tkn_'' @ u) (sv_history s)) \<le> 1
    \<and> length (filter (\<lambda>r. dc_jti (run_claims r) = ''tkn_'' @ u) (sv_running s)) \<le> 1
    \<and> (\<forall>r \<in> set (sv_running s). \<exists>row \<in> set (ag_log (sv_agent s)). row_type row = ''delegation.started''
         \<and> row_token_jti row = Some (dc_jti (run_claims r)) \<and> \<not> row_pending row)"
proof -
  have inv: "server_inv s"
    using server_reachable_inv [OF log_steps_wf [OF assms(1)] assms(2)] by simp
  have one: "length (filter (\<lambda>cl. dc_jti cl = ''tkn_'' @ u) (sv_history s)) \<le> 1"
    using inv unfolding server_inv_def by (elim conjE) (erule spec)
  have three: "\<exists>row \<in> set (ag_log (sv_agent s)). row_type row = ''delegation.started''
      \<and> row_token_jti row = Some (dc_jti (run_claims r)) \<and> \<not> row_pending row" if "r \<in> set (sv_running s)" for r
  proof -
    have "run_claims r \<in> set (sv_history s)"
      using inv_running [OF inv that] .
    then have "log_started (ag_log (sv_agent s)) (dc_jti (run_claims r))"
      using inv by (simp add: server_inv_def)
    then show ?thesis
      unfolding log_started_def by (rule conjunct1)
  qed
  show ?thesis
    by (intro conjI ballI one inv_one_run [OF inv] three)
qed

lemma token_started_once_witness:
  "\<exists>s. (serve_step toy_crypto toy_handlers)\<^sup>*\<^sup>* (start_server (toy_agent [])) s \<and> sv_running s \<noteq> []
    \<and> length (filter (\<lambda>cl. dc_jti cl = ''tkn_'' @ ''0'') (sv_history s)) \<le> 1"
proof -
  obtain token row r where b: "invoke_begin toy_crypto toy_handlers (toy_agent []) (Some token) toy_request (''2'', 130) (''3'', 130)
      = (set_log [row] (toy_agent []), Reply r)"
    using toy_start by blast
  let ?s = "Server (set_log [row] (toy_agent [])) [r] [run_claims r]"
  have s: "(serve_step toy_crypto toy_handlers)\<^sup>*\<^sup>* (start_server (toy_agent [])) ?s"
    using serve_step.started [OF b, of "[]" "[]"] by (simp add: start_server_def)
  have "length (filter (\<lambda>cl. dc_jti cl = ''tkn_'' @ ''0'') (sv_history ?s)) \<le> 1"
    using token_started_once [OF _ s, of "''0''"] by simp
  then show ?thesis
    using s by force
qed

text \<open>C27: Every reply of the invoke endpoint belongs to its request and is verifiable: it survives the
  transport and repeats the request's id; the handler that ran is the one registered for the action
  the body names, on the body's parameters; the outcome verifies under the server's key with that
  handler's schema and holds its status, its payload and the id of the token in the header; the
  event's signature verifies under the same key, and the event names that token, the token's
  issuer, a registered peer, as delegator and the server as delegatee, the hash of that payload, and
  completed or failed by the status.\<close>

theorem invoke_reply_verifiable:
  assumes "ed25519_correct C" and "wf_keypair C (ag_keypair b)" and "normal_handlers hs"
    and "invoke C hs b hdr raw t1 t2 now t3 = (b', Reply v)"
  shows "\<exists>token p i j body pkvs action spec status payload reason env content ev sig.
      hdr = Some token \<and> peek_payload token = Inr p \<and> py_index p ''jti'' = Inr j
    \<and> py_index p ''iss'' = Inr (JStr i) \<and> ag_peers b i \<noteq> None
    \<and> loads_bytes raw = Inr (JDict body) \<and> map_of body ''payload'' = Some (JDict pkvs)
    \<and> map_of pkvs ''action'' = Some (JStr action) \<and> hs action = Some spec
    \<and> handler_outcome (hs_handler spec (case map_of pkvs ''params'' of None \<Rightarrow> JDict [] | Some q \<Rightarrow> or_empty q))
        = Inr (status, payload, reason)
    \<and> loads_bytes (utf8_encode (render x v)) = Inr v
    \<and> py_index v ''request_id'' = Inr (case map_of body ''request_id'' of None \<Rightarrow> JNull | Some q \<Rightarrow> q)
    \<and> py_index v ''outcome'' = Inr env
    \<and> verify_outcome C env (kp_public (ag_keypair b)) (Some (hs_schema_id spec)) = Inr content
    \<and> py_index content ''status'' = Inr (JStr status) \<and> py_index content ''payload'' = Inr payload
    \<and> py_index content ''token_jti'' = Inr (JStr (py_str j))
    \<and> py_index v ''audit_event'' = Inr (JDict [(''content'', event_content ev), (''signature'', sig)])
    \<and> verify_envelope C (event_content ev) sig (kp_public (ag_keypair b)) = Inr ()
    \<and> ev_token_jti ev = JStr (py_str j) \<and> ev_delegator_id ev = JStr i \<and> ev_delegatee_id ev = JStr (ag_id b)
    \<and> map_of (ev_fields ev) ''outcome_hash'' = Some (JStr (hash_text (canonical_json payload)))
    \<and> ev_type ev = (if status = ''ok'' then JStr ''delegation.completed'' else JStr ''delegation.failed'')"
proof -
  obtain a1 r where b: "invoke_begin C hs b hdr raw t1 t2 = (a1, Reply r)"
    and f: "invoke_finish C a1 r (hs_handler (run_spec r) (run_params r)) now t3 = (b', Reply v)"
    using assms(4) by (auto simp: invoke_Reply)
  let ?res = "hs_handler (run_spec r) (run_params r)"
  let ?ev = "run_event r ?res t3"
  let ?env = "run_outcome C a1 r ?res now"
  let ?sig = "sign_only C ?ev (ag_keypair a1) (ag_id a1)"
  obtain token body pkvs action where rq: "hdr = Some token" "loads_bytes raw = Inr (JDict body)"
      "map_of body ''payload'' = Some (JDict pkvs)" "map_of pkvs ''action'' = Some (JStr action)"
      "hs action = Some (run_spec r)"
    and run: "run_params r = (case map_of pkvs ''params'' of None \<Rightarrow> JDict [] | Some q \<Rightarrow> or_empty q)"
      "run_request_id r = (case map_of body ''request_id'' of None \<Rightarrow> JNull | Some q \<Rightarrow> q)"
    and d: "verify_delegation C b token (hs_capability (run_spec r)) (fst t1) (snd t1) = (b, Inr (run_claims r))"
    and w: "journal C b (started_event b (run_claims r) t2) = Inr a1"
    using invoke_begin_request [OF b] by blast
  obtain p i pr j where cl: "peek_payload token = Inr p" "py_index p ''iss'' = Inr (JStr i)" "ag_peers b i = Some pr"
      "py_index p ''jti'' = Inr j" "dc_jti (run_claims r) = py_str j"
      "verify_token C token (pr_public_key pr) (ag_id b) (Some (hs_capability (run_spec r)))
        (Some (pr_manifest_content pr)) (snd t1) = Inr (run_claims r)"
    using verify_delegation_claims [OF d] by blast
  note frame = journal_frame [OF w]
  have res: "normal_result ?res"
    using assms(3) rq(5) invoke_begin_normal(3) [OF b] by (auto simp: normal_handlers_def)
  obtain status payload reason where o: "handler_outcome ?res = Inr (status, payload, reason)"
    using normal_dumped [OF res] by (auto simp: dumped_outcome)
  obtain h q where q: "verify_compact C token (pr_public_key pr) = Inr (h, q)" "claims_of_payload q = Inr (run_claims r)"
      "check_subject q (ag_id b) = Inr ()"
    using cl(6) by (auto simp: verify_token_Inr)
  have "q = p"
    using peek_verify_compact [OF q(1)] cl(1) by simp
  then have parties: "dc_iss (run_claims r) = JStr i" "dc_sub (run_claims r) = JStr (ag_id b)"
    using claims_of_payload_fields(4,6) [OF q(2)] cl(2) q(3) by (auto simp: check_subject_Inr)
  have v: "v = invoke_reply (run_request_id r) ?env ?ev ?sig"
    by (rule invoke_finish_Reply [OF f])
  have "normal v"
    using invoke_begin_normal [OF b] run_event_normal run_outcome_normal [OF res]
    by (simp add: v invoke_reply_normal sign_only_def)
  then have 1: "loads_bytes (utf8_encode (render x v)) = Inr v"
    by (rule loads_bytes_render)
  have 2: "py_index v ''outcome'' = Inr ?env" "py_index v ''request_id'' = Inr (run_request_id r)"
      "py_index v ''audit_event'' = Inr (JDict [(''content'', event_content ?ev), (''signature'', ?sig)])"
    by (simp_all add: v invoke_reply_def)
  let ?content = "outcome_content \<lparr>out_token_jti = JStr (dc_jti (run_claims r)), out_status = JStr status, out_payload = payload,
        out_schema_id = JStr (hs_schema_id (run_spec r)), out_executed_at = JInt now, out_reason = opt_str reason\<rparr>"
  have 3: "verify_outcome C ?env (kp_public (ag_keypair b)) (Some (hs_schema_id (run_spec r))) = Inr ?content"
    using verify_sign_outcome [OF assms(1,2)] frame by (simp add: run_outcome_def o make_outcome_def)
  have 4: "verify_envelope C (event_content ?ev) ?sig (kp_public (ag_keypair b)) = Inr ()"
    using verify_sign_envelope [OF assms(1,2)] frame by (simp add: sign_only_def)
  have 5: "py_index ?content ''status'' = Inr (JStr status)" "py_index ?content ''payload'' = Inr payload"
      "py_index ?content ''token_jti'' = Inr (JStr (py_str j))"
    by (simp_all add: outcome_content_def cl(5))
  have 6: "map_of (ev_fields ?ev) ''outcome_hash'' = Some (JStr (hash_text (canonical_json payload)))"
      "ev_type ?ev = (if status = ''ok'' then JStr ''delegation.completed'' else JStr ''delegation.failed'')"
      "ev_delegatee_id ?ev = JStr (ag_id b)" "ev_delegator_id ?ev = JStr i" "ev_token_jti ?ev = JStr (py_str j)"
    by (simp_all add: run_event_def o new_event_def parties cl(5) Let_def)
  have 7: "ag_peers b i \<noteq> None"
    by (simp add: cl(3))
  show ?thesis
    by (intro exI conjI) (rule rq cl(1) cl(4) cl(2) 7 o [unfolded run(1)] 1 2(2) [unfolded run(2)] 2 3 5 4 6)+
qed

lemma invoke_reply_verifiable_witness:
  "\<exists>token b' v env content ev sig. invoke toy_crypto toy_handlers (toy_agent []) (Some token) toy_request (''2'', 130) (''3'', 130) 131 (''4'', 132)
      = (b', Reply v)
    \<and> py_index v ''request_id'' = Inr JNull \<and> py_index v ''outcome'' = Inr env
    \<and> verify_outcome toy_crypto env (kp_public (ag_keypair (toy_agent []))) (Some ''s.v1'') = Inr content
    \<and> py_index content ''payload'' = Inr (JDict [(''n'', JInt 1)])
    \<and> py_index v ''audit_event'' = Inr (JDict [(''content'', event_content ev), (''signature'', sig)])
    \<and> ev_type ev = JStr ''delegation.completed''"
proof -
  obtain token b' v where i: "invoke toy_crypto toy_handlers (toy_agent []) (Some token) toy_request (''2'', 130) (''3'', 130) 131 (''4'', 132)
      = (b', Reply v)"
    using toy_invoke by blast
  obtain body pkvs action spec status payload reason env content ev sig where
    rq: "loads_bytes toy_request = Inr (JDict body)" "map_of body ''payload'' = Some (JDict pkvs)"
      "map_of pkvs ''action'' = Some (JStr action)" "toy_handlers action = Some spec"
      "handler_outcome (hs_handler spec (case map_of pkvs ''params'' of None \<Rightarrow> JDict [] | Some q \<Rightarrow> or_empty q))
        = Inr (status, payload, reason)"
    and e: "py_index v ''request_id'' = Inr (case map_of body ''request_id'' of None \<Rightarrow> JNull | Some q \<Rightarrow> q)"
      "py_index v ''outcome'' = Inr env"
      "verify_outcome toy_crypto env (kp_public (ag_keypair (toy_agent []))) (Some (hs_schema_id spec)) = Inr content"
      "py_index content ''payload'' = Inr payload"
      "py_index v ''audit_event'' = Inr (JDict [(''content'', event_content ev), (''signature'', sig)])"
      "ev_type ev = (if status = ''ok'' then JStr ''delegation.completed'' else JStr ''delegation.failed'')"
    using invoke_reply_verifiable [OF toy_crypto_ok(1) toy_agent_key toy_handlers_normal i, where x = True]
    by (elim exE conjE) (rule that; assumption)
  have s: "spec = toy_spec"
    using rq(4) by (auto simp: toy_handlers_def split: if_splits)
  have "body = [(''payload'', JDict [(''action'', JStr ''run'')])]"
    using rq(1) by (simp add: toy_request_loads)
  moreover have "status = ''ok''" "payload = JDict [(''n'', JInt 1)]"
    using rq(5) by (simp_all add: s toy_spec_def handler_outcome_def)
  ultimately have all: "py_index v ''request_id'' = Inr JNull"
      "verify_outcome toy_crypto env (kp_public (ag_keypair (toy_agent []))) (Some ''s.v1'') = Inr content"
      "py_index content ''payload'' = Inr (JDict [(''n'', JInt 1)])" "ev_type ev = JStr ''delegation.completed''"
    using e by (simp_all add: s toy_spec_def)
  show ?thesis
    by (intro exI conjI) (rule i all e)+
qed

lemma fresh_tick: "\<exists>t. tick_ok log t"
proof -
  let ?bad = "{u. Some (''evt_'' @ u) \<in> row_event_id ` set log}"
  have "finite ((\<lambda>u. Some (''evt_'' @ u)) -` (row_event_id ` set log))"
    by (rule finite_vimageI) (auto intro: injI)
  then have "finite ?bad"
    by (simp add: vimage_def)
  then obtain u :: string where "u \<notin> ?bad"
    using ex_new_if_finite [OF infinite_UNIV_listI] by blast
  then show ?thesis
    by (intro exI [of _ "(u, 0)"]) (simp add: tick_ok_def)
qed

lemma pending_append:
  "append_pending log ev sig = Inr (rcd, log') \<Longrightarrow> pending_peer_count log' = Suc (pending_peer_count log)"
  by (auto simp: append_pending_Inr pending_peer_count_def inserts_def)

lemma finish_step:
  assumes "server_inv (Server a rs h)" and "r \<in> set rs" and "tick_ok (ag_log a) t" and "dumped result"
  shows "\<exists>a' v. invoke_finish C a r result now t = (a', Reply v)
    \<and> serve_step C hs (Server a rs h) (Server a' (remove1 r rs) h)
    \<and> pending_peer_count (ag_log a') = Suc (pending_peer_count (ag_log a))"
proof -
  have wf: "wf_log (ag_log a)"
    using assms(1) by (simp add: server_inv_def)
  obtain a' v where f: "invoke_finish C a r result now t = (a', Reply v)"
    and p: "pending_peer_count (ag_log a') = Suc (pending_peer_count (ag_log a))"
    using invoke_finishes [OF wf assms(3,4), of C r now] by (auto dest: pending_append)
  then show ?thesis
    using serve_step.finished [OF assms(2) f, of hs h] by blast
qed

lemma runs_drain:
  "server_inv (Server a rs h) \<Longrightarrow> \<exists>a'. (serve_step C hs)\<^sup>*\<^sup>* (Server a rs h) (Server a' [] h)
    \<and> pending_peer_count (ag_log a') = pending_peer_count (ag_log a) + length rs"
proof (induction rs arbitrary: a)
  case Nil
  then show ?case by auto
next
  case (Cons r rs)
  obtain t where "tick_ok (ag_log a) t"
    using fresh_tick by blast
  then obtain a1 where s: "serve_step C hs (Server a (r # rs) h) (Server a1 rs h)"
    and p: "pending_peer_count (ag_log a1) = Suc (pending_peer_count (ag_log a))"
    using finish_step [OF Cons.prems, of r t "Returned JNull" C 0 hs] by auto
  obtain a' where "(serve_step C hs)\<^sup>*\<^sup>* (Server a1 rs h) (Server a' [] h)"
      "pending_peer_count (ag_log a') = pending_peer_count (ag_log a1) + length rs"
    using Cons.IH serve_step_inv [OF s Cons.prems] by blast
  then show ?case
    using s p by (metis add_Suc converse_rtranclp_into_rtranclp length_Cons add_Suc_right)
qed

text \<open>C26: How runs end. In every reachable state each waiting run can end, given a fresh event id and a
  clock in range: when its handler raised, or returned what can be serialised, it replies and leaves
  its event pending. When it returned an object that \<open>json.dumps\<close> refuses, the exception escapes:
  status 500, the agent and its log as they were, no outcome and no event, and the token used up.
  And from every reachable state the server can reach one where no run waits, with one more
  pending event for each run and no new run started.\<close>

theorem runs_always_finish:
  assumes "(log_step C)\<^sup>*\<^sup>* [] (ag_log a)" and "(serve_step C hs)\<^sup>*\<^sup>* (start_server a) s"
  shows "(\<forall>r \<in> set (sv_running s). \<forall>result now t. tick_ok (ag_log (sv_agent s)) t \<longrightarrow>
      (case result of
         Undumpable e \<Rightarrow> invoke_finish C (sv_agent s) r result now t = (sv_agent s, Crash e)
           \<and> serve_step C hs s (Server (sv_agent s) (remove1 r (sv_running s)) (sv_history s))
           \<and> log_uses (ag_log (sv_agent s)) (JStr (dc_jti (run_claims r)))
       | _ \<Rightarrow> (\<exists>a' v. invoke_finish C (sv_agent s) r result now t = (a', Reply v)
           \<and> serve_step C hs s (Server a' (remove1 r (sv_running s)) (sv_history s))
           \<and> pending_peer_count (ag_log a') = Suc (pending_peer_count (ag_log (sv_agent s))))))
    \<and> (\<exists>s'. (serve_step C hs)\<^sup>*\<^sup>* s s' \<and> sv_running s' = [] \<and> sv_history s' = sv_history s
         \<and> pending_peer_count (ag_log (sv_agent s')) = pending_peer_count (ag_log (sv_agent s)) + length (sv_running s))"
proof -
  obtain a1 rs h where s: "s = Server a1 rs h"
    by (cases s)
  have inv: "server_inv (Server a1 rs h)"
    using server_reachable_inv [OF log_steps_wf [OF assms(1)] assms(2)] s by simp
  obtain a' where "(serve_step C hs)\<^sup>*\<^sup>* (Server a1 rs h) (Server a' [] h)"
      "pending_peer_count (ag_log a') = pending_peer_count (ag_log a1) + length rs"
    using runs_drain [OF inv] by blast
  then have drain: "\<exists>s'. (serve_step C hs)\<^sup>*\<^sup>* s s' \<and> sv_running s' = [] \<and> sv_history s' = sv_history s
      \<and> pending_peer_count (ag_log (sv_agent s')) = pending_peer_count (ag_log (sv_agent s)) + length (sv_running s)"
    by (intro exI [of _ "Server a' [] h"]) (simp add: s)
  have undumped: "invoke_finish C a1 r (Undumpable e) now t = (a1, Crash e)
      \<and> serve_step C hs (Server a1 rs h) (Server a1 (remove1 r rs) h)
      \<and> log_uses (ag_log a1) (JStr (dc_jti (run_claims r)))" if "r \<in> set rs" for r e now t
    using serve_step.finished [OF that invoke_finish_undumped] inv_running [OF inv, of r] inv that
    by (auto simp: invoke_finish_undumped server_inv_def log_started_def)
  show ?thesis
    using undumped finish_step [OF inv] drain
    by (intro conjI) (auto simp: s split: handler_result.split)
qed

lemma runs_always_finish_witness:
  "\<exists>s s' r. (serve_step toy_crypto toy_handlers)\<^sup>*\<^sup>* (start_server (toy_agent [])) s \<and> sv_running s = [r]
    \<and> invoke_finish toy_crypto (sv_agent s) r (Undumpable (Exn TypeError ''set'')) 131 (''4'', 132)
        = (sv_agent s, Crash (Exn TypeError ''set''))
    \<and> (serve_step toy_crypto toy_handlers)\<^sup>*\<^sup>* s s' \<and> sv_running s' = []
    \<and> pending_peer_count (ag_log (sv_agent s')) = pending_peer_count (ag_log (sv_agent s)) + 1"
proof -
  obtain token row r where b: "invoke_begin toy_crypto toy_handlers (toy_agent []) (Some token) toy_request (''2'', 130) (''3'', 130)
      = (set_log [row] (toy_agent []), Reply r)" and e: "row_event_id row = Some ''evt_3''"
    using toy_start by blast
  let ?s = "Server (set_log [row] (toy_agent [])) [r] [run_claims r]"
  have s: "(serve_step toy_crypto toy_handlers)\<^sup>*\<^sup>* (start_server (toy_agent [])) ?s"
    using serve_step.started [OF b, of "[]" "[]"] by (simp add: start_server_def)
  have t: "tick_ok (ag_log (sv_agent ?s)) (''4'', 132)"
    by (simp add: tick_ok_def e)
  note ends = runs_always_finish [OF _ s]
  have "invoke_finish toy_crypto (sv_agent ?s) r (Undumpable (Exn TypeError ''set'')) 131 (''4'', 132)
        = (sv_agent ?s, Crash (Exn TypeError ''set''))"
    using conjunct1 [OF ends, THEN bspec [of _ _ r], THEN spec [of _ "Undumpable (Exn TypeError ''set'')"], THEN spec [of _ 131],
        THEN spec [of _ "(''4'', 132)"]] t by simp
  then show ?thesis
    using s conjunct2 [OF ends] by force
qed

text \<open>C10: What the endpoint decides on a request for a known action, with a token that a registered peer
  signed over values of the documented types: 409 if the log says the token was used, otherwise
  exactly the verdict of \<open>token_verdict\<close>, with 401 for the lifetime and 403 for subject, scope and
  manifest and no change to the agent, or a run with the token's id.\<close>

theorem invoke_decides:
  assumes "(log_step C)\<^sup>*\<^sup>* [] (ag_log b)" and "read_invoke hs hdr raw = Reply (token, body, spec)"
    and "ag_peers b i = Some pr" and "verify_compact C token (pr_public_key pr) = Inr (h, JDict kvs)"
    and "map_of kvs ''iss'' = Some (JStr i)" and "map_of kvs ''jti'' = Some (JStr j)"
    and "payload_typed kvs x n sub scope" and "proper_manifest (pr_manifest_content pr)"
    and "tick_ok (ag_log b) t1" and "tick_ok (ag_log b) t2"
  shows "if log_uses (ag_log b) (JStr j)
    then \<exists>b' msg. invoke_begin C hs b hdr raw t1 t2 = (b', HttpError 409 msg)
    else case token_verdict x n sub scope (ag_id b) (Some (hs_capability spec))
           (Some (declared_names (pr_manifest_content pr))) (snd t1) of
        None \<Rightarrow> \<exists>b' r. invoke_begin C hs b hdr raw t1 t2 = (b', Reply r) \<and> dc_jti (run_claims r) = j
      | Some cls \<Rightarrow> \<exists>msg. invoke_begin C hs b hdr raw t1 t2 = (b, HttpError (refusal_status cls) msg)"
proof -
  have wf: "wf_log (ag_log b)"
    using log_steps_wf [OF assms(1)] by simp
  have peek: "peek_payload token = Inr (JDict kvs)" "py_index (JDict kvs) ''iss'' = Inr (JStr i)"
      "py_index (JDict kvs) ''jti'' = Inr (JStr j)"
    using peek_verify_compact [OF assms(4)] assms(5,6) by simp_all
  let ?cap = "hs_capability spec" and ?now = "snd t1"
  let ?v = "token_verdict x n sub scope (ag_id b) (Some ?cap) (Some (declared_names (pr_manifest_content pr))) ?now"
  show ?thesis
  proof (cases "log_uses (ag_log b) (JStr j)")
    case True
    obtain row msg where v: "verify_delegation C b token ?cap (fst t1) (snd t1)
        = (set_log (ag_log b @ [row]) b, Inl (Exn TokenReplay msg))"
      using verify_delegation_used [OF wf True assms(9) peek(1,2) assms(3) peek(3)] by blast
    obtain detail where "(delegation_refusal (Exn TokenReplay msg) :: run http) = HttpError 409 detail"
      using delegation_refusal_status [of TokenReplay msg] by (auto simp: refusal_status_def)
    then show ?thesis
      using invoke_begin_refuses [OF assms(2) v, of t2] True by simp
  next
    case False
    then have "prior_uses b (JStr j) = Inr []"
      using prior_uses_text [OF wf, of j] by fastforce
    note fresh = verify_delegation_fresh [OF peek(1,2) assms(3) peek(3) this, of C ?cap "fst t1" ?now]
    note verdict = verify_token_verdict [OF assms(4,7), where manifest = "Some (pr_manifest_content pr)"
        and expected = "ag_id b" and required = "Some ?cap" and now = ?now]
    show ?thesis
    proof (cases ?v)
      case None
      obtain cl where c: "claims_of_payload (JDict kvs) = Inr cl"
        using claims_typed [OF assms(7)] by blast
      then have d: "verify_delegation C b token ?cap (fst t1) (snd t1) = (b, Inr cl)"
        using fresh verdict None assms(8) by simp
      obtain row where w: "journal C b (started_event b cl t2) = Inr (set_log (ag_log b @ [row]) b)"
        using journal_ok [OF wf, of "started_event b cl t2" C] new_event_tick [OF assms(10)]
        by (auto simp: started_event_def)
      obtain r where r: "start_run body cl spec = Inr r" "run_claims r = cl"
        using start_run_ok [OF assms(2), of cl] by auto
      have "dc_jti cl = j"
        using claims_of_payload_fields(5) [OF c] peek(3) by auto
      moreover have "invoke_begin C hs b hdr raw t1 t2 = (set_log (ag_log b @ [row]) b, Reply r)"
        using assms(2) d w r(1) by (auto simp: invoke_begin_Reply)
      ultimately show ?thesis
        using False None r(2) by auto
    next
      case (Some cls)
      then have cls: "cls \<in> {TokenExpired, TokenNotYetValid, TokenInsufficientScope}"
        by (auto simp: token_verdict_def split: if_splits)
      obtain msg where "verify_delegation C b token ?cap (fst t1) (snd t1) = (b, Inl (Exn cls msg))"
        using fresh verdict Some assms(8) by auto
      note d = invoke_begin_refuses [OF assms(2) this, of t2]
      obtain detail where "(delegation_refusal (Exn cls msg) :: run http) = HttpError (refusal_status cls) detail"
        using delegation_refusal_status [of cls msg] cls by auto
      then show ?thesis
        using d False Some by simp
    qed
  qed
qed

lemma invoke_decides_witness:
  "\<exists>msg. invoke_begin toy_crypto toy_handlers (toy_agent []) (Some toy_token) toy_request (''2'', 110) (''3'', 110)
    = (toy_agent [], HttpError 403 msg)"
proof -
  obtain kvs where kvs: "sort_json (claims_dict toy_claims) = JDict kvs"
    by (simp add: claims_dict_def)
  have n: "normal (claims_dict toy_claims)"
    unfolding toy_claims_def by (rule issue_claims_normal) simp
  have t: "payload_typed kvs 160 100 ''b'' [''code.write.python'']"
    using issued_payload_typed [OF kvs [unfolded toy_claims_def]] by simp
  have v: "verify_compact toy_crypto toy_token (pr_public_key toy_peer) = Inr (jws_header toy_keypair, JDict kvs)"
    using verify_sign_compact [OF toy_crypto_ok(1) toy_keypair_wf n] kvs by (simp add: toy_token_def toy_peer_def)
  obtain ds where ds: "claims_dict toy_claims = JDict ds" "distinct (map fst ds)"
      "map_of ds ''iss'' = Some (JStr (agent_id toy_identity))" "map_of ds ''jti'' = Some (JStr ''tkn_0'')"
    by (simp add: claims_dict_def toy_claims_def issue_claims_def)
  have f: "map_of kvs ''iss'' = Some (JStr (agent_id toy_identity))" "map_of kvs ''jti'' = Some (JStr ''tkn_0'')"
    using sort_json_lookup [OF ds(2) kvs [unfolded ds(1)]] ds(3,4) by simp_all
  have "toy_token \<noteq> []"
    by (simp add: toy_token_def sign_compact_def Let_def)
  then have rd: "read_invoke toy_handlers (Some toy_token) toy_request
      = Reply (toy_token, JDict [(''payload'', JDict [(''action'', JStr ''run'')])], toy_spec)"
    by (auto simp: read_invoke_Reply toy_request_loads toy_handlers_def)
  have id: "ag_id (toy_agent []) \<noteq> ''b''"
    by (simp add: ag_id_def agent_id_def agent_uri_def)
  have p: "proper_manifest (pr_manifest_content toy_peer)"
    by (simp add: toy_peer_def)
  show ?thesis
    using invoke_decides [OF _ rd toy_agent_simps(2) [of "[]"] v f t p, where ?t1.0 = "(''2'', 110)" and ?t2.0 = "(''3'', 110)"] id
    by (simp add: tick_ok_def log_uses_def token_verdict_def refusal_status_def)
qed

text \<open>A token signed by nobody: the third part is left empty.\<close>

definition toy_unsigned :: string where
  "toy_unsigned = ''.'' @ b64url_encode (canonical_json (toy_payload (JStr ''tkn_1''))) @ ''.''"

lemma toy_unsigned_split:
  "split_on (CHR ''.'') toy_unsigned = [[], b64url_encode (canonical_json (toy_payload (JStr ''tkn_1''))), []]"
  by (simp add: toy_unsigned_def split_on_append split_on_no_sep)

lemma toy_unsigned_peek: "peek_payload toy_unsigned = Inr (toy_payload (JStr ''tkn_1''))"
  by (simp add: peek_payload_def toy_unsigned_split b64url_inverse loads_bytes_canonical toy_payload_def)

lemma toy_unsigned_refused: "\<exists>e. verify_compact toy_crypto toy_unsigned pk = Inl e"
proof (cases "verify_compact toy_crypto toy_unsigned pk")
  case (Inr hp)
  have "b64url_decode [] = Inr []" "\<And>h. loads_bytes [] \<noteq> Inr h"
    by code_simp+
  then show ?thesis
    using Inr by (cases hp) (auto simp: verify_compact_iff compact_ok_def toy_unsigned_split)
qed blast

text \<open>C35: Refusals that leave no trace. A token that is not three parts separated by dots lets a
  \<open>ValueError\<close> escape (status 500). A token that names a registered peer, whose id the log does not
  have as used and whose signature does not verify is answered 401; for a used id the replay test
  comes first and decides. In both cases the agent, its audit log included, stays as it was,
  although the design document has the delegatee record a bad signature.\<close>

theorem bad_tokens_unrecorded:
  assumes "read_invoke hs hdr raw = Reply (token, body, spec)"
  shows "(length (split_on (CHR ''.'') token) \<noteq> 3 \<longrightarrow>
      (\<exists>msg. invoke C hs a hdr raw t1 t2 now t3 = (a, Crash (Exn ValueError msg))))
    \<and> (\<forall>p i pr j e. peek_payload token = Inr p \<and> py_index p ''iss'' = Inr (JStr i) \<and> ag_peers a i = Some pr
        \<and> py_index p ''jti'' = Inr j \<and> prior_uses a j = Inr [] \<and> verify_compact C token (pr_public_key pr) = Inl e
        \<longrightarrow> invoke C hs a hdr raw t1 t2 now t3 = (a, HttpError 401 (''token.invalid_signature: '' @ str_exn e)))"
proof -
  let ?cap = "hs_capability spec"
  have refused: "invoke C hs a hdr raw t1 t2 now t3 = (a, delegation_refusal e)"
    if "verify_delegation C a token ?cap (fst t1) (snd t1) = (a, Inl e)" for e
    using invoke_begin_refuses [OF assms that, of t2] delegation_refusal_not_Reply [of e]
    by (auto simp: invoke_def delegation_refusal_def)
  have sig: "(delegation_refusal (Exn TokenInvalidSignature m) :: json http) = HttpError 401 (''token.invalid_signature: '' @ m)" for m
    by (simp add: delegation_refusal_def is_a_def mro_base str_exn_def)
  have val: "(delegation_refusal (Exn ValueError m) :: json http) = Crash (Exn ValueError m)" for m
    by (simp add: delegation_refusal_def is_a_def mro_base)
  have "\<exists>msg. invoke C hs a hdr raw t1 t2 now t3 = (a, Crash (Exn ValueError msg))"
    if len: "length (split_on (CHR ''.'') token) \<noteq> 3"
  proof -
    have "peek_payload token = raise ValueError ''wrong number of values to unpack (expected 3)''"
      using len by (auto simp: peek_payload_def split: list.splits)
    then have "verify_delegation C a token ?cap (fst t1) (snd t1)
        = (a, Inl (Exn ValueError ''wrong number of values to unpack (expected 3)''))"
      by (simp add: verify_delegation_def raise_def)
    then show ?thesis
      using refused val by auto
  qed
  moreover have "invoke C hs a hdr raw t1 t2 now t3 = (a, HttpError 401 (''token.invalid_signature: '' @ str_exn e))"
    if f: "peek_payload token = Inr p" "py_index p ''iss'' = Inr (JStr i)" "ag_peers a i = Some pr"
      "py_index p ''jti'' = Inr j" "prior_uses a j = Inr []" "verify_compact C token (pr_public_key pr) = Inl e"
    for p i pr j e
  proof -
    have "verify_delegation C a token ?cap (fst t1) (snd t1) = (a, Inl (Exn TokenInvalidSignature (str_exn e)))"
      using verify_delegation_fresh [OF f(1-5), of C ?cap "fst t1" "snd t1"] f(6)
      by (simp add: verify_token_def reraise_def)
    then show ?thesis
      using refused sig by auto
  qed
  ultimately show ?thesis
    by blast
qed

lemma bad_tokens_unrecorded_witness:
  "(\<exists>msg. invoke toy_crypto toy_handlers (toy_agent []) (Some ''no-token'') toy_request (''2'', 110) (''3'', 110) 110 (''4'', 110)
      = (toy_agent [], Crash (Exn ValueError msg)))
    \<and> (\<exists>msg. invoke toy_crypto toy_handlers (toy_agent []) (Some toy_unsigned) toy_request (''2'', 110) (''3'', 110) 110 (''4'', 110)
      = (toy_agent [], HttpError 401 msg))"
proof -
  have rd: "read_invoke toy_handlers (Some token) toy_request
      = Reply (token, JDict [(''payload'', JDict [(''action'', JStr ''run'')])], toy_spec)" if "token \<noteq> []" for token
    using that by (auto simp: read_invoke_Reply toy_request_loads toy_handlers_def)
  have none: "''no-token'' \<noteq> []" "toy_unsigned \<noteq> []"
    by (simp_all add: toy_unsigned_def)
  have "\<exists>msg. invoke toy_crypto toy_handlers (toy_agent []) (Some ''no-token'') toy_request (''2'', 110) (''3'', 110) 110 (''4'', 110)
      = (toy_agent [], Crash (Exn ValueError msg))"
    by (rule conjunct1 [OF bad_tokens_unrecorded [OF rd [OF none(1)]], rule_format]) simp
  moreover obtain e where "verify_compact toy_crypto toy_unsigned (pr_public_key toy_peer) = Inl e"
    using toy_unsigned_refused by blast
  then have "peek_payload toy_unsigned = Inr (toy_payload (JStr ''tkn_1''))
      \<and> py_index (toy_payload (JStr ''tkn_1'')) ''iss'' = Inr (JStr (agent_id toy_identity))
      \<and> ag_peers (toy_agent []) (agent_id toy_identity) = Some toy_peer
      \<and> py_index (toy_payload (JStr ''tkn_1'')) ''jti'' = Inr (JStr ''tkn_1'')
      \<and> prior_uses (toy_agent []) (JStr ''tkn_1'') = Inr []
      \<and> verify_compact toy_crypto toy_unsigned (pr_public_key toy_peer) = Inl e"
    using toy_unsigned_peek prior_uses_text [of "toy_agent []" "''tkn_1''"]
    by (auto simp: toy_payload_def py_index_def log_uses_def)
  from conjunct2 [OF bad_tokens_unrecorded [OF rd [OF none(2)]], rule_format, OF this]
  have "\<exists>msg. invoke toy_crypto toy_handlers (toy_agent []) (Some toy_unsigned) toy_request (''2'', 110) (''3'', 110) 110 (''4'', 110)
      = (toy_agent [], HttpError 401 msg)"
    by blast
  ultimately show ?thesis ..
qed

end
