(* ===== verification/Atf_Exchange.thy ===== *)
theory Atf_Exchange
  imports Atf_Wire_Claims
begin

text \<open>
  The client's side of \<open>wire.py\<close> and a whole exchange between two agents: what the delegator
  records when an outcome does not verify, what it signs, who may cosign, and that an honest
  exchange ends with the same doubly signed event in both logs. The JSON transport between the
  two frameworks is the parameter \<open>send\<close>.
\<close>

section \<open>Transport\<close>

text \<open>A value arrives as it was sent: what the HTTP libraries document of their JSON bodies.\<close>

definition faithful :: "(json \<Rightarrow> bytes) \<Rightarrow> bool" where
  "faithful send \<longleftrightarrow> (\<forall>v. normal v \<longrightarrow> loads_bytes (send v) = Inr v)"

lemma faithful_render: "faithful (\<lambda>v. utf8_encode (render ascii v))"
  by (simp add: faithful_def loads_bytes_render)

section \<open>The steps of an exchange\<close>

lemma invoke_runs:
  assumes "verify_delegation C b token (hs_capability spec) (fst t1) (snd t1) = (b, Inr cl)"
    and "wf_log (ag_log b)" and "tick_ok (ag_log b) t2" and "token \<noteq> []"
    and "loads_bytes raw = Inr (JDict kvs)" and "map_of kvs ''payload'' = Some (JDict pkvs)"
    and "map_of pkvs ''action'' = Some (JStr action)" and "action \<noteq> []" and "hs action = Some spec"
    and "tick_ok (ag_log b) t3" and "fst t3 \<noteq> fst t2" and "normal_handlers hs"
  shows "\<exists>b1 r b2 row. invoke_begin C hs b (Some token) raw t1 t2 = (b1, Reply r) \<and> run_claims r = cl \<and> run_spec r = spec
    \<and> wf_log (ag_log b1) \<and> pending_peer_count (ag_log b1) = pending_peer_count (ag_log b)
    \<and> ag_keypair b1 = ag_keypair b \<and> ag_id b1 = ag_id b \<and> ag_peers b1 = ag_peers b
    \<and> tick_ok (ag_log b1) t3 \<and> length (ag_log b1) = Suc (length (ag_log b)) \<and> start_run (JDict kvs) cl spec = Inr r
    \<and> b2 = set_log (ag_log b1 @ [row]) b1
    \<and> invoke C hs b (Some token) raw t1 t2 now t3 = (b2,
        Reply (invoke_reply (run_request_id r) (run_outcome C b1 r (hs_handler spec (run_params r)) now)
          (run_event r (hs_handler spec (run_params r)) t3)
          (sign_only C (run_event r (hs_handler spec (run_params r)) t3) (ag_keypair b) (ag_id b))))
    \<and> append_pending (ag_log b1) (run_event r (hs_handler spec (run_params r)) t3)
          (sign_only C (run_event r (hs_handler spec (run_params r)) t3) (ag_keypair b) (ag_id b))
        = Inr (audit_record (event_content (run_event r (hs_handler spec (run_params r)) t3))
            [sign_only C (run_event r (hs_handler spec (run_params r)) t3) (ag_keypair b) (ag_id b)], ag_log b1 @ [row])"
proof -
  obtain row r where b: "invoke_begin C hs b (Some token) raw t1 t2 = (set_log (ag_log b @ [row]) b, Reply r)"
    and row: "row_event_id row = Some (''evt_'' @ fst t2)" "row_pending row = False"
    and r: "run_claims r = cl" "run_spec r = spec" "start_run (JDict kvs) cl spec = Inr r"
    using invoke_accepts [where hs = hs, OF assms(1-9)] by blast
  let ?b1 = "set_log (ag_log b @ [row]) b"
  obtain token' and pr :: peer_record where v: "verify_token C token' (pr_public_key pr) (ag_id b) (Some (hs_capability spec))
      (Some (pr_manifest_content pr)) (snd t1) = Inr cl" and j: "journal C b (started_event b cl t2) = Inr ?b1"
    using invoke_begin_claims [OF b] r by blast
  have wf: "wf_log (ag_log ?b1)"
    using log_step_wf [OF journal_step [OF j started_event_normal [OF v]] assms(2)] .
  have t3: "tick_ok (ag_log ?b1) t3"
    using assms(10,11) row by (simp add: tick_ok_def)
  have p: "pending_peer_count (ag_log ?b1) = pending_peer_count (ag_log b)"
    using row by (simp add: pending_peer_count_def)
  have d: "dumped (hs_handler (run_spec r) (run_params r))"
    using assms(9,12) invoke_begin_normal(3) [OF b] r(2) by (auto simp: normal_handlers_def intro: normal_dumped)
  obtain row' where f: "invoke_finish C ?b1 r (hs_handler (run_spec r) (run_params r)) now t3 = (set_log (ag_log ?b1 @ [row']) ?b1,
      Reply (invoke_reply (run_request_id r) (run_outcome C ?b1 r (hs_handler (run_spec r) (run_params r)) now)
        (run_event r (hs_handler (run_spec r) (run_params r)) t3)
        (sign_only C (run_event r (hs_handler (run_spec r) (run_params r)) t3) (ag_keypair ?b1) (ag_id ?b1))))"
    and a: "append_pending (ag_log ?b1) (run_event r (hs_handler (run_spec r) (run_params r)) t3)
        (sign_only C (run_event r (hs_handler (run_spec r) (run_params r)) t3) (ag_keypair ?b1) (ag_id ?b1))
        = Inr (audit_record (event_content (run_event r (hs_handler (run_spec r) (run_params r)) t3))
          [sign_only C (run_event r (hs_handler (run_spec r) (run_params r)) t3) (ag_keypair ?b1) (ag_id ?b1)], ag_log ?b1 @ [row'])"
    using invoke_finishes [OF wf t3 d] by blast
  have i: "invoke C hs b (Some token) raw t1 t2 now t3
      = invoke_finish C ?b1 r (hs_handler (run_spec r) (run_params r)) now t3"
    by (simp add: invoke_def b)
  show ?thesis
    using b wf t3 p f a i r
    by (intro exI [of _ ?b1] exI [of _ r] exI [of _ "set_log (ag_log ?b1 @ [row']) ?b1"] exI [of _ row']) simp
qed

lemma client_accepts:
  assumes "ag_peers a bi = Some pr" and "verify_outcome C env (pr_public_key pr) expected = Inr content"
    and "rs_status r < 400" and "loads_bytes (rs_body r) = Inr (invoke_reply rid env ev sig)"
    and "append_finalized C (ag_log a) ev (sign_only C ev (ag_keypair a) (ag_id a)) sig (pr_public_key pr) = Inr (rcd, log)"
  shows "client_response C a tk bi expected cosign r t =
    (set_log log a, Inr (invoke_reply rid env ev sig,
       if cosign then Some (JDict [(''event_id'', ev_event_id ev),
         (''signature'', sign_only C ev (ag_keypair a) (ag_id a))]) else None))"
proof -
  have "accept_event C a (invoke_reply rid env ev sig) bi =
      Inr (set_log log a, JDict [(''event_id'', ev_event_id ev), (''signature'', sign_only C ev (ag_keypair a) (ag_id a))])"
    using assms(1,5) by (simp add: accept_event_def invoke_reply_def from_content_content find_peer_Str Let_def)
  moreover have "verify_outcome_envelope C a env bi expected = Inr content"
    using assms(1,2) by (simp add: verify_outcome_envelope_def find_peer_Str)
  moreover have "py_index (invoke_reply rid env ev sig) ''outcome'' = Inr env"
    by (simp add: invoke_reply_def)
  ultimately show ?thesis
    using assms(3,4) by (simp add: client_response_def)
qed

lemma cosign_accepts:
  assumes "loads_bytes raw = Inr (JDict [(''event_id'', eid), (''signature'', sign_only C ev ka i)])"
    and "ag_peers b i = Some pr"
    and "finalize_pending C (ag_log b) eid (sign_only C ev ka i) (pr_public_key pr) = Inr (rcd, log)"
  shows "audit_cosign C b raw = (set_log log b, Reply (JDict [(''status'', JStr ''ok'')]))"
proof -
  have "read_cosign raw = Inr (eid, sign_only C ev ka i, JStr i)"
    by (simp add: read_cosign_def assms(1) sign_only_def hashed_def hashable_def)
  then show ?thesis
    using assms(2,3) by (simp add: audit_cosign_def find_peer_Str)
qed

lemma client_request_ok:
  assumes "peek_payload token = Inr p" and "py_index p ''jti'' = Inr j" and "normal payload"
  shows "\<exists>kvs. client_request token payload = Inr (p, JDict kvs) \<and> normal (JDict kvs)
    \<and> map_of kvs ''payload'' = Some payload"
proof -
  obtain ps where p: "p = JDict ps"
    using assms(2) by (auto simp: py_index_Inr)
  have "normal (case map_of ps ''audit_uri'' of None \<Rightarrow> JNull | Some v \<Rightarrow> v)"
    using peek_payload_normal [OF assms(1)] p by (auto split: option.splits intro: normal_member)
  then show ?thesis
    using assms p by (auto simp: client_request_def)
qed

lemma peek_not_Nil: "peek_payload token = Inr p \<Longrightarrow> token \<noteq> []"
  by (auto simp: peek_payload_def)

lemma issue_delegation_step:
  assumes "issue_delegation C a to scope purpose constraints x now uuid euuid enow = Inr (token, a')"
  shows "log_step C (ag_log a) (ag_log a')" and "ag_id a' = ag_id a" and "ag_keypair a' = ag_keypair a"
    and "ag_peers a' = ag_peers a"
proof -
  obtain jti p where j: "peek_payload token = Inr p" "py_index p ''jti'' = Inr jti"
      "journal C a (new_event ''delegation.issued'' jti (JStr (ag_id a)) (JStr to)
          [(''scope'', JList (map JStr scope)), (''purpose'', JStr purpose)] euuid enow) = Inr a'"
    using assms by (auto simp: issue_delegation_def)
  have "normal jti"
    using j(2) peek_payload_normal [OF j(1)] by (rule py_index_normal)
  then show "log_step C (ag_log a) (ag_log a')"
    by (intro journal_step [OF j(3)]) (auto simp: new_event_normal)
  show "ag_id a' = ag_id a" "ag_keypair a' = ag_keypair a" "ag_peers a' = ag_peers a"
    using journal_frame [OF j(3)] by simp_all
qed

text \<open>The exchange itself, on a token the delegatee accepts.\<close>

lemma run_outcome_verifies:
  assumes "ed25519_correct C" and "wf_keypair C (ag_keypair b)" and "expected \<in> {None, Some (hs_schema_id (run_spec r))}"
  shows "\<exists>content. verify_outcome C (run_outcome C b r result now) (kp_public (ag_keypair b)) expected = Inr content"
proof -
  obtain status payload reason where o: "projr (handler_outcome result) = (status, payload, reason)"
    by (cases "projr (handler_outcome result)")
  show ?thesis
    using verify_sign_outcome [OF assms(1,2), of expected] assms(3)
    by (auto simp: run_outcome_def o make_outcome_def)
qed

text \<open>The client on a reply that carries a verifiable outcome and an event with the peer's signature.\<close>

lemma client_completes:
  assumes "faithful send" and "client_request token payload = Inr (p, body)"
    and "invoke C hs b (Some token) (send body) (xt_verify ts) (xt_started ts) (xt_outcome ts) (xt_completed ts)
      = (b2, Reply (invoke_reply rid env ev sb))" and "normal (invoke_reply rid env ev sb)"
    and "ag_peers a d = Some pb" and "verify_outcome C env (pr_public_key pb) expected = Inr content"
    and "append_finalized C (ag_log a) ev (sign_only C ev (ag_keypair a) (ag_id a)) sb (pr_public_key pb) = Inr (reca, la)"
    and "ag_peers b2 (ag_id a) = Some pa" and "ev_event_id ev = JStr eid"
    and "finalize_pending C (ag_log b2) (JStr eid) (sign_only C ev (ag_keypair a) (ag_id a)) (pr_public_key pa) = Inr (recb, lb)"
  shows "client_invoke C send hs a b token payload expected d True ts
    = (set_log la a, set_log lb b2, Inr (invoke_reply rid env ev sb))"
proof -
  let ?v = "invoke_reply rid env ev sb" and ?sa = "sign_only C ev (ag_keypair a) (ag_id a)"
  let ?push = "JDict [(''event_id'', ev_event_id ev), (''signature'', ?sa)]"
  have body: "loads_bytes (rs_body (deliver send (Reply ?v))) = Inr ?v" and st: "rs_status (deliver send (Reply ?v)) < 400"
    using assms(1,4) by (simp_all add: deliver_def faithful_def)
  have cl: "client_response C a p d expected True (deliver send (Reply ?v)) (xt_client ts) = (set_log la a, Inr (?v, Some ?push))"
    using client_accepts [OF assms(5,6) st body assms(7), of p True] by simp
  have "loads_bytes (send ?push) = Inr ?push"
    using assms(1,9) by (simp add: faithful_def sign_only_def)
  then have "audit_cosign C b2 (send ?push) = (set_log lb b2, Reply (JDict [(''status'', JStr ''ok'')]))"
    by (rule cosign_accepts [OF _ assms(8)]) (use assms(9,10) in simp)
  with cl show ?thesis
    by (simp add: client_invoke_def lossy_invoke_def assms(2,3))
qed

lemma finalize_pending_length:
  assumes "wf_log log" and "finalize_pending C log eid sig pk = Inr (rcd, log')"
  shows "length log' = length log"
  using finalize_pending_Inr [OF assms] by auto

text \<open>The whole exchange, with the reply and the number of rows it adds to either log.\<close>

lemma exchange_runs:
  assumes "ed25519_correct C" and "faithful send" and "normal_handlers hs"
    and "wf_keypair C (ag_keypair a)" and "wf_keypair C (ag_keypair b)" and "ag_id a \<noteq> ag_id b"
    and "wf_log (ag_log a)" and "wf_log (ag_log b)"
    and "ag_peers b (ag_id a) = Some pa" and "pr_public_key pa = kp_public (ag_keypair a)"
    and "ag_peers a (ag_id b) = Some pb" and "pr_public_key pb = kp_public (ag_keypair b)"
    and "verify_delegation C b token (hs_capability spec) (fst (xt_verify ts)) (snd (xt_verify ts)) = (b, Inr cl)"
    and "normal (JDict pkvs)" and "map_of pkvs ''action'' = Some (JStr action)" and "action \<noteq> []" and "hs action = Some spec"
    and "expected \<in> {None, Some (hs_schema_id spec)}"
    and "tick_ok (ag_log b) (xt_started ts)" and "tick_ok (ag_log b) (xt_completed ts)"
    and "fst (xt_completed ts) \<noteq> fst (xt_started ts)" and "tick_ok (ag_log a) (xt_completed ts)"
  shows "\<exists>a2 b2 resp c sa sb r b1. client_invoke C send hs a b token (JDict pkvs) expected (ag_id b) True ts = (a2, b2, Inr resp)
    \<and> get_event (ag_log a2) (JStr (''evt_'' @ fst (xt_completed ts))) = Inr (Some (audit_record c [sa, sb]))
    \<and> get_event (ag_log b2) (JStr (''evt_'' @ fst (xt_completed ts))) = Inr (Some (audit_record c [sb, sa]))
    \<and> (\<forall>sigs \<in> {[sa, sb], [sb, sa]}. verify_record_signatures C (audit_record c sigs)
         [ag_id a \<mapsto> kp_public (ag_keypair a), ag_id b \<mapsto> kp_public (ag_keypair b)] = Inr ())
    \<and> pending_peer_count (ag_log b2) = pending_peer_count (ag_log b)
    \<and> resp = invoke_reply (run_request_id r) (run_outcome C b1 r (hs_handler spec (run_params r)) (xt_outcome ts))
         (run_event r (hs_handler spec (run_params r)) (xt_completed ts)) sb
    \<and> run_params r = or_empty (case map_of pkvs ''params'' of None \<Rightarrow> JNull | Some v \<Rightarrow> v)
    \<and> length (ag_log a2) = Suc (length (ag_log a)) \<and> length (ag_log b2) = Suc (Suc (length (ag_log b)))
    \<and> wf_log (ag_log a2) \<and> wf_log (ag_log b2)
    \<and> ag_id a2 = ag_id a \<and> ag_keypair a2 = ag_keypair a \<and> ag_id b2 = ag_id b \<and> ag_keypair b2 = ag_keypair b"
proof -
  obtain p j where p: "peek_payload token = Inr p" "py_index p ''jti'' = Inr j"
    using verify_delegation_Inr [OF assms(13)] by blast
  obtain kvs where req: "client_request token (JDict pkvs) = Inr (p, JDict kvs)" "normal (JDict kvs)"
      "map_of kvs ''payload'' = Some (JDict pkvs)"
    using client_request_ok [OF p assms(14)] by blast
  have raw: "loads_bytes (send (JDict kvs)) = Inr (JDict kvs)"
    using assms(2) req(2) by (simp add: faithful_def)
  let ?t3 = "xt_completed ts"
  obtain b1 r row where b: "invoke_begin C hs b (Some token) (send (JDict kvs)) (xt_verify ts) (xt_started ts) = (b1, Reply r)"
    and r: "run_claims r = cl" "run_spec r = spec" and wfb: "wf_log (ag_log b1)"
    and pend: "pending_peer_count (ag_log b1) = pending_peer_count (ag_log b)"
    and frame: "ag_keypair b1 = ag_keypair b" "ag_id b1 = ag_id b" "ag_peers b1 = ag_peers b"
    and t3: "tick_ok (ag_log b1) ?t3" and rows: "length (ag_log b1) = Suc (length (ag_log b))"
    and start: "start_run (JDict kvs) cl spec = Inr r"
    and inv: "invoke C hs b (Some token) (send (JDict kvs)) (xt_verify ts) (xt_started ts) (xt_outcome ts) ?t3 =
      (set_log (ag_log b1 @ [row]) b1,
        Reply (invoke_reply (run_request_id r) (run_outcome C b1 r (hs_handler spec (run_params r)) (xt_outcome ts))
          (run_event r (hs_handler spec (run_params r)) ?t3)
          (sign_only C (run_event r (hs_handler spec (run_params r)) ?t3) (ag_keypair b) (ag_id b))))"
    and app: "append_pending (ag_log b1) (run_event r (hs_handler spec (run_params r)) ?t3)
          (sign_only C (run_event r (hs_handler spec (run_params r)) ?t3) (ag_keypair b) (ag_id b))
        = Inr (audit_record (event_content (run_event r (hs_handler spec (run_params r)) ?t3))
            [sign_only C (run_event r (hs_handler spec (run_params r)) ?t3) (ag_keypair b) (ag_id b)], ag_log b1 @ [row])"
    using invoke_runs [where hs = hs and now = "xt_outcome ts",
        OF assms(13,8,19) peek_not_Nil [OF p(1)] raw req(3) assms(15-17,20,21,3)] by blast
  let ?res = "hs_handler spec (run_params r)"
  let ?ev = "run_event r ?res ?t3"
  let ?env = "run_outcome C b1 r ?res (xt_outcome ts)"
  let ?sa = "sign_only C ?ev (ag_keypair a) (ag_id a)" and ?sb = "sign_only C ?ev (ag_keypair b) (ag_id b)"
  let ?keys = "[ag_id a \<mapsto> kp_public (ag_keypair a), ag_id b \<mapsto> kp_public (ag_keypair b)]"
  let ?v = "invoke_reply (run_request_id r) ?env ?ev ?sb"
  have nev: "normal_event ?ev"
    by (rule run_event_normal) (use invoke_begin_normal [OF b] in simp)
  obtain recb lb1 reca la1 recb' lb2 c where x:
      "append_pending (ag_log b1) ?ev ?sb = Inr (recb, lb1)"
      "append_finalized C (ag_log a) ?ev ?sa ?sb (kp_public (ag_keypair b)) = Inr (reca, la1)"
      "finalize_pending C lb1 (JStr (''evt_'' @ fst ?t3)) ?sa (kp_public (ag_keypair a)) = Inr (recb', lb2)"
      "get_event la1 (JStr (''evt_'' @ fst ?t3)) = Inr (Some (audit_record c [?sa, ?sb]))"
      "get_event lb2 (JStr (''evt_'' @ fst ?t3)) = Inr (Some (audit_record c [?sb, ?sa]))"
      "verify_record_signatures C (audit_record c [?sa, ?sb]) ?keys = Inr ()"
      "verify_record_signatures C (audit_record c [?sb, ?sa]) ?keys = Inr ()"
      "pending_peer_count lb2 = pending_peer_count (ag_log b1)"
    using cross_sign [where keys = ?keys, OF assms(1,4,5,6,7) wfb nev run_event_simps(1)
        run_event_insertable [OF assms(22)] run_event_insertable [OF t3]] assms(6) by auto
  have lb1: "lb1 = ag_log b1 @ [row]"
    using app x(1) by simp
  obtain content where content: "verify_outcome C ?env (pr_public_key pb) expected = Inr content"
    using run_outcome_verifies [OF assms(1), of b1 expected r ?res "xt_outcome ts"] frame assms(5,12,18) r(2) by auto
  have v: "normal ?v"
    using invoke_begin_normal(2,3) [OF b] nev run_outcome_normal [of ?res] assms(3,17)
    by (auto simp: normal_handlers_def sign_only_def intro!: invoke_reply_normal)
  have finish: "client_invoke C send hs a b token (JDict pkvs) expected (ag_id b) True ts
      = (set_log la1 a, set_log lb2 (set_log (ag_log b1 @ [row]) b1), Inr ?v)"
    by (rule client_completes [where recb = recb' and reca = reca and pa = pa, OF assms(2) req(1) inv v assms(11) content _ _ run_event_simps(1)])
      (use x(2,3) assms(9,10,12) frame lb1 in simp_all)
  have "run_params r = or_empty (case map_of pkvs ''params'' of None \<Rightarrow> JNull | Some v \<Rightarrow> v)"
    using start req(3) by (auto simp: start_run_def py_get_def py_get_or_def split: option.splits)
  moreover have sigs: "normal ?sa" "normal ?sb"
    by (simp_all add: sign_only_def)
  moreover have wfs: "wf_log la1" "wf_log lb1"
    by (rule log_step_wf [OF log_step.finalized [OF x(2) nev sigs] assms(7)])
      (rule log_step_wf [OF log_step.pending [OF x(1) nev sigs(2)] wfb])
  moreover have "wf_log lb2"
    by (rule finalize_pending_wf_log [OF wfs(2) x(3) sigs(1)])
  moreover have "length la1 = Suc (length (ag_log a))" "length lb2 = Suc (length (ag_log b1))"
    using x(2) finalize_pending_length [OF wfs(2) x(3)] lb1 by (auto simp: append_finalized_Inr)
  moreover have "\<forall>sigs \<in> {[?sa, ?sb], [?sb, ?sa]}. verify_record_signatures C (audit_record c sigs) ?keys = Inr ()"
    using x(6,7) by blast
  ultimately show ?thesis
    using x(4,5,8) pend finish rows frame(1,2)
    by (intro exI [of _ "set_log la1 a"] exI [of _ "set_log lb2 (set_log (ag_log b1 @ [row]) b1)"] exI [of _ ?v]
        exI [of _ c] exI [of _ ?sa] exI [of _ ?sb] exI [of _ r] exI [of _ b1] conjI) (assumption | simp only: set_log_simps)+
qed

lemma exchange_completes:
  assumes "ed25519_correct C" and "faithful send" and "normal_handlers hs"
    and "wf_keypair C (ag_keypair a)" and "wf_keypair C (ag_keypair b)" and "ag_id a \<noteq> ag_id b"
    and "wf_log (ag_log a)" and "wf_log (ag_log b)"
    and "ag_peers b (ag_id a) = Some pa" and "pr_public_key pa = kp_public (ag_keypair a)"
    and "ag_peers a (ag_id b) = Some pb" and "pr_public_key pb = kp_public (ag_keypair b)"
    and "verify_delegation C b token (hs_capability spec) (fst (xt_verify ts)) (snd (xt_verify ts)) = (b, Inr cl)"
    and "normal (JDict pkvs)" and "map_of pkvs ''action'' = Some (JStr action)" and "action \<noteq> []" and "hs action = Some spec"
    and "expected \<in> {None, Some (hs_schema_id spec)}"
    and "tick_ok (ag_log b) (xt_started ts)" and "tick_ok (ag_log b) (xt_completed ts)"
    and "fst (xt_completed ts) \<noteq> fst (xt_started ts)" and "tick_ok (ag_log a) (xt_completed ts)"
  shows "\<exists>a2 b2 resp c sa sb. client_invoke C send hs a b token (JDict pkvs) expected (ag_id b) True ts = (a2, b2, Inr resp)
    \<and> get_event (ag_log a2) (JStr (''evt_'' @ fst (xt_completed ts))) = Inr (Some (audit_record c [sa, sb]))
    \<and> get_event (ag_log b2) (JStr (''evt_'' @ fst (xt_completed ts))) = Inr (Some (audit_record c [sb, sa]))
    \<and> (\<forall>sigs \<in> {[sa, sb], [sb, sa]}. verify_record_signatures C (audit_record c sigs)
         [ag_id a \<mapsto> kp_public (ag_keypair a), ag_id b \<mapsto> kp_public (ag_keypair b)] = Inr ())
    \<and> pending_peer_count (ag_log b2) = pending_peer_count (ag_log b)"
  using exchange_runs [OF assms] by blast

lemma issue_delegation_token:
  assumes "wf_log (ag_log a)" and "check_own_manifest a scope = Inr ()" and "0 < x" and "x \<le> MAX_TTL_SECONDS"
    and "constraints = None \<or> normal (JDict (the constraints))" and "tick_ok (ag_log a) (euuid, enow)"
  shows "\<exists>r. issue_delegation C a to scope purpose constraints x now uuid euuid enow
      = Inr (sign_compact C (claims_dict (issue_claims (ag_identity a) to scope purpose constraints x
            (Some (''local://'' @ ag_id a)) now uuid)) (ag_keypair a), set_log (ag_log a @ [r]) a)
    \<and> row_event_id r = Some (''evt_'' @ euuid)"
proof -
  let ?c = "issue_claims (ag_identity a) to scope purpose constraints x (Some (''local://'' @ ag_id a)) now uuid"
  let ?token = "sign_compact C (claims_dict ?c) (ag_keypair a)"
  let ?j = "JStr (''tkn_'' @ uuid)"
  have n: "normal (claims_dict ?c)"
    by (rule issue_claims_normal [OF assms(5)])
  have issue: "issue_token C (ag_identity a) (ag_keypair a) to scope purpose constraints x
      (Some (''local://'' @ ag_id a)) now uuid = Inr ?token"
    using assms(3,4) by (simp add: issue_token_def)
  obtain ds where ds: "claims_dict ?c = JDict ds" "distinct (map fst ds)" "map_of ds ''jti'' = Some ?j"
    by (simp add: claims_dict_def)
  have "map_of (sort_dict ds) ''jti'' = Some ?j"
    using sort_dict_lookup [OF ds(2)] ds(3) by simp
  then have jti: "bind_res (peek_payload ?token) (\<lambda>p. py_index p ''jti'') = Inr ?j"
    using peek_sign_compact [OF n, of C "ag_keypair a"] ds(1) sort_json_sort_dict by simp
  let ?ev = "new_event ''delegation.issued'' ?j (JStr (ag_id a)) (JStr to)
     [(''scope'', JList (map JStr scope)), (''purpose'', JStr purpose)] euuid enow"
  have "insertable (ag_log a) ?ev"
    using new_event_tick [OF assms(6)] by simp
  then obtain r where r: "journal C a ?ev = Inr (set_log (ag_log a @ [r]) a)" "row_event_id r = Some (''evt_'' @ euuid)"
    using journal_ok [OF assms(1), of ?ev C] by (auto simp: inserts_def)
  then show ?thesis
    unfolding issue_delegation_def assms(2) issue jti bind_res_Inr by auto
qed

lemma issue_delegation_ok:
  assumes "wf_log (ag_log a)" and "check_own_manifest a scope = Inr ()" and "0 < x" and "x \<le> MAX_TTL_SECONDS"
    and "constraints = None \<or> normal (JDict (the constraints))" and "tick_ok (ag_log a) (euuid, enow)"
  shows "\<exists>token r. issue_delegation C a to scope purpose constraints x now uuid euuid enow
      = Inr (token, set_log (ag_log a @ [r]) a) \<and> row_event_id r = Some (''evt_'' @ euuid)"
  using issue_delegation_token [OF assms] by blast

section \<open>Disputes\<close>

lemma is_a_OutcomeInvalidSignature: "is_a c OutcomeInvalidSignature \<longleftrightarrow> c = OutcomeInvalidSignature"
  by (cases c) (simp_all add: is_a_def mro_base)

lemma verify_outcome_bad_signature:
  assumes "map_of kvs ''outcome'' = Some c" and "map_of kvs ''signature'' = Some s"
    and "\<not> envelope_ok C pk s (canonical_json c)"
  shows "\<exists>msg. verify_outcome C (JDict kvs) pk expected = Inl (Exn OutcomeInvalidSignature msg)"
  using verify_envelope_raises [OF assms(3)] assms(1,2)
  by (auto simp: verify_outcome_def reraise_def)

lemma verify_outcome_wrong_schema:
  assumes "map_of kvs ''outcome'' = Some (JDict c)" and "map_of kvs ''signature'' = Some s"
    and "envelope_ok C pk s (canonical_json (JDict c))" and "map_of c ''schema_id'' \<noteq> Some (JStr want)"
  shows "\<exists>msg. verify_outcome C (JDict kvs) pk (Some want) = Inl (Exn OutcomeSchemaMismatch msg)"
proof -
  have "verify_envelope C (JDict c) s pk = Inr ()"
    using assms(3) by (simp add: verify_envelope_iff)
  then show ?thesis
    using assms(1,2,4) by (auto simp: verify_outcome_def check_schema_def raise_def split: option.splits)
qed

lemma dispute_recorded:
  assumes "wf_log (ag_log a)" and "py_index tk ''jti'' = Inr (JStr j)" and "tick_ok (ag_log a) t"
  shows "\<exists>row. dispute C a tk d e t = Inr (set_log (ag_log a @ [row]) a)
    \<and> row_type row = ''delegation.disputed'' \<and> row_token_jti row = Some j \<and> \<not> row_pending row"
proof -
  let ?ev = "new_event ''delegation.disputed'' (JStr j) (JStr (ag_id a)) (JStr d)
         [(''reason'', JStr ''outcome.invalid_signature''), (''detail'', JStr (str_exn e))] (fst t) (snd t)"
  obtain row where "journal C a ?ev = Inr (set_log (ag_log a @ [row]) a)" "inserts (ag_log a) ?ev
      (audit_record (event_content ?ev) [sign_envelope C (event_content ?ev) (ag_keypair a) (ag_id a)]) False row"
    using journal_ok [OF assms(1) new_event_tick [OF assms(3)]] by blast
  then show ?thesis
    using assms(2) by (auto simp: dispute_def inserts_def)
qed

lemma client_rejects:
  assumes "rs_status r < 400" and "loads_bytes (rs_body r) = Inr resp" and "py_index resp ''outcome'' = Inr env"
    and "ag_peers a d = Some p" and "verify_outcome C env (pr_public_key p) expected = Inl e"
  shows "client_response C a tk d expected cosign r t =
    (if exn_cls e = OutcomeInvalidSignature
     then (case dispute C a tk d e t of Inl e' \<Rightarrow> (a, Inl e') | Inr a' \<Rightarrow> (a', Inl e))
     else (a, Inl e))"
  using assms
  by (simp add: client_response_def verify_outcome_envelope_def find_peer_Str is_a_OutcomeInvalidSignature)

section \<open>Agents for the witnesses\<close>

definition toy_delegator :: agent where
  "toy_delegator = toy_issuer\<lparr>ag_peers := [ag_id (toy_agent []) \<mapsto>
     \<lparr>pr_agent_id = ag_id (toy_agent []), pr_public_key = kp_public toy_keypair_2, pr_manifest_content = JDict []\<rparr>]\<rparr>"

lemma toy_delegator_simps [simp]:
  "ag_id toy_delegator = agent_id toy_identity" "ag_keypair toy_delegator = toy_keypair" "ag_log toy_delegator = []"
  "ag_manifest_envelope toy_delegator = Some (sign_manifest toy_crypto toy_manifest toy_keypair)"
  "own_manifest_content toy_delegator = Inr (manifest_content toy_manifest)"
  "map_option pr_public_key (ag_peers toy_delegator (ag_id (toy_agent []))) = Some (kp_public toy_keypair_2)"
  using toy_issuer_simps by (simp_all add: toy_delegator_def ag_id_def own_manifest_content_def del: toy_issuer_simps(1-3,5))

lemma toy_agent_id: "ag_id (toy_agent log) \<noteq> agent_id toy_identity" "ag_id (toy_agent log) = ag_id (toy_agent [])"
  by (simp_all add: toy_agent_def ag_id_def agent_id_def agent_uri_def toy_identity_def)

lemma toy_agent_keypair [simp]: "ag_keypair (toy_agent log) = toy_keypair_2"
  by (simp add: toy_agent_def)

lemma toy_delegation:
  "\<exists>token r. issue_delegation toy_crypto toy_delegator (ag_id (toy_agent [])) [''code.write.python''] ''p'' None 60 100 ''0'' ''1'' 100
      = Inr (token, set_log [r] toy_delegator) \<and> row_event_id r = Some ''evt_1''"
proof -
  have "check_own_manifest toy_delegator [''code.write.python''] = Inr ()"
    by (simp add: check_own_manifest_def manifest_test.test_covers covers_def)
  then show ?thesis
    using issue_delegation_ok [of toy_delegator "[''code.write.python'']" 60 None "''1''" 100]
    by (simp add: MAX_TTL_SECONDS_def toy_tick)
qed

section \<open>Properties\<close>

text \<open>C1: An honest delegation completes end to end: the delegator issues a token within its own
  manifest, invokes a registered delegatee inside the token's window for an action whose capability
  the scope covers, and the call returns; both logs then hold the completion event with one content
  and both signatures, which a third party with the two public keys verifies, the delegatee has
  nothing left pending, and the delegator's log has the issued token.\<close>

theorem wire_end_to_end:
  assumes "ed25519_correct C" and "faithful send" and "normal_handlers hs"
    and "wf_keypair C (ag_keypair a)" and "wf_keypair C (ag_keypair b)" and "ag_id a \<noteq> ag_id b"
    and "(log_step C)\<^sup>*\<^sup>* [] (ag_log a)" and "(log_step C)\<^sup>*\<^sup>* [] (ag_log b)"
    and "ag_peers b (ag_id a) = Some pa" and "pr_public_key pa = kp_public (ag_keypair a)"
    and "proper_manifest (pr_manifest_content pa)"
    and "ag_manifest_envelope a = Some env" and "own_manifest_content a = Inr (pr_manifest_content pa)"
    and "ag_peers a (ag_id b) = Some pb" and "pr_public_key pb = kp_public (ag_keypair b)"
    and "constraints = None \<or> normal (JDict (the constraints))"
    and "issue_delegation C a (ag_id b) scope purpose constraints x now uuid euuid enow = Inr (token, a1)"
    and "\<not> log_uses (ag_log b) (JStr (''tkn_'' @ uuid))"
    and "now \<le> snd (xt_verify ts)" and "snd (xt_verify ts) < now + x"
    and "hs action = Some spec" and "action \<noteq> []" and "s \<in> set scope" and "covers s (hs_capability spec)"
    and "normal (JDict pkvs)" and "map_of pkvs ''action'' = Some (JStr action)"
    and "expected \<in> {None, Some (hs_schema_id spec)}"
    and "tick_ok (ag_log b) (xt_started ts)" and "tick_ok (ag_log b) (xt_completed ts)"
    and "fst (xt_completed ts) \<noteq> fst (xt_started ts)" and "tick_ok (ag_log a1) (xt_completed ts)"
  shows "\<exists>a2 b2 resp c sa sb. client_invoke C send hs a1 b token (JDict pkvs) expected (ag_id b) True ts = (a2, b2, Inr resp)
    \<and> get_event (ag_log a2) (JStr (''evt_'' @ fst (xt_completed ts))) = Inr (Some (audit_record c [sa, sb]))
    \<and> get_event (ag_log b2) (JStr (''evt_'' @ fst (xt_completed ts))) = Inr (Some (audit_record c [sb, sa]))
    \<and> (\<forall>sigs \<in> {[sa, sb], [sb, sa]}. verify_record_signatures C (audit_record c sigs)
         [ag_id a \<mapsto> kp_public (ag_keypair a), ag_id b \<mapsto> kp_public (ag_keypair b)] = Inr ())
    \<and> pending_peer_count (ag_log b2) = pending_peer_count (ag_log b)
    \<and> (\<exists>r. ag_log a1 = ag_log a @ [r] \<and> row_type r = ''delegation.issued'' \<and> row_token_jti r = Some (''tkn_'' @ uuid))"
proof -
  note st = issue_delegation_step [OF assms(17)]
  have wfa: "wf_log (ag_log a1)"
    using log_step_wf [OF st(1)] log_steps_wf [OF assms(7)] by simp
  have wfb: "wf_log (ag_log b)"
    using log_steps_wf [OF assms(8)] by simp
  obtain cl where v: "verify_delegation C b token (hs_capability spec) (fst (xt_verify ts)) (snd (xt_verify ts)) = (b, Inr cl)"
    and i: "\<exists>r. ag_log a1 = ag_log a @ [r] \<and> row_type r = ''delegation.issued'' \<and> row_token_jti r = Some (''tkn_'' @ uuid)"
    using issued_delegation_accepted [OF assms(1,4,16,17,8,9,10,11,12,13,18,19,20,23,24)] by blast
  have "\<exists>a2 b2 resp c sa sb. client_invoke C send hs a1 b token (JDict pkvs) expected (ag_id b) True ts = (a2, b2, Inr resp)
    \<and> get_event (ag_log a2) (JStr (''evt_'' @ fst (xt_completed ts))) = Inr (Some (audit_record c [sa, sb]))
    \<and> get_event (ag_log b2) (JStr (''evt_'' @ fst (xt_completed ts))) = Inr (Some (audit_record c [sb, sa]))
    \<and> (\<forall>sigs \<in> {[sa, sb], [sb, sa]}. verify_record_signatures C (audit_record c sigs)
         [ag_id a1 \<mapsto> kp_public (ag_keypair a1), ag_id b \<mapsto> kp_public (ag_keypair b)] = Inr ())
    \<and> pending_peer_count (ag_log b2) = pending_peer_count (ag_log b)"
    by (rule exchange_completes [OF assms(1,2,3) _ assms(5) _ wfa wfb _ _ _ assms(15) v assms(25,26,22,21,27,28,29,30,31)])
      (use assms(4,6,9,10,14) st in simp_all)
  then show ?thesis
    using i st(2,3) by auto
qed

lemma wire_end_to_end_witness:
  "\<exists>token a1 a2 b2 resp. issue_delegation toy_crypto toy_delegator (ag_id (toy_agent [])) [''code.write.python''] ''p'' None 60 100 ''0'' ''1'' 100
      = Inr (token, a1)
    \<and> client_invoke toy_crypto (\<lambda>v. utf8_encode (render True v)) toy_handlers a1 (toy_agent []) token
        (JDict [(''action'', JStr ''run'')]) (Some ''s.v1'') (ag_id (toy_agent [])) True
        \<lparr>xt_verify = (''2'', 130), xt_started = (''3'', 130), xt_outcome = 131, xt_completed = (''4'', 132),
          xt_client = (''5'', 133)\<rparr> = (a2, b2, Inr resp)
    \<and> pending_peer_count (ag_log b2) = 0"
proof -
  let ?ts = "\<lparr>xt_verify = (''2'', 130), xt_started = (''3'', 130), xt_outcome = 131, xt_completed = (''4'', 132),
          xt_client = (''5'', 133)\<rparr>"
  let ?b = "toy_agent []" and ?send = "\<lambda>v. utf8_encode (render True v)"
  obtain token r where t: "issue_delegation toy_crypto toy_delegator (ag_id ?b) [''code.write.python''] ''p'' None 60 100 ''0'' ''1'' 100
      = Inr (token, set_log [r] toy_delegator)" and e: "row_event_id r = Some ''evt_1''"
    using toy_delegation by blast
  obtain pb where pb: "ag_peers toy_delegator (ag_id ?b) = Some pb" "pr_public_key pb = kp_public (ag_keypair ?b)"
    using toy_delegator_simps(6) by (auto simp del: toy_delegator_simps(6))
  have keys: "wf_keypair toy_crypto (ag_keypair toy_delegator)" "wf_keypair toy_crypto (ag_keypair ?b)"
    by (simp_all add: toy_keypair_wf toy_keypair_2_wf)
  have ids: "ag_id toy_delegator \<noteq> ag_id ?b"
    using toy_agent_id(1) [of "[]"] by simp
  have logs: "(log_step toy_crypto)\<^sup>*\<^sup>* [] (ag_log toy_delegator)" "(log_step toy_crypto)\<^sup>*\<^sup>* [] (ag_log ?b)"
    by simp_all
  have pa: "ag_peers ?b (ag_id toy_delegator) = Some toy_peer" "pr_public_key toy_peer = kp_public (ag_keypair toy_delegator)"
    "proper_manifest (pr_manifest_content toy_peer)" "own_manifest_content toy_delegator = Inr (pr_manifest_content toy_peer)"
    by (simp_all add: toy_peer_def)
  have fresh: "\<not> log_uses (ag_log ?b) (JStr (''tkn_'' @ ''0''))"
    by (simp add: log_uses_def)
  have window: "(100 :: int) \<le> snd (xt_verify ?ts)" "snd (xt_verify ?ts) < 100 + 60"
    by simp_all
  have act: "toy_handlers ''run'' = Some toy_spec" "''run'' \<noteq> []" "''code.write.python'' \<in> set [''code.write.python'']"
    "covers ''code.write.python'' (hs_capability toy_spec)"
    by (simp_all add: toy_handlers_def covers_def toy_spec_def)
  have req: "normal (JDict [(''action'', JStr ''run'')])" "map_of [(''action'', JStr ''run'')] ''action'' = Some (JStr ''run'')"
    "Some ''s.v1'' \<in> {None, Some (hs_schema_id toy_spec)}"
    by (simp_all add: toy_spec_def)
  have ticks: "tick_ok (ag_log ?b) (xt_started ?ts)" "tick_ok (ag_log ?b) (xt_completed ?ts)"
    "fst (xt_completed ?ts) \<noteq> fst (xt_started ?ts)" "tick_ok (ag_log (set_log [r] toy_delegator)) (xt_completed ?ts)"
    by (simp_all add: tick_ok_def e)
  from wire_end_to_end [OF toy_crypto_ok(1) faithful_render [of True] toy_handlers_normal keys ids logs pa(1-3) toy_delegator_simps(4) pa(4)
      pb disjI1 [OF refl] t fresh window act(1-4) req ticks]
  show ?thesis
    using t by (auto simp: pending_peer_count_def)
qed

text \<open>C29: What the client records when an outcome does not verify. A signature of the delegatee that does
  not match the outcome is disputed: one event with the token's id is appended and
  \<open>OutcomeInvalidSignature\<close> is raised. A well signed outcome of another schema than the expected one
  raises \<open>OutcomeSchemaMismatch\<close> and leaves no record, although the design document has the
  delegator log a dispute for it.\<close>

theorem client_disputes:
  assumes "(log_step C)\<^sup>*\<^sup>* [] (ag_log a)" and "ag_peers a d = Some p" and "rs_status r < 400"
    and "loads_bytes (rs_body r) = Inr resp" and "py_index resp ''outcome'' = Inr (JDict env)"
    and "map_of env ''outcome'' = Some (JDict c)" and "map_of env ''signature'' = Some s"
    and "py_index tk ''jti'' = Inr (JStr j)" and "tick_ok (ag_log a) t"
  shows "(\<not> envelope_ok C (pr_public_key p) s (canonical_json (JDict c)) \<longrightarrow>
      (\<exists>row msg. client_response C a tk d expected cosign r t
          = (set_log (ag_log a @ [row]) a, Inl (Exn OutcomeInvalidSignature msg))
        \<and> row_type row = ''delegation.disputed'' \<and> row_token_jti row = Some j \<and> \<not> row_pending row))
    \<and> (envelope_ok C (pr_public_key p) s (canonical_json (JDict c)) \<and> expected = Some want
        \<and> map_of c ''schema_id'' \<noteq> Some (JStr want) \<longrightarrow>
      (\<exists>msg. client_response C a tk d expected cosign r t = (a, Inl (Exn OutcomeSchemaMismatch msg))))"
proof -
  note rej = client_rejects [OF assms(3-5,2)]
  have "\<exists>row msg. client_response C a tk d expected cosign r t
          = (set_log (ag_log a @ [row]) a, Inl (Exn OutcomeInvalidSignature msg))
        \<and> row_type row = ''delegation.disputed'' \<and> row_token_jti row = Some j \<and> \<not> row_pending row"
    if bad: "\<not> envelope_ok C (pr_public_key p) s (canonical_json (JDict c))"
  proof -
    obtain msg where v: "verify_outcome C (JDict env) (pr_public_key p) expected = Inl (Exn OutcomeInvalidSignature msg)"
      using verify_outcome_bad_signature [OF assms(6,7) bad] by blast
    obtain row where "dispute C a tk d (Exn OutcomeInvalidSignature msg) t = Inr (set_log (ag_log a @ [row]) a)"
      "row_type row = ''delegation.disputed''" "row_token_jti row = Some j" "\<not> row_pending row"
      using dispute_recorded [OF log_steps_wf [OF assms(1) wf_log_Nil] assms(8,9)] by blast
    then show ?thesis
      using rej [OF v, of tk cosign t] by auto
  qed
  moreover have "\<exists>msg. client_response C a tk d expected cosign r t = (a, Inl (Exn OutcomeSchemaMismatch msg))"
    if h: "envelope_ok C (pr_public_key p) s (canonical_json (JDict c))" "expected = Some want"
      "map_of c ''schema_id'' \<noteq> Some (JStr want)"
  proof -
    obtain msg where v: "verify_outcome C (JDict env) (pr_public_key p) expected = Inl (Exn OutcomeSchemaMismatch msg)"
      using verify_outcome_wrong_schema [OF assms(6,7) h(1,3)] h(2) by blast
    then show ?thesis
      using rej [OF v, of tk cosign t] by simp
  qed
  ultimately show ?thesis
    by blast
qed

text \<open>The reply of a server whose outcome is signed with the wrong key.\<close>

definition toy_forged :: json where
  "toy_forged = JDict [(''outcome'', sign_outcome toy_crypto toy_outcome toy_keypair ''b'')]"

lemma client_disputes_witness:
  "\<exists>row msg. client_response toy_crypto toy_delegator (JDict [(''jti'', JStr ''tkn_1'')]) (ag_id (toy_agent [])) None True
      \<lparr>rs_status = 200, rs_text = [], rs_body = utf8_encode (render True toy_forged)\<rparr> (''5'', 133)
    = (set_log [row] toy_delegator, Inl (Exn OutcomeInvalidSignature msg)) \<and> row_type row = ''delegation.disputed''"
proof -
  obtain p where p: "ag_peers toy_delegator (ag_id (toy_agent [])) = Some p" "pr_public_key p = kp_public toy_keypair_2"
    using toy_delegator_simps(6) by (auto simp del: toy_delegator_simps(6))
  let ?r = "\<lparr>rs_status = 200, rs_text = [], rs_body = utf8_encode (render True toy_forged)\<rparr>"
  obtain c s where c: "sign_outcome toy_crypto toy_outcome toy_keypair ''b'' = JDict [(''outcome'', JDict c), (''signature'', s)]"
      "s = sign_envelope toy_crypto (JDict c) toy_keypair ''b''"
    by (simp add: sign_outcome_def outcome_content_def Let_def)
  have "normal toy_forged"
    using sign_outcome_normal [OF toy_outcome_wf] by (simp add: toy_forged_def)
  then have body: "loads_bytes (rs_body ?r) = Inr toy_forged"
    by (simp add: loads_bytes_render)
  have out: "py_index toy_forged ''outcome'' = Inr (JDict [(''outcome'', JDict c), (''signature'', s)])"
    using c(1) by (simp add: toy_forged_def)
  have bad: "\<not> envelope_ok toy_crypto (pr_public_key p) s (canonical_json (JDict c))"
    by (auto simp: c(2) p(2) envelope_ok_def sign_envelope_def Let_def b64url_inverse toy_crypto_def toy_keypair_def
        toy_keypair_2_def generate_def)
  have m: "map_of [(''outcome'', JDict c), (''signature'', s)] ''outcome'' = Some (JDict c)"
    "map_of [(''outcome'', JDict c), (''signature'', s)] ''signature'' = Some s"
    by simp_all
  have t: "py_index (JDict [(''jti'', JStr ''tkn_1'')]) ''jti'' = Inr (JStr ''tkn_1'')"
      "tick_ok (ag_log toy_delegator) (''5'', 133)" "rs_status ?r < 400"
    by (simp_all add: tick_ok_def)
  have log: "(log_step toy_crypto)\<^sup>*\<^sup>* [] (ag_log toy_delegator)"
    by simp
  from client_disputes [where expected = None and cosign = True, OF log p(1) t(3) body out m t(1,2)] bad
  show ?thesis
    by auto
qed

text \<open>C33: A pending event can be cosigned by a stranger: any registered peer that signs the event's content
  finalizes it, whoever the event names as delegator; the stored record then carries the server's
  and the stranger's signatures, and every later cosign request for the event, the delegator's own
  included, is answered 400 and changes nothing.\<close>

theorem any_peer_can_cosign:
  assumes "ed25519_correct C" and "faithful send" and "(log_step C)\<^sup>*\<^sup>* [] (ag_log b)"
    and "normal_event ev" and "ev_event_id ev = JStr eid" and "insertable (ag_log b) ev"
    and "wf_keypair C (ag_keypair b)" and "wf_keypair C km"
    and "ag_peers b m = Some pm" and "pr_public_key pm = kp_public km" and "m \<noteq> ag_id b"
    and "append_pending (ag_log b) ev (sign_only C ev (ag_keypair b) (ag_id b)) = Inr (rcd, log)"
    and "ag_peers b d = Some pd" and "normal sig" and "py_index sig ''signed_by'' = Inr (JStr d)"
  shows "\<exists>b2 c. audit_cosign C (set_log log b) (send (JDict [(''event_id'', JStr eid), (''signature'', sign_only C ev km m)]))
        = (b2, Reply (JDict [(''status'', JStr ''ok'')]))
    \<and> get_event (ag_log b2) (JStr eid)
        = Inr (Some (audit_record c [sign_only C ev (ag_keypair b) (ag_id b), sign_only C ev km m]))
    \<and> audit_cosign C b2 (send (JDict [(''event_id'', JStr eid), (''signature'', sig)]))
        = (b2, HttpError 400 (''event '' @ str_repr eid @ '' is not pending peer signature''))"
proof -
  let ?sb = "sign_only C ev (ag_keypair b) (ag_id b)" and ?sm = "sign_only C ev km m"
  let ?keys = "[m \<mapsto> kp_public km, ag_id b \<mapsto> kp_public (ag_keypair b)]"
  have wf: "wf_log (ag_log b)"
    using log_steps_wf [OF assms(3)] by simp
  have "insertable [] ev"
    using assms(6) by (auto simp: insertable_def)
  then obtain rb lb1 rm lm rb' lb2 c where x: "append_pending (ag_log b) ev ?sb = Inr (rb, lb1)"
      "append_finalized C [] ev ?sm ?sb (kp_public (ag_keypair b)) = Inr (rm, lm)"
      "finalize_pending C lb1 (JStr eid) ?sm (kp_public km) = Inr (rb', lb2)"
      "get_event lb2 (JStr eid) = Inr (Some (audit_record c [?sb, ?sm]))"
    using cross_sign [where keys = ?keys, OF assms(1,8,7,11) wf_log_Nil wf assms(4,5) _ assms(6)] assms(11) by auto
  have lb1: "lb1 = log"
    using x(1) assms(12) by simp
  have push: "loads_bytes (send (JDict [(''event_id'', JStr eid), (''signature'', s)]))
      = Inr (JDict [(''event_id'', JStr eid), (''signature'', s)])" if "normal s" for s
    using assms(2) that by (simp add: faithful_def)
  let ?b2 = "set_log lb2 (set_log log b)"
  have first: "audit_cosign C (set_log log b) (send (JDict [(''event_id'', JStr eid), (''signature'', ?sm)]))
      = (?b2, Reply (JDict [(''status'', JStr ''ok'')]))"
    by (rule cosign_accepts [where pr = pm]) (use push [of ?sm] assms(9,10) x(3) lb1 in \<open>simp_all add: sign_only_def\<close>)
  have wf1: "wf_log log"
    using log_step_wf [OF log_step.pending [OF assms(12,4)] wf] by (simp add: sign_only_def)
  have again: "finalize_pending C lb2 (JStr eid) sig (pr_public_key pd)
      = Inl (Exn AuditError (''event '' @ str_repr eid @ '' is not pending peer signature''))"
    using finalize_pending_again [OF wf1 x(3) [unfolded lb1], of sig "pr_public_key pd"] by simp
  have "read_cosign (send (JDict [(''event_id'', JStr eid), (''signature'', sig)])) = Inr (JStr eid, sig, JStr d)"
    using assms(15) by (simp add: read_cosign_def push [OF assms(14)] hashed_def hashable_def)
  then have second: "audit_cosign C ?b2 (send (JDict [(''event_id'', JStr eid), (''signature'', sig)]))
      = (?b2, HttpError 400 (''event '' @ str_repr eid @ '' is not pending peer signature''))"
    using assms(13) again by (simp add: audit_cosign_def find_peer_Str is_a_ATFError atf_classes_def str_exn_def)
  show ?thesis
    using first second x(4) by (intro exI [of _ ?b2] exI [of _ c]) simp
qed

lemma any_peer_can_cosign_witness:
  "\<exists>log b2 rcd. append_pending [] (toy_event ''e'' 5) (sign_only toy_crypto (toy_event ''e'' 5) toy_keypair_2 (ag_id (toy_agent [])))
      = Inr (rcd, log)
    \<and> audit_cosign toy_crypto (set_log log (toy_agent []))
        (utf8_encode (render True (JDict [(''event_id'', JStr ''e''),
           (''signature'', sign_only toy_crypto (toy_event ''e'' 5) toy_keypair (agent_id toy_identity))])))
      = (b2, Reply (JDict [(''status'', JStr ''ok'')]))"
proof -
  let ?ev = "toy_event ''e'' 5" and ?b = "toy_agent []"
  have i: "insertable (ag_log ?b) ?ev"
    by (simp add: insertable_def toy_event_def)
  obtain r where "inserts [] ?ev (audit_record (event_content ?ev) [sign_only toy_crypto ?ev toy_keypair_2 (ag_id ?b)]) True r"
    using insertable_inserts [OF wf_log_Nil] i unfolding toy_agent_simps by blast
  then obtain rcd log where a: "append_pending [] ?ev (sign_only toy_crypto ?ev toy_keypair_2 (ag_id ?b)) = Inr (rcd, log)"
    by (auto simp: append_pending_Inr)
  have id: "ev_event_id ?ev = JStr ''e''"
    by (simp add: toy_event_def)
  have m: "agent_id toy_identity \<noteq> ag_id ?b"
    using toy_agent_id(1) [of "[]"] by simp
  have pk: "pr_public_key toy_peer = kp_public toy_keypair"
    by (simp add: toy_peer_def)
  have log0: "(log_step toy_crypto)\<^sup>*\<^sup>* [] (ag_log ?b)"
    by simp
  have a': "append_pending (ag_log ?b) ?ev (sign_only toy_crypto ?ev (ag_keypair ?b) (ag_id ?b)) = Inr (rcd, log)"
    using a by simp
  have s: "normal (sign_only toy_crypto ?ev toy_keypair (agent_id toy_identity))"
    "py_index (sign_only toy_crypto ?ev toy_keypair (agent_id toy_identity)) ''signed_by'' = Inr (JStr (agent_id toy_identity))"
    by (simp_all add: sign_only_def)
  from any_peer_can_cosign [OF toy_crypto_ok(1) faithful_render [of True] log0 toy_event_normal id i toy_agent_key toy_keypair_wf
      toy_agent_simps(2) pk m a' toy_agent_simps(2) s]
  show ?thesis
    using a by blast
qed


text \<open>An event of no delegation, with a number for its token's id.\<close>

definition toy_strange_event :: audit_event where
  "toy_strange_event = (toy_event ''e'' 5)\<lparr>ev_type := JStr ''anything'', ev_token_jti := JInt 7\<rparr>"

lemma toy_strange_event_normal: "normal_event toy_strange_event"
  by (simp add: toy_strange_event_def normal_event_def event_content_def toy_event_def)


end
