(* ===== verification/Atf_Setup.thy ===== *)
theory Atf_Setup
  imports Atf_Exchange
begin

text \<open>
  Setting an agent up: what \<open>Agent.create\<close>, \<open>publish_manifest\<close> and \<open>register_peer\<close> give one after
  the other, within a process and over a restart on the same data directory. The command line and
  the demo both start this way.
\<close>

section \<open>An agent survives a restart\<close>

lemma create_key:
  assumes "create C name ownr kid dir fresh = Inr a"
  shows "dir_key (ag_data_dir a) \<noteq> None" and "dir_log (ag_data_dir a) = dir_log dir"
    and "ag_identity a = \<lparr>id_owner = ownr, id_name = name, id_keypair = ag_keypair a, id_attestations = [], id_manifest_uri = None\<rparr>"
    and "wf_keypair C (ag_keypair a)" and "kp_kid (ag_keypair a) = kid" and "ag_peers a = (\<lambda>_. None)"
    and "pem_correct C \<Longrightarrow> from_pem C (the (dir_key (ag_data_dir a))) kid = Inr (ag_keypair a)"
  using assms from_pem_wf from_pem_private_pem [of C "generate C kid fresh"]
  by (auto simp: create_def Let_def generate_wf split: option.splits)

lemma create_frame:
  assumes "create C name ownr kid dir fresh = Inr a"
  shows "dir_manifest (ag_data_dir a) = dir_manifest dir"
    and "case dir_manifest dir of None \<Rightarrow> ag_manifest_envelope a = None
      | Some text \<Rightarrow> \<exists>env. loads text = Inr env \<and> ag_manifest_envelope a = Some env"
  using assms by (auto simp: create_def Let_def split: option.splits)

text \<open>Creating the agent again on its directory gives the same agent, its registered peers apart.\<close>

lemma create_again:
  assumes "pem_correct C" and "create C name ownr kid dir fresh = Inr a"
    and "ag_data_dir a' = (ag_data_dir a)\<lparr>dir_manifest := Some text, dir_log := log\<rparr>" and "loads text = Inr env"
  shows "create C name ownr kid (ag_data_dir a') fresh' =
    Inr \<lparr>ag_identity = ag_identity a, ag_keypair = ag_keypair a, ag_data_dir = ag_data_dir a',
      ag_manifest_envelope = Some env, ag_peers = (\<lambda>_. None)\<rparr>"
proof -
  obtain pem where pem: "dir_key (ag_data_dir a) = Some pem"
    using create_key(1) [OF assms(2)] by blast
  then have "from_pem C pem kid = Inr (ag_keypair a)"
    using create_key(7) [OF assms(2,1)] by simp
  then show ?thesis
    using pem assms(3,4) create_key(3) [OF assms(2)] by (simp add: create_def Let_def)
qed

definition published :: "agent \<Rightarrow> capability_arg list \<Rightarrow> string \<Rightarrow> string \<Rightarrow> manifest" where
  "published a caps version description =
     \<lparr>man_agent_id = ag_id a, man_version = version, man_capabilities = map capability_of caps, man_evidence = [],
      man_description = description, man_homepage = None\<rparr>"

definition normal_caps :: "capability_arg list \<Rightarrow> bool" where
  "normal_caps caps \<longleftrightarrow> (\<forall>c \<in> set caps. normal (JDict (cap_metadata (capability_of c))))"

lemma published_wf: "normal_caps caps \<Longrightarrow> wf_manifest (published a caps version description)"
  by (auto simp: wf_manifest_def published_def normal_caps_def)

lemma publish_manifest_eq:
  "publish_manifest C a caps version description =
     (let env = sign_manifest C (published a caps version description) (ag_keypair a)
      in (env, a\<lparr>ag_manifest_envelope := Some env,
           ag_data_dir := (ag_data_dir a)\<lparr>dir_manifest := Some (render_indent False 0 (sort_json env))\<rparr>\<rparr>))"
  by (simp add: publish_manifest_def published_def Let_def)

lemma sort_json_members:
  "sort_json (sign_manifest C m kp)
    = JDict [(''manifest'', sort_json (manifest_content m)), (''signature'', sort_json (sign_envelope C (manifest_content m) kp (man_agent_id m)))]"
  by (simp add: sign_manifest_def Let_def)

lemma restart_after_publish:
  assumes "pem_correct C" and "create C name ownr kid dir fresh = Inr a" and "normal_caps caps"
    and "publish_manifest C a caps version description = (env, a1)"
  shows "\<exists>a2. create C name ownr kid (ag_data_dir a1) fresh' = Inr a2
    \<and> ag_identity a2 = ag_identity a \<and> ag_keypair a2 = ag_keypair a \<and> ag_data_dir a2 = ag_data_dir a1
    \<and> ag_log a2 = ag_log a \<and> ag_peers a2 = (\<lambda>_. None) \<and> ag_manifest_envelope a2 = Some (sort_json env)
    \<and> own_manifest_content a2 = Inr (sort_json (manifest_content (published a caps version description)))"
proof -
  let ?m = "published a caps version description"
  have env: "env = sign_manifest C ?m (ag_keypair a)"
    and a1: "ag_data_dir a1 = (ag_data_dir a)\<lparr>dir_manifest := Some (render_indent False 0 (sort_json env)), dir_log := ag_log a\<rparr>"
    using assms(4) by (auto simp: publish_manifest_eq Let_def)
  have "loads (render_indent False 0 (sort_json env)) = Inr (sort_json env)"
    using loads_render_indent normal_sort_json sign_manifest_normal [OF published_wf [OF assms(3)]] env by blast
  from create_again [OF assms(1,2) a1 this, of fresh']
  show ?thesis
    by (auto simp: own_manifest_content_def env sort_json_members a1)
qed

text \<open>Nothing but the log of the data directory changed.\<close>

lemma create_log:
  assumes "create C name ownr kid dir fresh = Inr a" and "dir_key dir \<noteq> None"
  shows "create C name ownr kid (dir\<lparr>dir_log := log\<rparr>) fresh' = Inr (set_log log a)"
  using assms by (auto simp: create_def Let_def set_log_def split: option.splits)

lemma check_own_manifest_proper:
  assumes "ag_manifest_envelope a = Some env" and "own_manifest_content a = Inr content" and "proper_manifest content"
  shows "if \<forall>s \<in> set scope. \<exists>d \<in> set (declared_names content). covers d s
    then check_own_manifest a scope = Inr () else \<exists>msg. check_own_manifest a scope = Inl (Exn ATFError msg)"
proof -
  let ?f = "\<lambda>s. bind_res (manifest_has_capability content (JStr s)) (\<lambda>declared.
    if \<not> declared then raise ATFError (''cannot delegate '' @ str_repr s @ '': not in own manifest'') else Inr ())"
  have c: "check_own_manifest a scope = each_res ?f scope"
    using assms(1,2) by (simp add: check_own_manifest_def)
  have f: "?f s = (if \<exists>d \<in> set (declared_names content). covers d s then Inr ()
      else raise ATFError (''cannot delegate '' @ str_repr s @ '': not in own manifest''))" for s
    unfolding manifest_test.test_covers [OF assms(3)] bind_res_Inr by simp
  show ?thesis
  proof (cases "check_own_manifest a scope")
    case (Inl e)
    then obtain s where "s \<in> set scope" "?f s = Inl e"
      unfolding c using each_res_Inl by blast
    then show ?thesis
      using Inl unfolding f by (auto split: if_splits)
  next
    case (Inr u)
    then show ?thesis
      unfolding c each_res_Inr f by (auto split: if_splits)
  qed
qed

lemma published_names [simp]:
  "normal_caps (map CapName caps)"
  "map cap_name (man_capabilities (published a (map CapName caps) version description)) = caps"
  by (simp_all add: normal_caps_def published_def capability_of_def comp_def)

section \<open>Peers that published\<close>

lemma register_published:
  assumes "ed25519_correct C" and "wf_keypair C kp" and "man_agent_id m = i"
  shows "register_peer C a i None (Some (kp_public kp)) (sign_manifest C m kp) =
    (let p = \<lparr>pr_agent_id = i, pr_public_key = kp_public kp, pr_manifest_content = manifest_content m\<rparr>
     in Inr (p, a\<lparr>ag_peers := (ag_peers a)(i \<mapsto> p)\<rparr>))"
  using verify_sign_manifest [OF assms(1,2), of m] assms(3)
  by (simp add: register_peer_def manifest_content_def Let_def)

text \<open>A new agent on an empty directory that has published its capabilities.\<close>

lemma create_new:
  "create C name ownr kid \<lparr>dir_key = None, dir_manifest = None, dir_log = []\<rparr> fresh = Inr a \<longleftrightarrow>
    a = \<lparr>ag_identity = \<lparr>id_owner = ownr, id_name = name, id_keypair = generate C kid fresh, id_attestations = [],
            id_manifest_uri = None\<rparr>,
         ag_keypair = generate C kid fresh,
         ag_data_dir = \<lparr>dir_key = Some (private_pem C (generate C kid fresh)), dir_manifest = None, dir_log = []\<rparr>,
         ag_manifest_envelope = None, ag_peers = (\<lambda>_. None)\<rparr>"
  by (auto simp: create_def Let_def)

end
