(* ===== verification/Atf_Cli.thy ===== *)
theory Atf_Cli
  imports Atf_Setup
begin

text \<open>
  \<open>reference/py/src/atf/cli.py\<close>: the commands of the \<open>atf\<close> tool as functions from the contents of
  the data directory and the arguments to the contents afterwards and the text printed. The
  parameters each command declares, the choice of the directory and the exit status are in
  \<open>Atf_Tool\<close>; \<open>json.dumps\<close>, slices and format specifications
  are written out.
\<close>

section \<open>Identifiers\<close>

definition resolve :: "string \<Rightarrow> (string \<times> string) res" where
  "resolve agent_id_or_pair =
     (if prefix ''agent://'' agent_id_or_pair then
        bind_res (parse_agent_uri agent_id_or_pair) (\<lambda>(ownr, name, kid). Inr (ownr, name))
      else if CHR ''.'' \<notin> set agent_id_or_pair \<or> CHR ''/'' \<in> set agent_id_or_pair
      then raise UsageError ''agent identifier must be 'owner.name' or agent:// URI''
      else Inr (rsplit_once (CHR ''.'') agent_id_or_pair))"

section \<open>Commands on a local agent\<close>

text \<open>The directory once \<open>Agent.create\<close> has made sure there is a key, whatever fails later.\<close>

definition created_dir :: "crypto \<Rightarrow> string \<Rightarrow> data_dir \<Rightarrow> bytes \<Rightarrow> data_dir" where
  "created_dir C kid dir fresh =
     (case dir_key dir of
        Some pem \<Rightarrow> dir
      | None \<Rightarrow> dir\<lparr>dir_key := Some (private_pem C (generate C kid fresh))\<rparr>)"

definition with_agent ::
  "crypto \<Rightarrow> data_dir \<Rightarrow> string \<Rightarrow> bytes \<Rightarrow> (agent \<Rightarrow> data_dir \<times> 'a res) \<Rightarrow> data_dir \<times> 'a res"
where
  "with_agent C dir ident fresh f =
     (case resolve ident of
        Inl e \<Rightarrow> (dir, Inl e)
      | Inr (ownr, name) \<Rightarrow>
          (case create C name ownr ''1'' dir fresh of
             Inl e \<Rightarrow> (created_dir C ''1'' dir fresh, Inl e)
           | Inr a \<Rightarrow> f a))"

definition cli_init :: "crypto \<Rightarrow> data_dir \<Rightarrow> string \<Rightarrow> bytes \<Rightarrow> data_dir \<times> string res" where
  "cli_init C dir ident fresh =
     with_agent C dir ident fresh (\<lambda>a.
       (ag_data_dir a, Inr (render_indent True 0 (identity_document (ag_identity a)))))"

definition cli_publish :: "crypto \<Rightarrow> data_dir \<Rightarrow> string \<Rightarrow> string list \<Rightarrow> bytes \<Rightarrow> data_dir \<times> string res" where
  "cli_publish C dir ident caps fresh =
     with_agent C dir ident fresh (\<lambda>a.
       let (env, a') = publish_manifest C a (map CapName caps) ''0.1.0'' []
       in (ag_data_dir a', Inr (render_indent True 0 env)))"

definition cli_delegate ::
  "crypto \<Rightarrow> data_dir \<Rightarrow> string \<Rightarrow> string \<Rightarrow> string list \<Rightarrow> string \<Rightarrow> int \<Rightarrow> bytes \<Rightarrow> tick \<Rightarrow> tick
    \<Rightarrow> data_dir \<times> string res"
where
  "cli_delegate C dir ident delegatee scopes purpose expires_in fresh t1 t2 =
     with_agent C dir ident fresh (\<lambda>a.
       case issue_delegation C a delegatee scopes purpose None expires_in (snd t1) (fst t1) (fst t2) (snd t2) of
         Inl e \<Rightarrow> (ag_data_dir a, Inl e)
       | Inr (token, a') \<Rightarrow> (ag_data_dir a', Inr token))"

section \<open>Listing the audit log\<close>

text \<open>\<open>xs[-n:]\<close>\<close>

definition last_slice :: "int \<Rightarrow> 'a list \<Rightarrow> 'a list" where
  "last_slice n xs = (if 0 < n then drop (nat (int (length xs) - n)) xs else drop (nat (- n)) xs)"

text \<open>\<open>format(v, ">w")\<close> and \<open>format(v, "<w")\<close>; values without a format specification raise.\<close>

definition py_format :: "bool \<Rightarrow> nat \<Rightarrow> json \<Rightarrow> string res" where
  "py_format left w v =
     bind_res
       (case v of
          JStr s \<Rightarrow> Inr s
        | JInt i \<Rightarrow> Inr (int_str i)
        | JBool b \<Rightarrow> Inr (if b then ''1'' else ''0'')
        | JFloat s m e \<Rightarrow> Inr (float_repr s m e)
        | _ \<Rightarrow> raise TypeError ''unsupported format string passed to __format__'')
       (\<lambda>t. let pad = replicate (w - length t) (CHR '' '') in Inr (if left then t @ pad else pad @ t))"

definition py_len :: "json \<Rightarrow> nat res" where
  "py_len v =
     (case v of
        JStr s \<Rightarrow> Inr (length s)
      | JList xs \<Rightarrow> Inr (length xs)
      | JDict kvs \<Rightarrow> Inr (length kvs)
      | _ \<Rightarrow> raise TypeError ''object has no len()'')"

definition audit_line :: "json \<Rightarrow> string res" where
  "audit_line ev =
     bind_res (py_index ev ''content'') (\<lambda>c.
     bind_res (bind_res (py_index c ''ts'') (py_format False 10)) (\<lambda>ts.
     bind_res (bind_res (py_index c ''type'') (py_format True 30)) (\<lambda>ty.
     bind_res (bind_res (py_get c ''token_jti'') (py_format True 40)) (\<lambda>jti.
     bind_res (bind_res (py_index ev ''signatures'') py_len) (\<lambda>n.
       Inr (ts @ ''  '' @ ty @ ''  jti='' @ jti @ ''  sigs='' @ nat_str n))))))"

text \<open>A loop that prints a line for each element: what it printed, and the exception that ended it.\<close>

fun print_each :: "('a \<Rightarrow> string res) \<Rightarrow> 'a list \<Rightarrow> string list \<times> exn option" where
  "print_each f [] = ([], None)"
| "print_each f (x # xs) =
     (case f x of
        Inl e \<Rightarrow> ([], Some e)
      | Inr line \<Rightarrow> (let (ls, r) = print_each f xs in (line # ls, r)))"

definition audit_lines :: "audit_log \<Rightarrow> int \<Rightarrow> string list \<times> exn option" where
  "audit_lines log limit =
     (case all_events log of
        Inl e \<Rightarrow> ([], Some e)
      | Inr events \<Rightarrow> print_each audit_line (last_slice limit events))"

definition cli_audit_ls :: "crypto \<Rightarrow> data_dir \<Rightarrow> string \<Rightarrow> int \<Rightarrow> bytes \<Rightarrow> data_dir \<times> (string list \<times> exn option) res"
where
  "cli_audit_ls C dir ident limit fresh =
     with_agent C dir ident fresh (\<lambda>a. (ag_data_dir a, Inr (audit_lines (ag_log a) limit)))"

section \<open>Tokens\<close>

text \<open>\<open>v[0]\<close>\<close>

definition py_first :: "json \<Rightarrow> json res" where
  "py_first v =
     (case v of
        JList (x # _) \<Rightarrow> Inr x
      | JStr (c # _) \<Rightarrow> Inr (JStr [c])
      | JList [] \<Rightarrow> raise IndexError ''list index out of range''
      | JStr [] \<Rightarrow> raise IndexError ''string index out of range''
      | JDict _ \<Rightarrow> raise KeyError ''0''
      | _ \<Rightarrow> raise TypeError ''object is not subscriptable'')"

definition cli_verify :: "crypto \<Rightarrow> string \<Rightarrow> string \<Rightarrow> string \<Rightarrow> string \<Rightarrow> int \<Rightarrow> string res" where
  "cli_verify C token jwks_text expected_sub scope now =
     bind_res (loads jwks_text) (\<lambda>keyset.
     bind_res (bind_res (bind_res (py_index keyset ''keys'') py_first) (public_key_from_jwk C)) (\<lambda>pk.
     bind_res (verify_token C token pk expected_sub (Some scope) None now) (\<lambda>cl.
       Inr (render_indent True 0 (claims_dict cl)))))"

definition cli_decode :: "string \<Rightarrow> string list \<times> exn option" where
  "cli_decode token =
     (case split_on (CHR ''.'') token of
        [header_b, payload_b, _] \<Rightarrow>
          (case bind_res (b64url_decode header_b) loads_bytes of
             Inl e \<Rightarrow> ([''header:''], Some e)
           | Inr h \<Rightarrow>
               (case bind_res (b64url_decode payload_b) loads_bytes of
                  Inl e \<Rightarrow> ([''header:'', render_indent True 0 h, ''payload:''], Some e)
                | Inr p \<Rightarrow> ([''header:'', render_indent True 0 h, ''payload:'', render_indent True 0 p], None)))
      | _ \<Rightarrow> ([], Some (Exn ValueError ''wrong number of values to unpack (expected 3)'')))"

section \<open>Publishing and restarting\<close>

lemma cli_publish_cases:
  assumes "cli_publish C dir ident caps fresh = (dir1, Inr text)" and "resolve ident = Inr (ownr, name)"
  shows "\<exists>a env a1. create C name ownr ''1'' dir fresh = Inr a
    \<and> publish_manifest C a (map CapName caps) ''0.1.0'' [] = (env, a1) \<and> dir1 = ag_data_dir a1
    \<and> text = render_indent True 0 env"
  using assms by (auto simp: cli_publish_def with_agent_def split: sum.splits prod.splits)

lemma cli_verify_jwks:
  assumes "ed25519_correct C" and "wf_keypair C (id_keypair i)"
  shows "cli_verify C token (render b (jwks i)) expected scope now =
    bind_res (verify_token C token (kp_public (id_keypair i)) expected (Some scope) None now)
      (\<lambda>cl. Inr (render_indent True 0 (claims_dict cl)))"
  unfolding cli_verify_def loads_render [OF jwks_normal]
  using public_key_from_public_jwk [OF assms] by (simp add: jwks_def py_first_def)

section \<open>The listing\<close>

lemma last_slice_map: "last_slice n (map f xs) = map f (last_slice n xs)"
  by (simp add: last_slice_def drop_map)

lemma last_slice_set: "x \<in> set (last_slice n xs) \<Longrightarrow> x \<in> set xs"
  by (auto simp: last_slice_def dest: in_set_dropD split: if_splits)

lemma last_slice_length:
  "length (last_slice n xs) = (if 0 < n then min (nat n) (length xs) else length xs - nat (- n))"
  by (auto simp: last_slice_def)

lemma print_each_takeWhile:
  assumes "\<And>x. x \<in> set xs \<Longrightarrow> if P x then f x = Inr (g x) else f x = Inl e"
  shows "print_each f xs = (map g (takeWhile P xs), if \<forall>x \<in> set xs. P x then None else Some e)"
  using assms
proof (induction xs)
  case (Cons x xs)
  then have IH: "print_each f xs = (map g (takeWhile P xs), if \<forall>x \<in> set xs. P x then None else Some e)"
    by auto
  show ?case
  proof (cases "P x")
    case True
    then have "f x = Inr (g x)"
      using Cons.prems [of x] by simp
    with True IH show ?thesis by simp
  next
    case False
    then have "f x = Inl e"
      using Cons.prems [of x] by simp
    with False show ?thesis by simp
  qed
qed simp

lemma print_each_map: "print_each f (map h xs) = print_each (\<lambda>x. f (h x)) xs"
  by (induction xs) (simp_all split: sum.splits)

text \<open>What a stored value of a TEXT column does in a format specification: only NULL raises.\<close>

lemma py_format_bound:
  assumes "bind_text v = Inr t"
  shows "t = None \<Longrightarrow> py_format left w v = Inl (Exn TypeError ''unsupported format string passed to __format__'')"
    and "t \<noteq> None \<Longrightarrow> \<exists>x. py_format left w v = Inr x"
  using assms by (auto simp: py_format_def bind_text_def raise_def Let_def split: json.splits)

lemma py_format_int:
  "py_format False w (JInt i) = Inr (replicate (w - length (int_str i)) (CHR '' '') @ int_str i)"
  by (simp add: py_format_def)

lemma audit_line_stored:
  assumes "stored r c sigs"
  shows "row_token_jti r = None \<Longrightarrow>
      audit_line (audit_record c sigs) = Inl (Exn TypeError ''unsupported format string passed to __format__'')"
    and "row_token_jti r \<noteq> None \<Longrightarrow> \<exists>t. audit_line (audit_record c sigs) =
      Inr (replicate (10 - length (int_str (row_ts r))) (CHR '' '') @ int_str (row_ts r) @ ''  '' @ t
        @ ''  sigs='' @ nat_str (length sigs))"
proof -
  obtain kvs ty j where c: "c = JDict kvs" "map_of kvs ''ts'' = Some (JInt (row_ts r))"
      "map_of kvs ''type'' = Some ty" "bind_text ty = Inr (Some (row_type r))"
      "map_of kvs ''token_jti'' = Some j" "bind_text j = Inr (row_token_jti r)"
    using assms unfolding stored_def columns_def by blast
  obtain x where x: "py_format True 30 ty = Inr x"
    using py_format_bound(2) [OF c(4)] by blast
  have line: "audit_line (audit_record c sigs) = bind_res (py_format True 40 j) (\<lambda>jti.
      Inr ((replicate (10 - length (int_str (row_ts r))) (CHR '' '') @ int_str (row_ts r))
        @ ''  '' @ x @ ''  jti='' @ jti @ ''  sigs='' @ nat_str (length sigs)))"
    using c(1,2,3,5) x by (simp add: audit_line_def audit_record_def py_format_int py_len_def)
  show "row_token_jti r = None \<Longrightarrow>
      audit_line (audit_record c sigs) = Inl (Exn TypeError ''unsupported format string passed to __format__'')"
    using py_format_bound(1) [OF c(6)] unfolding line by simp
  assume "row_token_jti r \<noteq> None"
  then obtain y where "py_format True 40 j = Inr y"
    using py_format_bound(2) [OF c(6)] by blast
  then show "\<exists>t. audit_line (audit_record c sigs) =
      Inr (replicate (10 - length (int_str (row_ts r))) (CHR '' '') @ int_str (row_ts r) @ ''  '' @ t
        @ ''  sigs='' @ nat_str (length sigs))"
    unfolding line by (intro exI [of _ "x @ ''  jti='' @ y"]) simp
qed

section \<open>Properties\<close>

text \<open>The tool accepts exactly two forms of agent identifier: an agent URI, of which it drops the key
  id, and text without a slash that is split at its last dot. Everything else is refused, with
  \<open>IdentityError\<close> or \<open>UsageError\<close>.\<close>

theorem resolve_forms:
  "(resolve u = Inr (ownr, name) \<longleftrightarrow>
      (\<exists>kid. u = agent_uri ownr name kid \<and> CHR ''/'' \<notin> set ownr \<and> CHR ''#'' \<notin> set ownr \<and> CHR ''#'' \<notin> set name)
      \<or> u = ownr @ ''.'' @ name \<and> CHR ''.'' \<notin> set name \<and> CHR ''/'' \<notin> set u)
   \<and> ((\<exists>p. resolve u = Inr p) \<or> (\<exists>c \<in> {IdentityError, UsageError}. \<exists>m. resolve u = Inl (Exn c m)))"
proof (cases "prefix ''agent://'' u")
  case True
  then have slash: "CHR ''/'' \<in> set u"
    by (auto simp: prefix_def)
  have "resolve u = Inr (ownr, name) \<longleftrightarrow> (\<exists>kid. parse_agent_uri u = Inr (ownr, name, kid))"
    using True by (auto simp: resolve_def)
  also have "\<dots> \<longleftrightarrow> (\<exists>kid. u = agent_uri ownr name kid \<and> uri_parts_ok (ownr, name, kid))"
    using parse_agent_uri_sound [of u] parse_agent_uri_format by blast
  finally have "resolve u = Inr (ownr, name) \<longleftrightarrow> (\<exists>kid. u = agent_uri ownr name kid \<and> uri_parts_ok (ownr, name, kid))" .
  moreover have "(\<exists>p. resolve u = Inr p) \<or> (\<exists>m. resolve u = Inl (Exn IdentityError m))"
  proof (cases "parse_agent_uri u")
    case (Inl e)
    then show ?thesis
      using parse_agent_uri_error [OF Inl] True by (cases e) (simp add: resolve_def)
  qed (use True in \<open>auto simp: resolve_def\<close>)
  ultimately show ?thesis
    using slash by (auto simp: uri_parts_ok_def)
next
  case False
  then have no_uri: "u \<noteq> agent_uri ownr name kid" for kid
    by (auto simp: agent_uri_def prefix_def)
  have "(\<exists>p. resolve u = Inr p) \<or> (\<exists>m. resolve u = Inl (Exn UsageError m))"
    using False by (auto simp: resolve_def)
  moreover have "resolve u = Inr (ownr, name) \<longleftrightarrow>
      CHR ''.'' \<in> set u \<and> CHR ''/'' \<notin> set u \<and> rsplit_once (CHR ''.'') u = (ownr, name)"
    using False by (auto simp: resolve_def)
  moreover have "CHR ''.'' \<in> set u \<and> rsplit_once (CHR ''.'') u = (ownr, name)
      \<longleftrightarrow> u = ownr @ ''.'' @ name \<and> CHR ''.'' \<notin> set name"
    using rsplit_once_join [of "CHR ''.''" u ownr name] rsplit_once_append [of "CHR ''.''" name ownr] by auto
  ultimately show ?thesis
    using no_uri by auto
qed

text \<open>C40: \<open>atf audit ls\<close> on a log only the log's own operations wrote prints the last \<open>limit\<close> rows in the
  order of time stamps, one line each, with the time stamp and the number of signatures, as long as
  they name a token; at the first row without one (a peer can send such an event) the command dies
  with a \<open>TypeError\<close> and prints no more. A limit of zero lists the whole log, a negative one skips
  rows at the front.\<close>

theorem audit_listing:
  assumes "(log_step C)\<^sup>*\<^sup>* [] log" and "rows = last_slice limit (sort_key row_key_of log)"
  shows "length rows = (if 0 < limit then min (nat limit) (length log) else length log - nat (- limit))
    \<and> (\<exists>ls. audit_lines log limit = (ls, if \<forall>r \<in> set rows. row_token_jti r \<noteq> None then None
          else Some (Exn TypeError ''unsupported format string passed to __format__''))
      \<and> length ls = length (takeWhile (\<lambda>r. row_token_jti r \<noteq> None) rows)
      \<and> (\<forall>i < length ls. \<exists>c sigs t. stored (rows ! i) c sigs
          \<and> ls ! i = replicate (10 - length (int_str (row_ts (rows ! i)))) (CHR '' '') @ int_str (row_ts (rows ! i))
              @ ''  '' @ t @ ''  sigs='' @ nat_str (length sigs)))"
proof -
  let ?P = "\<lambda>r. row_token_jti r \<noteq> None"
  let ?g = "\<lambda>r. case audit_line (row_record r) of Inr l \<Rightarrow> l | Inl e \<Rightarrow> []"
  have wf: "wf_log log"
    by (rule log_steps_wf [OF assms(1) wf_log_Nil])
  have row: "\<exists>c sigs. stored r c sigs \<and> row_record r = audit_record c sigs" if "r \<in> set rows" for r
    using wf_log_stored [OF wf, of r] that last_slice_set row_record_stored unfolding assms(2) by fastforce
  let ?e = "Exn TypeError ''unsupported format string passed to __format__''"
  have line: "if ?P r then audit_line (row_record r) = Inr (?g r) else audit_line (row_record r) = Inl ?e"
    if "r \<in> set rows" for r
    using row [OF that] audit_line_stored by fastforce
  have "audit_lines log limit = print_each (\<lambda>r. audit_line (row_record r)) rows"
    unfolding audit_lines_def all_events_wf [OF wf] assms(2) by (simp add: last_slice_map print_each_map)
  also have "\<dots> = (map ?g (takeWhile ?P rows), if \<forall>r \<in> set rows. ?P r then None else Some ?e)"
    by (rule print_each_takeWhile) (rule line)
  finally have "audit_lines log limit = (map ?g (takeWhile ?P rows), if \<forall>r \<in> set rows. ?P r then None else Some ?e)" .
  moreover have "\<exists>c sigs t. stored (rows ! i) c sigs \<and> map ?g (takeWhile ?P rows) ! i
      = replicate (10 - length (int_str (row_ts (rows ! i)))) (CHR '' '') @ int_str (row_ts (rows ! i))
        @ ''  '' @ t @ ''  sigs='' @ nat_str (length sigs)"
    if "i < length (takeWhile ?P rows)" for i
  proof -
    have i: "takeWhile ?P rows ! i = rows ! i" "rows ! i \<in> set rows" "?P (rows ! i)"
      using that takeWhile_nth [OF that] nth_length_takeWhile set_takeWhileD [OF nth_mem [OF that]] by auto
    obtain c sigs where "stored (rows ! i) c sigs" "row_record (rows ! i) = audit_record c sigs"
      using row [OF i(2)] by blast
    then show ?thesis
      using audit_line_stored(2) [OF \<open>stored (rows ! i) c sigs\<close> i(3)] i(1) that
      by (intro exI [of _ c] exI [of _ sigs]) auto
  qed
  moreover have "length rows = (if 0 < limit then min (nat limit) (length log) else length log - nat (- limit))"
    by (simp add: assms(2) last_slice_length)
  ultimately show ?thesis
    by (intro conjI exI [of _ "map ?g (takeWhile ?P rows)"] allI impI) (simp_all only: length_map)
qed

lemma audit_listing_witness:
  "\<exists>r l. log_step toy_crypto [] [r] \<and> audit_lines [r] 1 = ([l], None)"
proof -
  obtain r kvs sigs where r: "log_step toy_crypto [] [r]" "stored r (JDict kvs) sigs"
      "map_of kvs ''token_jti'' = Some (JStr ''tkn_1'')"
    using toy_used_log by blast
  obtain j where "map_of kvs ''token_jti'' = Some j" "bind_text j = Inr (row_token_jti r)"
    using r(2) unfolding stored_def columns_def by blast
  with r(3) have "row_token_jti r = Some ''tkn_1''"
    by (simp add: bind_text_def)
  moreover have "last_slice 1 (sort_key row_key_of [r]) = [r]"
    by (simp add: last_slice_def)
  ultimately show ?thesis
    using audit_listing [OF r_into_rtranclp [of "log_step toy_crypto", OF r(1)] refl, of 1] r(1)
    by (auto simp: length_Suc_conv)
qed

text \<open>The agent the commands make after \<open>atf publish\<close>, and what \<open>atf delegate\<close> does with it.\<close>

lemma restart_published:
  assumes "pem_correct C" and "resolve ident = Inr (ownr, name)" and "cli_publish C dir ident caps fresh = (dir1, Inr text)"
  shows "\<exists>a env content. create C name ownr ''1'' dir1 fresh1 = Inr a \<and> ag_data_dir a = dir1 \<and> ag_log a = dir_log dir
    \<and> dir_key dir1 \<noteq> None \<and> id_keypair (ag_identity a) = ag_keypair a \<and> wf_keypair C (ag_keypair a)
    \<and> ag_manifest_envelope a = Some env \<and> own_manifest_content a = Inr content \<and> proper_manifest content
    \<and> declared_names content = caps"
proof -
  obtain a0 env a1 where pub: "create C name ownr ''1'' dir fresh = Inr a0"
      "publish_manifest C a0 (map CapName caps) ''0.1.0'' [] = (env, a1)" "dir1 = ag_data_dir a1"
    using cli_publish_cases [OF assms(3,2)] by blast
  obtain a where a: "create C name ownr ''1'' dir1 fresh1 = Inr a" "ag_data_dir a = dir1" "ag_log a = ag_log a0"
      "ag_manifest_envelope a = Some (sort_json env)"
      "own_manifest_content a = Inr (sort_json (manifest_content (published a0 (map CapName caps) ''0.1.0'' [])))"
    using restart_after_publish [OF assms(1) pub(1) published_names(1) pub(2), of fresh1] pub(3) by auto
  have "ag_log a = dir_log dir" "dir_key dir1 \<noteq> None" "id_keypair (ag_identity a) = ag_keypair a" "wf_keypair C (ag_keypair a)"
    using create_key(2) [OF pub(1)] create_key(1,3,4) [OF a(1)] a(2,3) by simp_all
  with a show ?thesis
    by (intro exI conjI) (assumption | simp)+
qed

lemma cli_delegate_eq:
  assumes "resolve ident = Inr (ownr, name)" and "create C name ownr ''1'' dir fresh = Inr a" and "ag_data_dir a = dir"
  shows "cli_delegate C dir ident to scopes purpose x fresh t1 t2 =
    (case issue_delegation C a to scopes purpose None x (snd t1) (fst t1) (fst t2) (snd t2) of
       Inl e \<Rightarrow> (dir, Inl e) | Inr (token, a') \<Rightarrow> (ag_data_dir a', Inr token))"
  using assms by (simp add: cli_delegate_def with_agent_def split: sum.split)

lemma cli_verify_issued:
  assumes "ed25519_correct C" and "wf_keypair C (id_keypair i)" and "s \<in> set scopes" and "covers s scope"
    and "t \<le> now" and "now < t + x"
  shows "cli_verify C (sign_compact C (claims_dict (issue_claims i to scopes purpose None x a t uuid)) (id_keypair i))
      (render b (jwks i)) to scope now
    = Inr (render_indent True 0 (claims_dict (sort_claims (issue_claims i to scopes purpose None x a t uuid))))"
proof -
  have "token_verdict (t + x) t to scopes to (Some scope) None now = None"
    using assms(3-6) by (auto simp: token_verdict_def)
  then show ?thesis
    using verify_issued [OF assms(1,2), where required = "Some scope" and manifest = None and constraints = None
        and i = i and d = to and scope = scopes and p = purpose and x = x and t = now and a = a and now = t and uuid = uuid]
      assms(3,4) by (auto simp: cli_verify_jwks [OF assms(1,2)] Let_def)
qed

text \<open>C18: The commands work together across restarts: after \<open>atf publish\<close>, \<open>atf delegate\<close> prints a
  token exactly when the published capabilities cover every scope it is asked for (\<open>ATFError\<close>
  otherwise), adds one row to the log and changes no other file; and \<open>atf verify\<close>, given the agent's
  own JWK set, accepts that token for the delegatee and any scope it covers until it expires, and
  prints its claims.\<close>

theorem cli_published_delegation:
  assumes "ed25519_correct C" and "pem_correct C" and "(log_step C)\<^sup>*\<^sup>* [] (dir_log dir)"
    and "resolve ident = Inr (ownr, name)" and "cli_publish C dir ident caps fresh = (dir1, Inr text)"
    and "0 < x" and "x \<le> MAX_TTL_SECONDS" and "tick_ok (dir_log dir) t2"
  shows "if \<forall>s \<in> set scopes. \<exists>c \<in> set caps. covers c s
    then \<exists>r token a cl. cli_delegate C dir1 ident to scopes purpose x fresh1 t1 t2
        = (dir1\<lparr>dir_log := dir_log dir @ [r]\<rparr>, Inr token)
      \<and> create C name ownr ''1'' (dir1\<lparr>dir_log := dir_log dir @ [r]\<rparr>) fresh2 = Inr a
      \<and> dc_iss cl = JStr (ag_id a) \<and> dc_sub cl = JStr to \<and> dc_scope cl = map JStr scopes \<and> dc_exp cl = snd t1 + x
      \<and> (\<forall>b s scope now. s \<in> set scopes \<and> covers s scope \<and> snd t1 \<le> now \<and> now < snd t1 + x \<longrightarrow>
          cli_verify C token (render b (jwks (ag_identity a))) to scope now = Inr (render_indent True 0 (claims_dict cl)))
    else \<exists>msg. cli_delegate C dir1 ident to scopes purpose x fresh1 t1 t2 = (dir1, Inl (Exn ATFError msg))"
proof -
  obtain a env content where a: "create C name ownr ''1'' dir1 fresh1 = Inr a" "ag_data_dir a = dir1" "ag_log a = dir_log dir"
      "dir_key dir1 \<noteq> None" "id_keypair (ag_identity a) = ag_keypair a" "wf_keypair C (ag_keypair a)"
      "ag_manifest_envelope a = Some env" "own_manifest_content a = Inr content" "proper_manifest content"
      "declared_names content = caps"
    using restart_published [OF assms(2,4,5), of fresh1] by blast
  note delegate = cli_delegate_eq [OF assms(4) a(1,2)]
    and own = check_own_manifest_proper [OF a(7-9), of scopes, unfolded a(10)]
  show ?thesis
  proof (cases "\<forall>s \<in> set scopes. \<exists>c \<in> set caps. covers c s")
    case False
    then have "\<exists>msg. check_own_manifest a scopes = Inl (Exn ATFError msg)"
      using own by (simp only: if_False)
    then show ?thesis
      unfolding delegate if_not_P [OF False] by (auto simp: issue_delegation_def)
  next
    case True
    let ?c = "issue_claims (ag_identity a) to scopes purpose None x (Some (''local://'' @ ag_id a)) (snd t1) (fst t1)"
    let ?token = "sign_compact C (claims_dict ?c) (ag_keypair a)"
    have check: "check_own_manifest a scopes = Inr ()"
      using own True by (simp only: if_True)
    have tick: "tick_ok (ag_log a) (fst t2, snd t2)" and wf: "wf_log (ag_log a)"
      using assms(8) log_steps_wf [OF assms(3) wf_log_Nil] a(3) by simp_all
    obtain r where "issue_delegation C a to scopes purpose None x (snd t1) (fst t1) (fst t2) (snd t2)
        = Inr (?token, set_log (dir_log dir @ [r]) a)"
      using issue_delegation_token [OF wf check assms(6,7) _ tick] a(3) by metis
    then have "cli_delegate C dir1 ident to scopes purpose x fresh1 t1 t2 = (dir1\<lparr>dir_log := dir_log dir @ [r]\<rparr>, Inr ?token)"
      unfolding delegate using a(2) by (simp add: set_log_def)
    moreover have "create C name ownr ''1'' (dir1\<lparr>dir_log := dir_log dir @ [r]\<rparr>) fresh2 = Inr (set_log (dir_log dir @ [r]) a)"
      by (rule create_log [OF a(1,4)])
    moreover note cli_verify_issued [OF assms(1), of "ag_identity a", unfolded a(5), OF a(6)]
    moreover have "dc_iss (sort_claims ?c) = JStr (ag_id a)" "dc_sub (sort_claims ?c) = JStr to"
      "dc_scope (sort_claims ?c) = map JStr scopes" "dc_exp (sort_claims ?c) = snd t1 + x"
      by (simp_all add: sort_claims_def ag_id_def)
    ultimately show ?thesis
      unfolding if_P [OF True]
      by (intro exI [of _ r] exI [of _ ?token] exI [of _ "set_log (dir_log dir @ [r]) a"] exI [of _ "sort_claims ?c"] conjI)
        (simp_all, blast?)
  qed
qed

lemma cli_published_delegation_witness:
  "\<exists>dir1 text dir2 token. cli_publish toy_crypto \<lparr>dir_key = None, dir_manifest = None, dir_log = []\<rparr> ''a.com.x'' [''code''] [7]
      = (dir1, Inr text)
    \<and> cli_delegate toy_crypto dir1 ''a.com.x'' ''b'' [''code.write''] ''p'' 60 [] (''0'', 100) (''1'', 100) = (dir2, Inr token)"
proof -
  let ?dir = "\<lparr>dir_key = None, dir_manifest = None, dir_log = []\<rparr>"
  have r: "resolve ''a.com.x'' = Inr (''a.com'', ''x'')"
    by (simp add: resolve_def rsplit_once_def)
  have p: "\<exists>dir1 text. cli_publish toy_crypto ?dir ''a.com.x'' [''code''] [7] = (dir1, Inr text)"
    by (simp add: cli_publish_def with_agent_def r create_def Let_def split: prod.split)
  then obtain dir1 "text" where "cli_publish toy_crypto ?dir ''a.com.x'' [''code''] [7] = (dir1, Inr text)"
    by blast
  moreover have "covers ''code'' ''code.write''"
    by (simp add: covers_def)
  moreover have "(60 :: int) \<le> MAX_TTL_SECONDS"
    by (simp add: MAX_TTL_SECONDS_def)
  ultimately show ?thesis
    using cli_published_delegation [OF toy_crypto_ok _ r, of ?dir "[''code'']" "[7]" dir1 _ 60 "(''1'', 100)"
        "[''code.write'']" "''b''" "''p''" "[]" "(''0'', 100)"] by (fastforce simp: toy_tick)
qed

end
