(* ===== verification/Atf_Demo.thy ===== *)
theory Atf_Demo
  imports Atf_Cli
begin

text \<open>
  \<open>reference/py/examples/coding_to_image/run.py\<close>, the repository's demonstration, as one run of the
  model: two new agents, their manifests and registrations, one delegation over the wire and the
  demo's assertions, up to the exit status. The HTTP server is the function \<open>invoke\<close>; the thread it
  runs in is seen through what the waiting loops ask it and through the fate of the request. Ports
  and printing are left out, except that the values printed are part of the result.
\<close>

section \<open>The image agent's handler\<close>

text \<open>\<open>v.replace(" ", "-")\<close>\<close>

definition replace_spaces :: "json \<Rightarrow> string res" where
  "replace_spaces v =
     (case v of
        JStr s \<Rightarrow> Inr (map (\<lambda>c. if c = CHR '' '' then CHR ''-'' else c) s)
      | _ \<Rightarrow> raise AttributeError ''object has no attribute 'replace' '')"

definition image_result :: "json \<Rightarrow> json res" where
  "image_result params =
     bind_res (py_get_or params ''prompt'' (JStr ''untitled'')) (\<lambda>prompt.
     bind_res (replace_spaces prompt) (\<lambda>p.
     bind_res (py_get_or params ''size'' (JStr ''1024x1024'')) (\<lambda>size.
       Inr (JDict [(''image_url'', JStr (''https://images.example.com/'' @ p @ ''.png'')), (''size'', size)]))))"

text \<open>The one class of exception it can raise.\<close>

definition image_handler :: "json \<Rightarrow> handler_result" where
  "image_handler params =
     (case image_result params of Inl e \<Rightarrow> Raised ''AttributeError'' (str_exn e) | Inr v \<Rightarrow> Returned v)"

definition image_spec :: handler_spec where
  "image_spec =
     \<lparr>hs_capability = ''image.generate'', hs_schema_id = ''image.generate.v1'', hs_handler = image_handler\<rparr>"

definition demo_handlers :: handlers where
  "demo_handlers = [''image.generate'' \<mapsto> image_spec]"

lemma image_spec_simps [simp]:
  "hs_capability image_spec = ''image.generate''" "hs_schema_id image_spec = ''image.generate.v1''"
  "hs_handler image_spec = image_handler" "demo_handlers ''image.generate'' = Some image_spec"
  by (simp_all add: image_spec_def demo_handlers_def)

section \<open>The run\<close>

definition new_dir :: data_dir where
  "new_dir = \<lparr>dir_key = None, dir_manifest = None, dir_log = []\<rparr>"

definition opt_json :: "json option \<Rightarrow> json" where
  "opt_json v = (case v of None \<Rightarrow> JNull | Some x \<Rightarrow> x)"

definition demo_setup :: "crypto \<Rightarrow> bytes \<Rightarrow> bytes \<Rightarrow> (agent \<times> agent) res" where
  "demo_setup C key_a key_b =
     bind_res (create C ''coding'' ''example.com'' ''1'' new_dir key_a) (\<lambda>a0.
     bind_res (create C ''image'' ''example.com'' ''1'' new_dir key_b) (\<lambda>b0.
       let a1 = snd (publish_manifest C a0 [CapName ''code.write'', CapName ''image.generate''] ''0.1.0'' []);
           b1 = snd (publish_manifest C b0 [CapName ''image.generate''] ''0.1.0'' [])
       in
         bind_res (register_peer C a1 (ag_id b1) None (Some (kp_public (ag_keypair b1)))
             (opt_json (ag_manifest_envelope b1))) (\<lambda>(_, a2).
         bind_res (register_peer C b1 (ag_id a2) None (Some (kp_public (ag_keypair a2)))
             (opt_json (ag_manifest_envelope a2))) (\<lambda>(_, b2). Inr (a2, b2)))))"

text \<open>\<open>for _ in range(n): if ready: break; await asyncio.sleep(0.05)\<close>: how often it sleeps, when the
  \<open>i\<close>-th look answers \<open>ready i\<close>.\<close>

definition poll :: "nat \<Rightarrow> (nat \<Rightarrow> bool) \<Rightarrow> nat" where
  "poll n ready = (case find ready [0..<n] of Some i \<Rightarrow> i | None \<Rightarrow> n)"

text \<open>\<open>record = log.get(event_id); assert record is not None; assert len(record["signatures"]) == 2\<close>\<close>

definition signed_record :: "audit_log \<Rightarrow> json \<Rightarrow> json res" where
  "signed_record log event_id =
     bind_res (get_event log event_id) (\<lambda>found.
       case found of
         None \<Rightarrow> raise AssertionError []
       | Some rcd \<Rightarrow>
           bind_res (bind_res (py_index rcd ''signatures'') py_len) (\<lambda>n.
             if n = 2 then Inr rcd else raise AssertionError []))"

text \<open>The two records must agree in content, and every signature on them must verify.\<close>

definition cross_check :: "crypto \<Rightarrow> agent \<Rightarrow> agent \<Rightarrow> json \<Rightarrow> json \<Rightarrow> unit res" where
  "cross_check C a b a_record b_record =
     bind_res (py_index a_record ''content'') (\<lambda>ca.
     bind_res (py_index b_record ''content'') (\<lambda>cb.
       if \<not> py_eq ca cb then raise AssertionError ''content mismatch!''
       else
         let keys = [ag_id a \<mapsto> kp_public (ag_keypair a), ag_id b \<mapsto> kp_public (ag_keypair b)] in
         bind_res (verify_record_signatures C a_record keys) (\<lambda>_.
           verify_record_signatures C b_record keys)))"

record demo_output =
  do_status :: json
  do_payload :: json
  do_events_a :: nat
  do_events_b :: nat

text \<open>Steps 7 to 10: status, payload, event id and the delegator's record.\<close>

definition delegator_side :: "agent \<Rightarrow> json \<Rightarrow> (json \<times> json \<times> json \<times> json) res" where
  "delegator_side a resp =
     bind_res (bind_res (py_index resp ''outcome'') (\<lambda>env. py_index env ''outcome'')) (\<lambda>content.
     bind_res (py_index content ''status'') (\<lambda>status.
     bind_res (py_index content ''payload'') (\<lambda>payload.
     bind_res (bind_res (bind_res (py_index resp ''audit_event'') (\<lambda>ae. py_index ae ''content''))
       (\<lambda>c. py_index c ''event_id'')) (\<lambda>event_id.
     bind_res (signed_record (ag_log a) event_id) (\<lambda>a_record. Inr (status, payload, event_id, a_record))))))"

text \<open>With the number of sleeps of step 11.\<close>

definition demo_report :: "crypto \<Rightarrow> agent \<Rightarrow> agent \<Rightarrow> json \<Rightarrow> nat \<times> demo_output res" where
  "demo_report C a b resp =
     (case delegator_side a resp of
        Inl e \<Rightarrow> (0, Inl e)
      | Inr (status, payload, event_id, a_record) \<Rightarrow>
          (poll 20 (\<lambda>_. pending_peer_count (ag_log b) = 0),
           bind_res (signed_record (ag_log b) event_id) (\<lambda>b_record.
           bind_res (cross_check C a b a_record b_record) (\<lambda>_.
           bind_res (all_events (ag_log a)) (\<lambda>events_a.
           bind_res (all_events (ag_log b)) (\<lambda>events_b.
             Inr \<lparr>do_status = status, do_payload = payload, do_events_a = length events_a,
               do_events_b = length events_b\<rparr>))))))"

text \<open>The body of the \<open>try\<close>; \<open>fate\<close> is what becomes of the request.\<close>

definition demo_call ::
  "crypto \<Rightarrow> (json \<Rightarrow> bytes) \<Rightarrow> fate \<Rightarrow> agent \<Rightarrow> agent \<Rightarrow> tick \<Rightarrow> tick \<Rightarrow> exchange_ticks \<Rightarrow> nat \<times> demo_output res"
where
  "demo_call C send fate a b t1 t2 ts =
     (case issue_delegation C a (ag_id b) [''image.generate''] ''blog post hero image''
         (Some [(''max_cost_usd'', JFloat False 5 (-1))]) 60 (snd t1) (fst t1) (fst t2) (snd t2) of
        Inl e \<Rightarrow> (0, Inl e)
      | Inr (token, a1) \<Rightarrow>
          (case lossy_invoke C send demo_handlers fate Arrives a1 b token
              (JDict [(''action'', JStr ''image.generate''), (''params'', JDict [(''prompt'', JStr ''sunset on mars'')])])
              (Some ''image.generate.v1'') (ag_id b) True ts of
             (a2, b2, Inl e) \<Rightarrow> (0, Inl e)
           | (a2, b2, Inr resp) \<Rightarrow> demo_report C a2 b2 resp))"

definition demo ::
  "crypto \<Rightarrow> (json \<Rightarrow> bytes) \<Rightarrow> bytes \<Rightarrow> bytes \<Rightarrow> tick \<Rightarrow> tick \<Rightarrow> exchange_ticks \<Rightarrow> demo_output res"
where
  "demo C send key_a key_b t1 t2 ts =
     bind_res (demo_setup C key_a key_b) (\<lambda>(a, b). snd (demo_call C send Arrives a b t1 t2 ts))"

text \<open>Exit status and number of sleeps: the wait for the server, the \<open>try\<close>, and the wait for its thread
  in the \<open>finally\<close>.\<close>

definition demo_main ::
  "crypto \<Rightarrow> (json \<Rightarrow> bytes) \<Rightarrow> (nat \<Rightarrow> bool) \<Rightarrow> (nat \<Rightarrow> bool) \<Rightarrow> fate \<Rightarrow> bytes \<Rightarrow> bytes \<Rightarrow> tick \<Rightarrow> tick
    \<Rightarrow> exchange_ticks \<Rightarrow> nat \<times> nat"
where
  "demo_main C send started alive fate key_a key_b t1 t2 ts =
     (case demo_setup C key_a key_b of
        Inl e \<Rightarrow> (1, 0)
      | Inr (a, b) \<Rightarrow>
          (let waited = poll 50 started;
               (slept, out) = demo_call C send fate a b t1 t2 ts;
               joined = poll 20 (\<lambda>i. \<not> alive i)
           in (case out of Inl e \<Rightarrow> 1 | Inr _ \<Rightarrow> 0, waited + slept + joined)))"

section \<open>The demo's steps succeed\<close>

definition new_agent :: "crypto \<Rightarrow> string \<Rightarrow> bytes \<Rightarrow> agent" where
  "new_agent C name key =
     \<lparr>ag_identity = \<lparr>id_owner = ''example.com'', id_name = name, id_keypair = generate C ''1'' key, id_attestations = [],
        id_manifest_uri = None\<rparr>,
      ag_keypair = generate C ''1'' key,
      ag_data_dir = \<lparr>dir_key = Some (private_pem C (generate C ''1'' key)), dir_manifest = None, dir_log = []\<rparr>,
      ag_manifest_envelope = None, ag_peers = (\<lambda>_. None)\<rparr>"

lemma create_new_agent: "create C name ''example.com'' ''1'' new_dir key = Inr (new_agent C name key)"
  unfolding new_dir_def create_new new_agent_def ..

definition after_publish :: "crypto \<Rightarrow> string \<Rightarrow> bytes \<Rightarrow> string list \<Rightarrow> agent" where
  "after_publish C name key caps = snd (publish_manifest C (new_agent C name key) (map CapName caps) ''0.1.0'' [])"

definition demo_manifest :: "crypto \<Rightarrow> string \<Rightarrow> bytes \<Rightarrow> string list \<Rightarrow> manifest" where
  "demo_manifest C name key caps =
     \<lparr>man_agent_id = ag_id (after_publish C name key caps), man_version = ''0.1.0'',
      man_capabilities = map (\<lambda>n. \<lparr>cap_name = n, cap_description = [], cap_metadata = []\<rparr>) caps, man_evidence = [],
      man_description = [], man_homepage = None\<rparr>"

lemma after_publish_simps:
  "ag_id (after_publish C name key caps) = agent_uri ''example.com'' name ''1''"
  "wf_keypair C (ag_keypair (after_publish C name key caps))"
  "ag_log (after_publish C name key caps) = []"
  "ag_manifest_envelope (after_publish C name key caps)
     = Some (sign_manifest C (demo_manifest C name key caps) (ag_keypair (after_publish C name key caps)))"
proof -
  have n: "ag_id (new_agent C name key) = agent_uri ''example.com'' name ''1''"
    by (simp add: new_agent_def ag_id_def agent_id_def generate_wf(2))
  show i: "ag_id (after_publish C name key caps) = agent_uri ''example.com'' name ''1''"
    using n by (simp add: after_publish_def publish_manifest_eq Let_def ag_id_def)
  show "wf_keypair C (ag_keypair (after_publish C name key caps))" "ag_log (after_publish C name key caps) = []"
    by (simp_all add: after_publish_def new_agent_def publish_manifest_eq Let_def generate_wf)
  have "published (new_agent C name key) (map CapName caps) ''0.1.0'' [] = demo_manifest C name key caps"
    by (simp add: published_def demo_manifest_def capability_of_def comp_def n i)
  then show "ag_manifest_envelope (after_publish C name key caps)
     = Some (sign_manifest C (demo_manifest C name key caps) (ag_keypair (after_publish C name key caps)))"
    by (simp add: after_publish_def publish_manifest_eq Let_def)
qed

lemma demo_setup_ok:
  assumes "ed25519_correct C"
  shows "\<exists>a b pa pb env. demo_setup C key_a key_b = Inr (a, b)
    \<and> wf_keypair C (ag_keypair a) \<and> wf_keypair C (ag_keypair b) \<and> ag_id a \<noteq> ag_id b \<and> ag_log a = [] \<and> ag_log b = []
    \<and> ag_peers b (ag_id a) = Some pa \<and> pr_public_key pa = kp_public (ag_keypair a)
    \<and> ag_peers a (ag_id b) = Some pb \<and> pr_public_key pb = kp_public (ag_keypair b)
    \<and> ag_manifest_envelope a = Some env \<and> own_manifest_content a = Inr (pr_manifest_content pa)
    \<and> proper_manifest (pr_manifest_content pa)
    \<and> declared_names (pr_manifest_content pa) = [''code.write'', ''image.generate'']"
proof -
  let ?caps = "[''code.write'', ''image.generate'']"
  let ?a = "after_publish C ''coding'' key_a ?caps" and ?b = "after_publish C ''image'' key_b [''image.generate'']"
  let ?ma = "demo_manifest C ''coding'' key_a ?caps" and ?mb = "demo_manifest C ''image'' key_b [''image.generate'']"
  define pb where "pb = \<lparr>pr_agent_id = ag_id ?b, pr_public_key = kp_public (ag_keypair ?b), pr_manifest_content = manifest_content ?mb\<rparr>"
  define pa where "pa = \<lparr>pr_agent_id = ag_id ?a, pr_public_key = kp_public (ag_keypair ?a), pr_manifest_content = manifest_content ?ma\<rparr>"
  let ?a2 = "?a\<lparr>ag_peers := (ag_peers ?a)(ag_id ?b \<mapsto> pb)\<rparr>" and ?b2 = "?b\<lparr>ag_peers := (ag_peers ?b)(ag_id ?a \<mapsto> pa)\<rparr>"
  have ids: "ag_id ?a2 = ag_id ?a" "ag_id ?b2 = ag_id ?b" "man_agent_id ?ma = ag_id ?a" "man_agent_id ?mb = ag_id ?b"
    by (simp_all add: ag_id_def demo_manifest_def)
  have "register_peer C ?a (ag_id ?b) None (Some (kp_public (ag_keypair ?b))) (opt_json (ag_manifest_envelope ?b)) = Inr (pb, ?a2)"
    using register_published [OF assms after_publish_simps(2) ids(4), of ?a] by (simp add: after_publish_simps(4) opt_json_def pb_def Let_def)
  moreover have "register_peer C ?b (ag_id ?a2) None (Some (kp_public (ag_keypair ?a2))) (opt_json (ag_manifest_envelope ?a2)) = Inr (pa, ?b2)"
    using register_published [OF assms after_publish_simps(2) ids(3), of ?b] ids(1)
    by (simp add: after_publish_simps(4) opt_json_def pa_def Let_def)
  ultimately have made: "demo_setup C key_a key_b = Inr (?a2, ?b2)"
    unfolding after_publish_def by (simp add: demo_setup_def create_new_agent Let_def)
  have own: "own_manifest_content ?a2 = Inr (manifest_content ?ma)"
    by (simp add: own_manifest_content_def after_publish_simps(4) sign_manifest_def Let_def)
  have peers: "ag_peers ?b2 (ag_id ?a2) = Some pa" "ag_peers ?a2 (ag_id ?b2) = Some pb"
    using ids by simp_all
  have diff: "ag_id ?a2 \<noteq> ag_id ?b2"
    unfolding ids by (simp add: after_publish_simps(1) agent_uri_def)
  have names: "declared_names (manifest_content ?ma) = ?caps"
    by (simp add: demo_manifest_def)
  show ?thesis
    by (intro exI [of _ ?a2] exI [of _ ?b2] exI [of _ pa] exI [of _ pb]
        exI [of _ "sign_manifest C ?ma (ag_keypair ?a)"] conjI; (rule made peers diff)?)
      (use own names in \<open>simp_all add: after_publish_simps(2-4) pa_def pb_def\<close>)
qed

lemma image_result_error: "image_result params = Inl e \<Longrightarrow> exn_cls e = AttributeError"
  by (auto simp: image_result_def bind_res_eq_Inl py_get_or_def replace_spaces_def split: json.splits)

lemma py_get_or_normal: "py_get_or d k v = Inr w \<Longrightarrow> normal d \<Longrightarrow> normal v \<Longrightarrow> normal w"
  by (cases d) (auto simp: py_get_or_def simp del: normal.simps intro: normal_member split: option.splits)

lemma image_result_normal:
  assumes "image_result params = Inr v" and "normal params"
  shows "normal v"
proof -
  obtain p size where "py_get_or params ''size'' (JStr ''1024x1024'') = Inr size"
      and v: "v = JDict [(''image_url'', JStr (''https://images.example.com/'' @ p @ ''.png'')), (''size'', size)]"
    using assms(1) by (auto simp: image_result_def bind_res_eq_Inr)
  then have "normal size"
    using py_get_or_normal assms(2) by fastforce
  then show ?thesis
    by (simp add: v)
qed

lemma demo_handlers_normal: "normal_handlers demo_handlers"
  by (auto simp: normal_handlers_def demo_handlers_def normal_result_def image_handler_def image_result_normal
      split: sum.splits if_splits)

lemma sunset:
  "image_handler (JDict [(''prompt'', JStr ''sunset on mars'')]) = Returned (JDict
     [(''image_url'', JStr ''https://images.example.com/sunset-on-mars.png''), (''size'', JStr ''1024x1024'')])"
  by (simp add: image_handler_def image_result_def py_get_or_def replace_spaces_def)

lemma signed_record_two:
  "get_event log eid = Inr (Some (audit_record c [sa, sb])) \<Longrightarrow> signed_record log eid = Inr (audit_record c [sa, sb])"
  by (simp add: signed_record_def audit_record_def py_len_def)

lemma all_events_length: "wf_log log \<Longrightarrow> \<exists>es. all_events log = Inr es \<and> length es = length log"
  by (simp add: all_events_wf)

lemma poll_now: "ready 0 \<Longrightarrow> 0 < n \<Longrightarrow> poll n ready = 0"
  by (cases n) (simp_all add: poll_def upt_conv_Cons del: upt_Suc)

lemma poll_le: "poll n ready \<le> n"
  by (auto simp: poll_def find_Some_iff less_imp_le split: option.split)

lemma demo_report_ok:
  assumes "wf_log (ag_log a)" and "wf_log (ag_log b)"
    and "get_event (ag_log a) (JStr eid) = Inr (Some (audit_record c [sa, sb]))"
    and "get_event (ag_log b) (JStr eid) = Inr (Some (audit_record c [sb, sa]))"
    and "\<forall>sigs \<in> {[sa, sb], [sb, sa]}. verify_record_signatures C (audit_record c sigs)
         [ag_id a \<mapsto> kp_public (ag_keypair a), ag_id b \<mapsto> kp_public (ag_keypair b)] = Inr ()"
    and "handler_outcome result = Inr (status, payload, reason)" and "ev_event_id ev = JStr eid"
    and "pending_peer_count (ag_log b) = 0"
  shows "demo_report C a b (invoke_reply rid (run_outcome C b1 r result now) ev sig)
    = (0, Inr \<lparr>do_status = JStr status, do_payload = payload, do_events_a = length (ag_log a),
        do_events_b = length (ag_log b)\<rparr>)"
proof -
  let ?resp = "invoke_reply rid (run_outcome C b1 r result now) ev sig"
  have out: "\<exists>content. bind_res (py_index ?resp ''outcome'') (\<lambda>env. py_index env ''outcome'') = Inr content
      \<and> py_index content ''status'' = Inr (JStr status) \<and> py_index content ''payload'' = Inr payload"
    by (simp add: invoke_reply_def run_outcome_def assms(6) make_outcome_def sign_outcome_def outcome_content_def Let_def)
  have ev: "bind_res (bind_res (py_index ?resp ''audit_event'') (\<lambda>ae. py_index ae ''content''))
      (\<lambda>c. py_index c ''event_id'') = Inr (JStr eid)"
    by (simp add: invoke_reply_def event_content_def assms(7))
  have "cross_check C a b (audit_record c [sa, sb]) (audit_record c [sb, sa]) = Inr ()"
    using assms(5) by (simp add: cross_check_def audit_record_def)
  moreover note all_events_length [OF assms(1)] all_events_length [OF assms(2)]
  moreover have "delegator_side a ?resp = Inr (JStr status, payload, JStr eid, audit_record c [sa, sb])"
    using out unfolding delegator_side_def ev by (auto simp: signed_record_two [OF assms(3)])
  ultimately show ?thesis
    unfolding demo_report_def by (auto simp: signed_record_two [OF assms(4)] assms(8) poll_now)
qed

lemma demo_token:
  assumes "wf_log (ag_log a)" and "check_own_manifest a scope = Inr ()" and "0 < x" and "x \<le> MAX_TTL_SECONDS"
    and "normal (JDict constraints)" and "tick_ok (ag_log a) t2"
  shows "\<exists>token r. issue_delegation C a to scope purpose (Some constraints) x now uuid (fst t2) (snd t2)
      = Inr (token, set_log (ag_log a @ [r]) a) \<and> row_event_id r = Some (''evt_'' @ fst t2)"
  using issue_delegation_ok [OF assms(1-4), of "Some constraints" "fst t2" "snd t2"] assms(5,6) by auto

definition demo_payload :: "(string \<times> json) list" where
  "demo_payload =
     [(''action'', JStr ''image.generate''), (''params'', JDict [(''prompt'', JStr ''sunset on mars'')])]"

lemma demo_payload_simps:
  "normal (JDict demo_payload)" "map_of demo_payload ''action'' = Some (JStr ''image.generate'')"
  "map_of demo_payload ''params'' = Some (JDict [(''prompt'', JStr ''sunset on mars'')])"
  by (simp_all add: demo_payload_def)

lemma demo_exchange:
  assumes "ed25519_correct C" and "faithful send"
    and "wf_keypair C (ag_keypair a)" and "wf_keypair C (ag_keypair b)" and "ag_id a \<noteq> ag_id b"
    and "wf_log (ag_log a)" and "wf_log (ag_log b)"
    and "ag_peers b (ag_id a) = Some pa" and "pr_public_key pa = kp_public (ag_keypair a)"
    and "ag_peers a (ag_id b) = Some pb" and "pr_public_key pb = kp_public (ag_keypair b)"
    and "verify_delegation C b token (hs_capability image_spec) (fst (xt_verify ts)) (snd (xt_verify ts)) = (b, Inr cl)"
    and "tick_ok (ag_log b) (xt_started ts)" and "tick_ok (ag_log b) (xt_completed ts)"
    and "fst (xt_completed ts) \<noteq> fst (xt_started ts)" and "tick_ok (ag_log a) (xt_completed ts)"
    and "pending_peer_count (ag_log b) = 0"
  shows "\<exists>a2 b2 resp. client_invoke C send demo_handlers a b token (JDict demo_payload) (Some ''image.generate.v1'') (ag_id b) True ts
      = (a2, b2, Inr resp)
    \<and> demo_report C a2 b2 resp = (0, Inr \<lparr>do_status = JStr ''ok'', do_payload = JDict
        [(''image_url'', JStr ''https://images.example.com/sunset-on-mars.png''), (''size'', JStr ''1024x1024'')],
        do_events_a = Suc (length (ag_log a)), do_events_b = Suc (Suc (length (ag_log b)))\<rparr>)"
proof -
  have expected: "Some ''image.generate.v1'' \<in> {None, Some (hs_schema_id image_spec)}"
    by simp
  obtain a2 b2 resp c sa sb r b1 where e:
      "client_invoke C send demo_handlers a b token (JDict demo_payload) (Some ''image.generate.v1'') (ag_id b) True ts
        = (a2, b2, Inr resp)"
      "get_event (ag_log a2) (JStr (''evt_'' @ fst (xt_completed ts))) = Inr (Some (audit_record c [sa, sb]))"
      "get_event (ag_log b2) (JStr (''evt_'' @ fst (xt_completed ts))) = Inr (Some (audit_record c [sb, sa]))"
      "\<forall>sigs \<in> {[sa, sb], [sb, sa]}. verify_record_signatures C (audit_record c sigs)
         [ag_id a \<mapsto> kp_public (ag_keypair a), ag_id b \<mapsto> kp_public (ag_keypair b)] = Inr ()"
      "resp = invoke_reply (run_request_id r) (run_outcome C b1 r (hs_handler image_spec (run_params r)) (xt_outcome ts))
         (run_event r (hs_handler image_spec (run_params r)) (xt_completed ts)) sb"
      "run_params r = or_empty (case map_of demo_payload ''params'' of None \<Rightarrow> JNull | Some v \<Rightarrow> v)"
      "length (ag_log a2) = Suc (length (ag_log a))" "length (ag_log b2) = Suc (Suc (length (ag_log b)))"
      "wf_log (ag_log a2)" "wf_log (ag_log b2)"
      "ag_id a2 = ag_id a" "ag_keypair a2 = ag_keypair a" "ag_id b2 = ag_id b" "ag_keypair b2 = ag_keypair b"
      "pending_peer_count (ag_log b2) = 0"
    using exchange_runs [where hs = demo_handlers, OF assms(1,2) demo_handlers_normal assms(3-12) demo_payload_simps(1,2) _
        image_spec_simps(4) expected assms(13-16)] assms(17) by auto
  have "run_params r = JDict [(''prompt'', JStr ''sunset on mars'')]"
    using e(6) by (simp add: or_empty_def demo_payload_simps)
  then have o: "handler_outcome (hs_handler image_spec (run_params r)) = Inr (''ok'', JDict
      [(''image_url'', JStr ''https://images.example.com/sunset-on-mars.png''), (''size'', JStr ''1024x1024'')], None)"
    by (simp add: sunset handler_outcome_def)
  have "demo_report C a2 b2 resp = (0, Inr \<lparr>do_status = JStr ''ok'', do_payload = JDict
      [(''image_url'', JStr ''https://images.example.com/sunset-on-mars.png''), (''size'', JStr ''1024x1024'')],
      do_events_a = length (ag_log a2), do_events_b = length (ag_log b2)\<rparr>)"
    unfolding e(5) by (rule demo_report_ok [OF e(9,10,2,3) _ o run_event_simps(1) e(15)]) (use e(4,11-14) in simp)
  then show ?thesis
    using e(1,7,8) by (intro exI [of _ a2] exI [of _ b2] exI [of _ resp]) simp
qed

lemma demo_runs:
  assumes "ed25519_correct C" and "faithful send" and "snd t1 \<le> snd (xt_verify ts)" and "snd (xt_verify ts) < snd t1 + 60"
    and "tick_ok [] t2" and "tick_ok [] (xt_started ts)" and "tick_ok [] (xt_completed ts)"
    and "fst (xt_completed ts) \<noteq> fst t2" and "fst (xt_completed ts) \<noteq> fst (xt_started ts)"
  shows "\<exists>a b. demo_setup C key_a key_b = Inr (a, b)
    \<and> demo_call C send Arrives a b t1 t2 ts = (0, Inr \<lparr>do_status = JStr ''ok'',
        do_payload = JDict [(''image_url'', JStr ''https://images.example.com/sunset-on-mars.png''), (''size'', JStr ''1024x1024'')],
        do_events_a = 2, do_events_b = 2\<rparr>)"
proof -
  let ?cs = "[(''max_cost_usd'', JFloat False 5 (-1))]" and ?scope = "[''image.generate'']"
  let ?params = "JDict [(''prompt'', JStr ''sunset on mars'')]"
  obtain a b env and pa pb :: peer_record where s: "demo_setup C key_a key_b = Inr (a, b)" "wf_keypair C (ag_keypair a)" "wf_keypair C (ag_keypair b)"
      "ag_id a \<noteq> ag_id b" "ag_log a = []" "ag_log b = []" "ag_peers b (ag_id a) = Some pa" "pr_public_key pa = kp_public (ag_keypair a)"
      "ag_peers a (ag_id b) = Some pb" "pr_public_key pb = kp_public (ag_keypair b)" "ag_manifest_envelope a = Some env"
      "own_manifest_content a = Inr (pr_manifest_content pa)" "proper_manifest (pr_manifest_content pa)"
      "declared_names (pr_manifest_content pa) = [''code.write'', ''image.generate'']"
    using demo_setup_ok [OF assms(1), of key_a key_b] by blast
  have check: "check_own_manifest a ?scope = Inr ()"
    using check_own_manifest_proper [OF s(11,12,13), of ?scope] s(14) by simp
  have wf: "wf_log (ag_log a)" "wf_log (ag_log b)" and x: "(60 :: int) \<le> MAX_TTL_SECONDS" and tick: "tick_ok (ag_log a) t2"
    using s(5,6) assms(5) by (simp_all add: MAX_TTL_SECONDS_def)
  obtain token row where tok: "issue_delegation C a (ag_id b) ?scope ''blog post hero image'' (Some ?cs) 60 (snd t1) (fst t1) (fst t2) (snd t2)
      = Inr (token, set_log [row] a)" "row_event_id row = Some (''evt_'' @ fst t2)"
    using demo_token [OF wf(1) check _ x _ tick, of ?cs C "ag_id b" "''blog post hero image''" "snd t1" "fst t1"] s(5) by auto
  let ?a1 = "set_log [row] a"
  have "\<not> log_uses (ag_log b) (JStr (''tkn_'' @ fst t1))"
    by (simp add: log_uses_def s(6))
  then obtain cl where v: "verify_delegation C b token (hs_capability image_spec) (fst (xt_verify ts)) (snd (xt_verify ts)) = (b, Inr cl)"
    using issued_delegation_accepted [OF assms(1) s(2) _ tok(1) _ s(7,8,13,11,12) _ assms(3,4), of "''image.generate''" "hs_capability image_spec"]
      s(6) by auto
  have ticks: "tick_ok (ag_log b) (xt_started ts)" "tick_ok (ag_log b) (xt_completed ts)" "tick_ok (ag_log ?a1) (xt_completed ts)"
    using assms(6,7,8) tok(2) s(6) by (simp_all add: tick_ok_def)
  have wf1: "wf_log (ag_log ?a1)"
    using issue_delegation_step(1) [OF tok(1)] log_step_wf wf(1) by blast
  have "ag_id ?a1 = ag_id a" "ag_keypair ?a1 = ag_keypair a" "ag_peers ?a1 = ag_peers a"
    by simp_all
  note x = demo_exchange [where a = ?a1, unfolded this, OF assms(1,2) s(2,3,4) wf1 wf(2) s(7,8,9,10) v ticks(1,2) assms(9) ticks(3)]
  have "pending_peer_count (ag_log b) = 0"
    by (simp add: pending_peer_count_def s(6))
  from x [OF this] show ?thesis
    using s(1,6) by (auto simp: demo_call_def tok(1) demo_payload_def client_invoke_def intro!: exI [of _ a] exI [of _ b])
qed

section \<open>Properties\<close>

text \<open>C2: The demonstration succeeds with every correct Ed25519 and every transport that carries JSON:
  whatever the two keys, the identifiers and the clock, as long as the three event identifiers
  differ and the token is used within its minute, every assertion holds, the outcome printed is
  the image's address, and each log ends with two events, the last one with both signatures.\<close>

theorem demo_succeeds:
  assumes "ed25519_correct C" and "faithful send" and "snd t1 \<le> snd (xt_verify ts)" and "snd (xt_verify ts) < snd t1 + 60"
    and "tick_ok [] t2" and "tick_ok [] (xt_started ts)" and "tick_ok [] (xt_completed ts)"
    and "fst (xt_completed ts) \<noteq> fst t2" and "fst (xt_completed ts) \<noteq> fst (xt_started ts)"
  shows "demo C send key_a key_b t1 t2 ts = Inr \<lparr>do_status = JStr ''ok'',
    do_payload = JDict [(''image_url'', JStr ''https://images.example.com/sunset-on-mars.png''), (''size'', JStr ''1024x1024'')],
    do_events_a = 2, do_events_b = 2\<rparr>"
  using demo_runs [OF assms, of key_a key_b] by (auto simp: demo_def)

lemma demo_succeeds_witness:
  "demo toy_crypto (\<lambda>v. utf8_encode (render True v)) [1] [2] (''0'', 100) (''1'', 100)
      \<lparr>xt_verify = (''2'', 130), xt_started = (''3'', 130), xt_outcome = 131, xt_completed = (''4'', 132), xt_client = (''5'', 133)\<rparr>
    = Inr \<lparr>do_status = JStr ''ok'',
    do_payload = JDict [(''image_url'', JStr ''https://images.example.com/sunset-on-mars.png''), (''size'', JStr ''1024x1024'')],
    do_events_a = 2, do_events_b = 2\<rparr>"
  by (rule demo_succeeds [OF toy_crypto_ok(1) faithful_render]) (simp_all add: toy_tick)

lemma demo_call_lost:
  assumes "fate \<noteq> Arrives"
  shows "fst (demo_call C send fate a b t1 t2 ts) = 0 \<and> (\<exists>e. snd (demo_call C send fate a b t1 t2 ts) = Inl e)"
proof (cases fate)
  case RequestLost
  then show ?thesis
    by (simp add: demo_call_def lossy_invoke_def transport_error_def raise_def split: sum.split prod.split)
next
  case ReplyLost
  then show ?thesis
    by (simp add: demo_call_def lossy_invoke_def transport_error_def raise_def split: sum.split prod.split)
qed (use assms in simp)

text \<open>The demonstration ends, after at most 3.5 seconds of waiting, and its exit status is 0 exactly when
  the request reaches the server and the reply comes back. The wait for the server does not decide
  it: after 50 looks the demonstration goes on whether or not the server has started.\<close>

theorem demo_exit_status:
  assumes "ed25519_correct C" and "faithful send" and "snd t1 \<le> snd (xt_verify ts)" and "snd (xt_verify ts) < snd t1 + 60"
    and "tick_ok [] t2" and "tick_ok [] (xt_started ts)" and "tick_ok [] (xt_completed ts)"
    and "fst (xt_completed ts) \<noteq> fst t2" and "fst (xt_completed ts) \<noteq> fst (xt_started ts)"
  shows "\<exists>n. demo_main C send started alive fate key_a key_b t1 t2 ts = (if fate = Arrives then 0 else 1, n) \<and> n \<le> 70
    \<and> ((\<forall>i. \<not> started i) \<longrightarrow> 50 \<le> n)"
proof -
  obtain a b where d: "demo_setup C key_a key_b = Inr (a, b)" "fst (demo_call C send Arrives a b t1 t2 ts) = 0"
      "\<exists>out. snd (demo_call C send Arrives a b t1 t2 ts) = Inr out"
    using demo_runs [OF assms, of key_a key_b] by auto
  let ?call = "demo_call C send fate a b t1 t2 ts" and ?join = "poll 20 (\<lambda>i. \<not> alive i)"
  have c: "fst ?call = 0" "(case snd ?call of Inl e \<Rightarrow> 1 | Inr _ \<Rightarrow> 0) = (if fate = Arrives then 0 else (1 :: nat))"
    using d(2,3) demo_call_lost [of fate C send a b t1 t2 ts] by (cases "fate = Arrives"; force)+
  have "demo_main C send started alive fate key_a key_b t1 t2 ts = (if fate = Arrives then 0 else 1, poll 50 started + ?join)"
    using c unfolding demo_main_def d(1) sum.case prod.case Let_def split_beta by simp
  moreover have "poll 50 started + ?join \<le> 70"
    using poll_le [of 50 started] poll_le [of 20 "\<lambda>i. \<not> alive i"] by simp
  moreover have "poll 50 started = 50" if "\<forall>i. \<not> started i"
  proof -
    have "find started [0..<50] = None"
      using that by (simp add: find_None_iff)
    then show ?thesis
      by (simp add: poll_def)
  qed
  ultimately show ?thesis
    by (intro exI conjI) auto
qed

lemma demo_exit_status_witness:
  "\<exists>n. demo_main toy_crypto (\<lambda>v. utf8_encode (render True v)) (\<lambda>_. False) (\<lambda>_. False) RequestLost [1] [2] (''0'', 100) (''1'', 100)
      \<lparr>xt_verify = (''2'', 130), xt_started = (''3'', 130), xt_outcome = 131, xt_completed = (''4'', 132), xt_client = (''5'', 133)\<rparr>
    = (1, n) \<and> 50 \<le> n"
proof -
  let ?ts = "\<lparr>xt_verify = (''2'', 130), xt_started = (''3'', 130), xt_outcome = 131, xt_completed = (''4'', 132), xt_client = (''5'', 133)\<rparr>"
  have t: "snd (''0'', 100) \<le> snd (xt_verify ?ts)" "snd (xt_verify ?ts) < snd (''0'', 100) + 60" "tick_ok [] (''1'', 100)"
      "tick_ok [] (xt_started ?ts)" "tick_ok [] (xt_completed ?ts)" "fst (xt_completed ?ts) \<noteq> fst (''1'', 100 :: int)"
      "fst (xt_completed ?ts) \<noteq> fst (xt_started ?ts)"
    by (simp_all add: toy_tick)
  show ?thesis
    using demo_exit_status [where started = "\<lambda>_. False" and alive = "\<lambda>_. False" and fate = RequestLost and key_a = "[1]" and key_b = "[2]",
        OF toy_crypto_ok(1) faithful_render [of True] t]
    by (elim exE conjE) (intro exI conjI, simp_all)
qed

end
