(* ===== verification/Atf_Concurrent.thy ===== *)
theory Atf_Concurrent
  imports Atf_Audit_Claims "HOL-Library.Multiset"
begin

text \<open>
  Several processes on one \<open>audit.sqlite\<close>: a server and the command line, or two server workers.
  \<open>_insert\<close> reads the latest hash over one connection and inserts over another; \<open>finalize_pending\<close>
  selects the row before the transaction of its \<open>UPDATE\<close> begins. Between the two another process
  may write. An operation is therefore a \<open>task\<close>, begun on one state of the table and finished on
  another, and a run is any interleaving of beginnings and ends.
\<close>

section \<open>Connections and transactions\<close>

text \<open>\<open>CREATE TABLE IF NOT EXISTS\<close>\<close>

definition open_log :: "audit_log option \<Rightarrow> audit_log" where
  "open_log file = (case file of None \<Rightarrow> [] | Some log \<Rightarrow> log)"

text \<open>\<open>with self._conn() as c\<close>: what the body wrote is committed unless it raises.\<close>

definition with_conn :: "audit_log \<Rightarrow> (audit_log \<Rightarrow> ('a \<times> audit_log) res) \<Rightarrow> 'a res \<times> audit_log" where
  "with_conn log body = (case body log of Inl e \<Rightarrow> (Inl e, log) | Inr (x, log') \<Rightarrow> (Inr x, log'))"

section \<open>Operations in two halves\<close>

datatype task =
    Insertion audit_event json bool string string
  | Cosigning json json bytes row

text \<open>\<open>prev = self.latest_hash(); chain = _chain_hash(prev, record)\<close>\<close>

definition begin_insert :: "audit_log \<Rightarrow> audit_event \<Rightarrow> json \<Rightarrow> bool \<Rightarrow> task res" where
  "begin_insert log ev record pending =
     (let prev = latest_hash log in
      bind_res (chain_hash prev record) (\<lambda>chain. Inr (Insertion ev record pending prev chain)))"

text \<open>The \<open>SELECT\<close> of \<open>finalize_pending\<close>\<close>

definition begin_cosign :: "audit_log \<Rightarrow> json \<Rightarrow> json \<Rightarrow> bytes \<Rightarrow> task res" where
  "begin_cosign log event_id sig pk =
     bind_res (row_by_id log event_id) (\<lambda>row.
       case row of
         None \<Rightarrow> raise AuditError (''event '' @ py_repr event_id @ '' not found'')
       | Some r \<Rightarrow> Inr (Cosigning event_id sig pk r))"

definition finish_task :: "crypto \<Rightarrow> audit_log \<Rightarrow> task \<Rightarrow> json res \<times> audit_log" where
  "finish_task C log t =
     with_conn log (\<lambda>log.
       case t of
         Insertion ev record pending prev chain \<Rightarrow>
           bind_res (store_row log ev record pending prev chain) (\<lambda>log'. Inr (record, log'))
       | Cosigning event_id sig pk r \<Rightarrow>
           bind_res (countersign C event_id r sig pk) (\<lambda>record'.
             Inr (record', update_row log (row_event_id r) (dumps True record'))))"

text \<open>Without another process in between the two halves are the operation.\<close>

lemma insert_event_tasks:
  "bind_res (begin_insert log ev record pending) (\<lambda>t. fst (finish_task C log t)) =
     bind_res (insert_event log ev record pending) (\<lambda>_. Inr record)"
  "begin_insert log ev record pending = Inr t \<Longrightarrow>
     snd (finish_task C log t) = (case insert_event log ev record pending of Inl e \<Rightarrow> log | Inr log' \<Rightarrow> log')"
  by (auto simp: begin_insert_def finish_task_def with_conn_def insert_event_def Let_def bind_res_def
      split: sum.splits)

lemma finalize_pending_tasks:
  "finalize_pending C log eid sig pk =
     bind_res (begin_cosign log eid sig pk) (\<lambda>t.
       case finish_task C log t of (Inl e, log') \<Rightarrow> Inl e | (Inr record, log') \<Rightarrow> Inr (record, log'))"
  by (auto simp: begin_cosign_def finish_task_def with_conn_def finalize_pending_def bind_res_def raise_def
      split: sum.splits option.splits)

section \<open>Interleaved runs\<close>

text \<open>The records the three appending operations make.\<close>

definition submits :: "crypto \<Rightarrow> audit_event \<Rightarrow> json \<Rightarrow> bool \<Rightarrow> bool" where
  "submits C ev record pending \<longleftrightarrow> normal_event ev \<and>
     ((\<exists>kp signer. record = audit_record (event_content ev) [sign_envelope C (event_content ev) kp signer] \<and> \<not> pending)
      \<or> (\<exists>sig. record = audit_record (event_content ev) [sig] \<and> normal sig \<and> pending)
      \<or> (\<exists>mine peer pk. record = audit_record (event_content ev) [mine, peer] \<and> normal mine \<and> normal peer
           \<and> envelope_ok C pk peer (canonical_json (event_content ev)) \<and> \<not> pending))"

definition begins :: "crypto \<Rightarrow> audit_log \<Rightarrow> task \<Rightarrow> bool" where
  "begins C log t \<longleftrightarrow>
     (\<exists>ev record pending. submits C ev record pending \<and> begin_insert log ev record pending = Inr t)
     \<or> (\<exists>eid sig pk. normal sig \<and> begin_cosign log eid sig pk = Inr t)"

inductive shared_step :: "crypto \<Rightarrow> audit_log \<times> task list \<Rightarrow> audit_log \<times> task list \<Rightarrow> bool" for C where
  began: "begins C log t \<Longrightarrow> shared_step C (log, ts) (log, t # ts)"
| ended: "t \<in> set ts \<Longrightarrow> finish_task C log t = (res, log') \<Longrightarrow> shared_step C (log, ts) (log', remove1 t ts)"

inductive_cases shared_stepE: "shared_step C (log, ts) s"

lemma submits_record:
  assumes "submits C ev record pending"
  shows "normal_event ev \<and> (\<exists>sigs. record = audit_record (event_content ev) sigs \<and> (\<forall>s \<in> set sigs. normal s))"
  using assms unfolding submits_def by (elim conjE disjE exE) (fastforce intro: sign_envelope_normal)+

lemma begin_insert_Inr:
  "begin_insert log ev record pending = Inr t \<longleftrightarrow>
     (\<exists>chain. chain_hash (latest_hash log) record = Inr chain \<and> t = Insertion ev record pending (latest_hash log) chain)"
  by (auto simp: begin_insert_def Let_def)

lemma begin_cosign_Inr:
  "begin_cosign log eid sig pk = Inr t \<longleftrightarrow> (\<exists>r. row_by_id log eid = Inr (Some r) \<and> t = Cosigning eid sig pk r)"
  by (auto simp: begin_cosign_def split: option.splits)

lemma finish_insertion:
  "finish_task C log (Insertion ev record pending prev chain) = (res, log') \<longleftrightarrow>
     (\<exists>r. stores log ev record pending prev chain r \<and> res = Inr record \<and> log' = log @ [r])
     \<or> (\<exists>e. store_row log ev record pending prev chain = Inl e \<and> res = Inl e \<and> log' = log)"
  using store_row_Inr [of log ev "record" pending prev chain]
  by (cases "store_row log ev record pending prev chain") (auto simp: finish_task_def with_conn_def)

lemma finish_cosigning:
  "finish_task C log (Cosigning eid sig pk r) = (res, log') \<longleftrightarrow>
     (\<exists>record'. countersign C eid r sig pk = Inr record' \<and> res = Inr record'
        \<and> log' = update_row log (row_event_id r) (dumps True record'))
     \<or> (\<exists>e. countersign C eid r sig pk = Inl e \<and> res = Inl e \<and> log' = log)"
  by (cases "countersign C eid r sig pk") (auto simp: finish_task_def with_conn_def)

section \<open>The invariant of a shared log\<close>

text \<open>Rows that one operation of the log may turn into each other: only the signatures and the
  pending mark differ.\<close>

definition same_event :: "row \<Rightarrow> row \<Rightarrow> bool" where
  "same_event r r' \<longleftrightarrow> wf_row r \<and> wf_row r'
     \<and> (\<exists>t p. r' = r\<lparr>row_record_json := t, row_pending := p\<rparr>)
     \<and> (\<exists>c sigs sigs'. stored r c sigs \<and> stored r' c sigs')"

definition hashes :: "audit_log \<Rightarrow> string set" where
  "hashes log = insert GENESIS_HASH (row_chain_hash ` set log)"

definition closed_log :: "audit_log \<Rightarrow> bool" where
  "closed_log log \<longleftrightarrow> wf_log log \<and> row_prev_hash ` set log \<subseteq> hashes log"

definition task_ok :: "audit_log \<Rightarrow> task \<Rightarrow> bool" where
  "task_ok log t = (case t of
     Insertion ev rec pending prev chain \<Rightarrow>
       normal_event ev \<and> chain_hash prev rec = Inr chain \<and> prev \<in> hashes log
       \<and> (\<exists>sigs. rec = audit_record (event_content ev) sigs \<and> (\<forall>s \<in> set sigs. normal s))
   | Cosigning eid sig pk r \<Rightarrow> normal sig \<and> row_event_id r \<noteq> None \<and> (\<exists>q \<in> set log. same_event r q))"

lemma same_event_refl: "wf_row r \<Longrightarrow> same_event r r"
  unfolding same_event_def wf_row_def by (auto intro!: exI [of _ "row_record_json r"] exI [of _ "row_pending r"])

lemma same_event_columns:
  assumes "same_event r r'"
  shows "row_event_id r' = row_event_id r" "row_prev_hash r' = row_prev_hash r" "row_chain_hash r' = row_chain_hash r"
  using assms by (auto simp: same_event_def)

lemma same_event_trans:
  assumes "same_event a b" and "same_event b d"
  shows "same_event a d"
proof -
  obtain c sigs sigs' where "stored a c sigs" "stored b c sigs'"
    using assms(1) by (auto simp: same_event_def)
  moreover obtain c2 sigs2 sigs3 where "stored b c2 sigs2" "stored d c2 sigs3"
    using assms(2) by (auto simp: same_event_def)
  ultimately have "\<exists>c sigs sigs'. stored a c sigs \<and> stored d c sigs'"
    using stored_unique by blast
  moreover obtain t p t' p' where "b = a\<lparr>row_record_json := t, row_pending := p\<rparr>"
      "d = b\<lparr>row_record_json := t', row_pending := p'\<rparr>"
    using assms by (auto simp only: same_event_def)
  then have "d = a\<lparr>row_record_json := t', row_pending := p'\<rparr>"
    by simp
  then have "\<exists>t p. d = a\<lparr>row_record_json := t, row_pending := p\<rparr>"
    by blast
  ultimately show ?thesis
    using assms by (simp add: same_event_def)
qed

lemma same_event_update:
  assumes "same_event r q" and "countersign C eid r sig pk = Inr rec'" and "normal sig"
  shows "same_event q (q\<lparr>row_record_json := dumps True rec', row_pending := False\<rparr>)"
proof -
  obtain c sigs m where s: "stored r c sigs" "commits r c sigs m" "length (row_prev_hash r) = 71"
    using assms(1) by (auto simp: same_event_def wf_row_def)
  obtain extra where e: "extra \<in> {[], [sig]}" "rec' = audit_record c (sigs @ extra)"
    using countersign_Inr [OF s(1) assms(2)] by blast
  let ?r = "r\<lparr>row_record_json := dumps True rec', row_pending := False\<rparr>"
  have r: "stored ?r c (sigs @ map sort_json extra)" "\<exists>m. commits ?r c (sigs @ map sort_json extra) m"
    unfolding e(2) using finalized_row [OF s(1) e(1) assms(3) refl] s(2) by blast+
  have eq: "q\<lparr>row_record_json := dumps True rec', row_pending := False\<rparr> = ?r"
    using assms(1) by (auto simp: same_event_def)
  have "wf_row ?r"
    using r s(3) by (auto simp: wf_row_def)
  moreover obtain sigs' where "stored q c sigs'" "wf_row q"
    using assms(1) stored_unique [OF s(1)] by (auto simp: same_event_def)
  moreover have "\<exists>t p. q\<lparr>row_record_json := dumps True rec', row_pending := False\<rparr>
      = q\<lparr>row_record_json := t, row_pending := p\<rparr>"
    by blast
  ultimately show ?thesis
    unfolding same_event_def eq using r(1) by metis
qed

text \<open>What every step keeps of the rows: all of them, at their place.\<close>

definition rows_kept :: "audit_log \<Rightarrow> audit_log \<Rightarrow> bool" where
  "rows_kept log log' \<longleftrightarrow> length log \<le> length log' \<and> (\<forall>i < length log. same_event (log ! i) (log' ! i))"

lemma rows_kept_refl: "wf_log log \<Longrightarrow> rows_kept log log"
  by (simp add: rows_kept_def wf_log_def same_event_refl)

lemma rows_kept_trans: "rows_kept a b \<Longrightarrow> rows_kept b d \<Longrightarrow> rows_kept a d"
  by (force simp: rows_kept_def intro: same_event_trans)

lemma rows_kept_append: "wf_log log \<Longrightarrow> rows_kept log (log @ [r])"
  by (simp add: rows_kept_def nth_append wf_log_def same_event_refl)

lemma rows_kept_update:
  assumes "wf_log (xs @ q # ys)" and "same_event q q'"
  shows "rows_kept (xs @ q # ys) (xs @ q' # ys)"
  using assms by (auto simp: rows_kept_def nth_append nth_Cons' wf_log_def same_event_refl)

lemma rows_kept_member: "rows_kept log log' \<Longrightarrow> r \<in> set log \<Longrightarrow> \<exists>r' \<in> set log'. same_event r r'"
  unfolding rows_kept_def by (metis in_set_conv_nth nth_mem order_less_le_trans)

lemma rows_kept_hashes: "rows_kept log log' \<Longrightarrow> hashes log \<subseteq> hashes log'"
  unfolding hashes_def
proof (intro insert_mono subsetI)
  fix h
  assume kept: "rows_kept log log'" and "h \<in> row_chain_hash ` set log"
  then obtain r where r: "r \<in> set log" "h = row_chain_hash r"
    by blast
  obtain r' where "r' \<in> set log'" "same_event r r'"
    using rows_kept_member [OF kept r(1)] by blast
  then show "h \<in> row_chain_hash ` set log'"
    using same_event_columns(3) r(2) by (metis image_eqI)
qed

lemma rows_kept_task:
  assumes "rows_kept log log'" and "task_ok log t"
  shows "task_ok log' t"
proof (cases t)
  case (Insertion ev rec pending prev chain)
  then show ?thesis
    using assms(2) rows_kept_hashes [OF assms(1)] by (auto simp: task_ok_def)
next
  case (Cosigning eid sig pk r)
  then obtain q where "q \<in> set log" "same_event r q" "normal sig" "row_event_id r \<noteq> None"
    using assms(2) by (auto simp: task_ok_def)
  then show ?thesis
    using rows_kept_member [OF assms(1)] same_event_trans Cosigning by (fastforce simp: task_ok_def)
qed

lemma latest_in_hashes: "latest_hash log \<in> hashes log"
  using latest_row [of log] by (cases "log = []") (auto simp: hashes_def)

lemma hashes_length: "wf_log log \<Longrightarrow> h \<in> hashes log \<Longrightarrow> length h = 71"
  by (auto simp: hashes_def wf_log_def dest!: wf_row_chain)

lemma begins_task_ok:
  assumes "begins C log t" and "wf_log log"
  shows "task_ok log t"
  using assms(1) unfolding begins_def
proof (elim disjE exE conjE)
  fix ev rec pending
  assume "submits C ev rec pending" "begin_insert log ev rec pending = Inr t"
  then show "task_ok log t"
    using latest_in_hashes submits_record by (auto simp: begin_insert_Inr task_ok_def)
next
  fix eid sig pk
  assume sig: "normal sig" and "begin_cosign log eid sig pk = Inr t"
  then obtain r where r: "row_by_id log eid = Inr (Some r)" "t = Cosigning eid sig pk r"
    by (auto simp: begin_cosign_Inr)
  then show "task_ok log t"
    using row_by_id_split [OF assms(2) r(1)] sig assms(2)
    by (auto simp: task_ok_def only_row_def wf_log_def same_event_refl)
qed

lemma finish_task_ok:
  assumes "finish_task C log t = (res, log')" and "task_ok log t" and "closed_log log"
  shows "closed_log log' \<and> rows_kept log log'"
proof -
  have wf: "wf_log log"
    using assms(3) by (simp add: closed_log_def)
  consider "log' = log"
    | (ins) ev rec pending prev chain r where "t = Insertion ev rec pending prev chain"
        "stores log ev rec pending prev chain r" "log' = log @ [r]"
    | (cos) eid sig pk r rec' where "t = Cosigning eid sig pk r" "countersign C eid r sig pk = Inr rec'"
        "log' = update_row log (row_event_id r) (dumps True rec')"
    using assms(1) by (cases t) (auto simp: finish_insertion finish_cosigning)
  then show ?thesis
  proof cases
    case 1
    then show ?thesis
      using assms(3) wf by (simp add: rows_kept_refl)
  next
    case ins
    then obtain sigs where ok: "rec = audit_record (event_content ev) sigs" "\<forall>s \<in> set sigs. normal s"
        "normal_event ev" "chain_hash prev rec = Inr chain" "prev \<in> hashes log"
      using assms(2) by (auto simp: task_ok_def)
    then have "wf_row r"
      using stores_wf_row ins(2) hashes_length [OF wf] by blast
    moreover have "row_prev_hash r = prev" "row_event_id r = None \<or> row_event_id r \<notin> row_event_id ` set log"
      using ins(2) by (auto simp: stores_def)
    ultimately have "closed_log (log @ [r])"
      using assms(3) ok(5) by (auto simp: closed_log_def wf_log_def row_ids_def hashes_def)
    then show ?thesis
      using ins(3) wf by (simp add: rows_kept_append)
  next
    case cos
    then obtain q where q: "q \<in> set log" "same_event r q" "normal sig" "row_event_id r \<noteq> None"
      using assms(2) by (auto simp: task_ok_def)
    then obtain xs ys where log: "log = xs @ q # ys"
      by (meson split_list)
    let ?q = "q\<lparr>row_record_json := dumps True rec', row_pending := False\<rparr>"
    have id: "row_event_id q = row_event_id r"
      using same_event_columns(1) [OF q(2)] .
    then have "only_row xs q ys"
      using wf q(4) unfolding log by (intro wf_log_only_row) auto
    then have log': "log' = xs @ ?q # ys"
      using update_row_split cos(3) id unfolding log by metis
    have same: "same_event q ?q"
      using same_event_update [OF q(2) cos(2) q(3)] .
    then have "closed_log log'"
      using assms(3) unfolding log log'
      by (auto simp: closed_log_def wf_log_def row_ids_def hashes_def same_event_def)
    then show ?thesis
      using rows_kept_update same wf unfolding log log' by blast
  qed
qed

lemma shared_step_ok:
  assumes "shared_step C (log, ts) (log', ts')" and "closed_log log" and "\<forall>t \<in> set ts. task_ok log t"
  shows "closed_log log' \<and> rows_kept log log' \<and> (\<forall>t \<in> set ts'. task_ok log' t)"
  using assms(1)
proof (cases rule: shared_step.cases)
  case (began t)
  then show ?thesis
    using assms(2,3) begins_task_ok rows_kept_refl by (auto simp: closed_log_def)
next
  case (ended t res)
  then have "closed_log log' \<and> rows_kept log log'"
    using finish_task_ok assms(2,3) by blast
  then show ?thesis
    using ended assms(3) rows_kept_task by (metis notin_set_remove1)
qed

lemma shared_steps_ok:
  assumes "(shared_step C)\<^sup>*\<^sup>* s s'" and "closed_log (fst s)" and "\<forall>t \<in> set (snd s). task_ok (fst s) t"
  shows "closed_log (fst s') \<and> rows_kept (fst s) (fst s') \<and> (\<forall>t \<in> set (snd s'). task_ok (fst s') t)"
  using assms(1)
proof (induction rule: rtranclp_induct)
  case base
  then show ?case
    using assms(2,3) by (simp add: closed_log_def rows_kept_refl)
next
  case (step s2 s3)
  then show ?case
    using shared_step_ok [of C "fst s2" "snd s2" "fst s3" "snd s3"] rows_kept_trans by fastforce
qed

lemma closed_log_Nil [simp]: "closed_log []"
  by (simp add: closed_log_def)

lemma closed_rows:
  assumes "closed_log log"
  shows "\<forall>r \<in> set log. \<exists>c sigs m. loads (row_record_json r) = Inr (audit_record c sigs) \<and> columns r c
    \<and> commits r c sigs m"
proof
  fix r
  assume "r \<in> set log"
  then obtain c sigs m where "stored r c sigs" "commits r c sigs m"
    using assms by (auto simp: closed_log_def wf_log_def wf_row_def)
  then show "\<exists>c sigs m. loads (row_record_json r) = Inr (audit_record c sigs) \<and> columns r c \<and> commits r c sigs m"
    using loads_stored by (auto simp: stored_def)
qed

section \<open>One process at a time\<close>

text \<open>A task that ends before another begins is one call of an operation, and every call is such a task.\<close>

lemma task_is_log_step:
  assumes "begins C log t" and "finish_task C log t = (res, log')"
  shows "log' = log \<or> log_step C log log'"
  using assms(1) unfolding begins_def
proof (elim disjE exE conjE)
  fix ev rec pending
  assume s: "submits C ev rec pending" and b: "begin_insert log ev rec pending = Inr t"
  consider "log' = log" | "insert_event log ev rec pending = Inr log'"
    using insert_event_tasks(2) [OF b, of C] assms(2) by (auto split: sum.splits)
  then show ?thesis
  proof cases
    case 2
    then show ?thesis
      using s unfolding submits_def
      by (auto intro: log_step.self log_step.pending log_step.finalized simp: append_Inr insert_event_Inr)
  qed simp
next
  fix eid sig pk
  assume sig: "normal sig" and "begin_cosign log eid sig pk = Inr t"
  then obtain r where r: "row_by_id log eid = Inr (Some r)" "t = Cosigning eid sig pk r"
    by (auto simp: begin_cosign_Inr)
  show ?thesis
  proof (cases res)
    case (Inr rec)
    then have "finalize_pending C log eid sig pk = Inr (rec, log')"
      using assms(2) r by (auto simp: finish_cosigning finalize_pending_def)
    then show ?thesis
      using sig log_step.cosigned by blast
  qed (use assms(2) r in \<open>simp add: finish_cosigning\<close>)
qed

lemma insertion_is_task:
  assumes "submits C ev rec pending" and "inserts log ev rec pending r"
  shows "\<exists>t res. begins C log t \<and> finish_task C log t = (res, log @ [r])"
proof -
  have "begin_insert log ev rec pending = Inr (Insertion ev rec pending (latest_hash log) (row_chain_hash r))"
    using assms(2) by (simp add: begin_insert_Inr inserts_stores)
  moreover have "finish_task C log (Insertion ev rec pending (latest_hash log) (row_chain_hash r)) = (Inr rec, log @ [r])"
    using assms(2) by (auto simp: finish_insertion inserts_stores)
  ultimately show ?thesis
    using assms(1) unfolding begins_def by blast
qed

lemma log_step_is_task:
  assumes "log_step C log log'"
  shows "\<exists>t res. begins C log t \<and> finish_task C log t = (res, log')"
proof -
  consider (ins) ev rec pending r where "submits C ev rec pending" "inserts log ev rec pending r" "log' = log @ [r]"
    | (cos) eid sig pk rec where "finalize_pending C log eid sig pk = Inr (rec, log')" "normal sig"
  proof -
    have "(\<exists>ev rec pending r. submits C ev rec pending \<and> inserts log ev rec pending r \<and> log' = log @ [r])
        \<or> (\<exists>eid sig pk rec. finalize_pending C log eid sig pk = Inr (rec, log') \<and> normal sig)"
      using assms
    proof cases
      case (self ev kp signer rec)
      then have "submits C ev rec False" "\<exists>r. inserts log ev rec False r \<and> log' = log @ [r]"
        by (auto simp: append_self_Inr submits_def)
      then show ?thesis by blast
    next
      case (pending ev sig rec)
      then have "submits C ev rec True" "\<exists>r. inserts log ev rec True r \<and> log' = log @ [r]"
        by (auto simp: append_pending_Inr submits_def)
      then show ?thesis by blast
    next
      case (finalized ev mine peer pk rec)
      then have "submits C ev rec False" "\<exists>r. inserts log ev rec False r \<and> log' = log @ [r]"
        by (auto simp: append_finalized_Inr submits_def)
      then show ?thesis by blast
    next
      case (cosigned eid sig pk rec)
      then show ?thesis by blast
    qed
    then show ?thesis
      using that by blast
  qed
  then show ?thesis
  proof cases
    case ins
    then show ?thesis
      using insertion_is_task by blast
  next
    case cos
    then obtain r where "begin_cosign log eid sig pk = Inr (Cosigning eid sig pk r)"
        "finish_task C log (Cosigning eid sig pk r) = (Inr rec, log')"
      by (auto simp: finalize_pending_def begin_cosign_def finish_cosigning split: option.splits)
    then show ?thesis
      using cos(2) unfolding begins_def by blast
  qed
qed

lemma linked_prev_distinct:
  "linked h rs \<Longrightarrow> distinct (h # map row_chain_hash rs) \<Longrightarrow> distinct (map row_prev_hash rs)"
proof -
  have *: "linked h rs \<Longrightarrow> map row_prev_hash rs = butlast (h # map row_chain_hash rs)" for h
    by (induction rs arbitrary: h) auto
  show "linked h rs \<Longrightarrow> distinct (h # map row_chain_hash rs) \<Longrightarrow> distinct (map row_prev_hash rs)"
    using * distinct_butlast by metis
qed

lemma toy_interleaving:
  "\<exists>t1 t2 r1 r2. begin_insert [] (toy_event ''e'' 5) (toy_record ''e'' 5) True = Inr t1
    \<and> begin_insert [] (toy_event ''f'' 6) (toy_record ''f'' 6) True = Inr t2
    \<and> finish_task C [] t1 = (Inr (toy_record ''e'' 5), [r1])
    \<and> finish_task C [r1] t2 = (Inr (toy_record ''f'' 6), [r1, r2])
    \<and> begins C [] t1 \<and> begins C [] t2 \<and> t1 \<noteq> t2"
proof -
  obtain r1 where r1: "inserts [] (toy_event ''e'' 5) (toy_record ''e'' 5) True r1" "row_event_id r1 = Some ''e''"
    using toy_append [of "[]" "''e''" 5 toy_crypto] by auto
  obtain r2 where r2: "inserts [] (toy_event ''f'' 6) (toy_record ''f'' 6) True r2" "row_event_id r2 = Some ''f''"
    using toy_append [of "[]" "''f''" 6 toy_crypto] by auto
  let ?t1 = "Insertion (toy_event ''e'' 5) (toy_record ''e'' 5) True (latest_hash []) (row_chain_hash r1)"
  let ?t2 = "Insertion (toy_event ''f'' 6) (toy_record ''f'' 6) True (latest_hash []) (row_chain_hash r2)"
  have b: "begin_insert [] (toy_event ''e'' 5) (toy_record ''e'' 5) True = Inr ?t1"
      "begin_insert [] (toy_event ''f'' 6) (toy_record ''f'' 6) True = Inr ?t2"
    using r1(1) r2(1) by (simp_all add: begin_insert_Inr inserts_stores)
  have "stores [r1] (toy_event ''f'' 6) (toy_record ''f'' 6) True (latest_hash []) (row_chain_hash r2) r2"
    using r2 r1(2) by (simp add: inserts_stores stores_def)
  then have f: "finish_task C [] ?t1 = (Inr (toy_record ''e'' 5), [r1])"
      "finish_task C [r1] ?t2 = (Inr (toy_record ''f'' 6), [r1, r2])"
    using r1(1) by (auto simp: finish_insertion inserts_stores)
  have s: "submits C (toy_event e n) (toy_record e n) True" for e n
    by (simp add: submits_def toy_record_def)
  have "?t1 \<noteq> ?t2"
    by (simp add: toy_event_def)
  moreover have "begins C [] ?t1" "begins C [] ?t2"
    using b s unfolding begins_def by blast+
  ultimately show ?thesis
    using b f by blast
qed

lemma toy_shared_run:
  "\<exists>r1 r2 t2. (shared_step C)\<^sup>*\<^sup>* ([], []) ([r1], [t2]) \<and> (shared_step C)\<^sup>*\<^sup>* ([r1], [t2]) ([r1, r2], [])"
proof -
  obtain t1 t2 r1 r2 where t: "begins C [] t1" "begins C [] t2" "t1 \<noteq> t2"
      "finish_task C [] t1 = (Inr (toy_record ''e'' 5), [r1])"
      "finish_task C [r1] t2 = (Inr (toy_record ''f'' 6), [r1, r2])"
    using toy_interleaving by blast
  have "shared_step C ([], []) ([], [t1])" "shared_step C ([], [t1]) ([], [t2, t1])"
    by (rule shared_step.began [OF t(1)], rule shared_step.began [OF t(2)])
  moreover have "shared_step C ([], [t2, t1]) ([r1], [t2])"
    using shared_step.ended [OF _ t(4), of "[t2, t1]"] t(3) by simp
  moreover have "shared_step C ([r1], [t2]) ([r1, r2], [])"
    using shared_step.ended [OF _ t(5), of "[t2]"] by simp
  ultimately show ?thesis
    by (meson r_into_rtranclp rtranclp.rtrancl_into_rtrancl)
qed

section \<open>Properties\<close>

text \<open>C7: The shared log keeps its invariant under every interleaving of the halves of any number of
  operations: rows are never lost or moved, every row still parses to a record with the row's
  columns to which its chain hash commits, no two rows share an event id, and every row names the
  genesis value or the chain hash of a row in the log as its predecessor.\<close>

theorem concurrent_log_invariant:
  assumes "(shared_step C)\<^sup>*\<^sup>* ([], []) (log, ts)" and "(shared_step C)\<^sup>*\<^sup>* (log, ts) (log', ts')"
  shows "(\<forall>r \<in> set log. \<exists>c sigs m. loads (row_record_json r) = Inr (audit_record c sigs) \<and> columns r c
        \<and> commits r c sigs m)
    \<and> distinct (filter (\<lambda>e. e \<noteq> None) (map row_event_id log))
    \<and> (\<forall>r \<in> set log. row_prev_hash r = GENESIS_HASH \<or> row_prev_hash r \<in> row_chain_hash ` set log)
    \<and> length log \<le> length log'
    \<and> (\<forall>i < length log. row_event_id (log' ! i) = row_event_id (log ! i)
         \<and> row_prev_hash (log' ! i) = row_prev_hash (log ! i) \<and> row_chain_hash (log' ! i) = row_chain_hash (log ! i)
         \<and> (\<exists>c sigs sigs'. loads (row_record_json (log ! i)) = Inr (audit_record c sigs)
              \<and> loads (row_record_json (log' ! i)) = Inr (audit_record c sigs')))"
proof -
  have closed: "closed_log log" and ok: "\<forall>t \<in> set ts. task_ok log t"
    using shared_steps_ok [OF assms(1)] by auto
  have kept: "rows_kept log log'"
    using shared_steps_ok [OF assms(2)] closed ok by simp
  have "same_event r r' \<Longrightarrow> \<exists>c sigs sigs'. loads (row_record_json r) = Inr (audit_record c sigs)
      \<and> loads (row_record_json r') = Inr (audit_record c sigs')" for r r'
    using loads_stored unfolding same_event_def by blast
  then have "\<forall>i < length log. row_event_id (log' ! i) = row_event_id (log ! i)
         \<and> row_prev_hash (log' ! i) = row_prev_hash (log ! i) \<and> row_chain_hash (log' ! i) = row_chain_hash (log ! i)
         \<and> (\<exists>c sigs sigs'. loads (row_record_json (log ! i)) = Inr (audit_record c sigs)
              \<and> loads (row_record_json (log' ! i)) = Inr (audit_record c sigs'))"
    using kept same_event_columns unfolding rows_kept_def by blast
  moreover have "\<forall>r \<in> set log. \<exists>c sigs m. loads (row_record_json r) = Inr (audit_record c sigs) \<and> columns r c
      \<and> commits r c sigs m"
    using closed_rows [OF closed] .
  moreover have "\<forall>r \<in> set log. row_prev_hash r = GENESIS_HASH \<or> row_prev_hash r \<in> row_chain_hash ` set log"
    using closed by (auto simp: closed_log_def hashes_def)
  ultimately show ?thesis
    using closed kept by (simp add: closed_log_def wf_log_def row_ids_def rows_kept_def)
qed

lemma concurrent_log_invariant_witness:
  "\<exists>r1 r2 t2. (shared_step toy_crypto)\<^sup>*\<^sup>* ([], []) ([r1], [t2]) \<and> (shared_step toy_crypto)\<^sup>*\<^sup>* ([r1], [t2]) ([r1, r2], [])
    \<and> row_chain_hash ([r1, r2] ! 0) = row_chain_hash ([r1] ! 0)"
proof -
  obtain r1 r2 t2 where r: "(shared_step toy_crypto)\<^sup>*\<^sup>* ([], []) ([r1], [t2])"
      "(shared_step toy_crypto)\<^sup>*\<^sup>* ([r1], [t2]) ([r1, r2], [])"
    using toy_shared_run by blast
  have "0 < length [r1]"
    by simp
  with concurrent_log_invariant [OF r] have "row_chain_hash ([r1, r2] ! 0) = row_chain_hash ([r1] ! 0)"
    by blast
  with r show ?thesis by blast
qed

text \<open>C37: Two insertions that both read the latest hash before either row is stored: both rows are
  stored and name the same predecessor, so the rows of the log, in whatever order, are no chain
  from the genesis value, unless two of their chain hashes coincide.\<close>

theorem concurrent_fork:
  assumes "begin_insert log e1 rec1 p1 = Inr t1" and "begin_insert log e2 rec2 p2 = Inr t2"
    and "finish_task C log t1 = (Inr rec1, log1)" and "finish_task C log1 t2 = (Inr rec2, log2)"
  shows "\<exists>r1 r2. log2 = log @ [r1, r2] \<and> row_prev_hash r1 = latest_hash log \<and> row_prev_hash r2 = latest_hash log
    \<and> (\<forall>rs. mset rs = mset log2 \<and> linked GENESIS_HASH rs \<longrightarrow> \<not> distinct (GENESIS_HASH # map row_chain_hash rs))"
proof -
  obtain c1 c2 where t: "t1 = Insertion e1 rec1 p1 (latest_hash log) c1" "t2 = Insertion e2 rec2 p2 (latest_hash log) c2"
    using assms(1,2) by (auto simp: begin_insert_Inr)
  obtain r1 r2 where r: "log2 = log @ [r1, r2]" "stores log e1 rec1 p1 (latest_hash log) c1 r1"
      "stores log1 e2 rec2 p2 (latest_hash log) c2 r2"
    using assms(3,4) by (auto simp: t finish_insertion)
  then have prev: "row_prev_hash r1 = latest_hash log" "row_prev_hash r2 = latest_hash log"
    by (auto simp: stores_def)
  have "\<not> distinct (GENESIS_HASH # map row_chain_hash rs)" if "mset rs = mset log2" "linked GENESIS_HASH rs" for rs
  proof
    assume "distinct (GENESIS_HASH # map row_chain_hash rs)"
    then have "distinct (map row_prev_hash rs)"
      using linked_prev_distinct that(2) by blast
    moreover have "mset (map row_prev_hash rs) = mset (map row_prev_hash log2)"
      using that(1) by simp
    ultimately have "distinct (map row_prev_hash log2)"
      using mset_eq_imp_distinct_iff by blast
    then show False
      using prev r(1) by simp
  qed
  then show ?thesis
    using r(1) prev by blast
qed

lemma concurrent_fork_witness:
  "\<exists>t1 t2 r1 r2. begin_insert [] (toy_event ''e'' 5) (toy_record ''e'' 5) True = Inr t1
    \<and> begin_insert [] (toy_event ''f'' 6) (toy_record ''f'' 6) True = Inr t2
    \<and> finish_task toy_crypto [] t1 = (Inr (toy_record ''e'' 5), [r1])
    \<and> finish_task toy_crypto [r1] t2 = (Inr (toy_record ''f'' 6), [r1, r2]) \<and> row_prev_hash r1 = row_prev_hash r2"
proof -
  obtain t1 t2 r1 r2 where t: "begin_insert [] (toy_event ''e'' 5) (toy_record ''e'' 5) True = Inr t1"
      "begin_insert [] (toy_event ''f'' 6) (toy_record ''f'' 6) True = Inr t2"
      "finish_task toy_crypto [] t1 = (Inr (toy_record ''e'' 5), [r1])"
      "finish_task toy_crypto [r1] t2 = (Inr (toy_record ''f'' 6), [r1, r2])"
    using toy_interleaving by blast
  from concurrent_fork [OF t] have "row_prev_hash r1 = row_prev_hash r2"
    by auto
  with t show ?thesis by blast
qed

text \<open>C38: Two countersignatures of one pending event whose \<open>SELECT\<close>s both precede the first
  \<open>UPDATE\<close>: each would be accepted alone, both are accepted, and the log is left as if the first
  had never arrived; one after the other the second is refused and the first stays.\<close>

theorem concurrent_cosign_lost:
  assumes "wf_log log" and "begin_cosign log eid sig1 pk1 = Inr t1" and "begin_cosign log eid sig2 pk2 = Inr t2"
    and "finish_task C log t1 = (Inr rec1, log1)" and "finish_task C log t2 = (Inr rec2, log2)"
  shows "finish_task C log1 t2 = (Inr rec2, log2)
    \<and> finalize_pending C log1 eid sig2 pk2
        = Inl (Exn AuditError (''event '' @ py_repr eid @ '' is not pending peer signature''))"
proof -
  obtain r where r: "row_by_id log eid = Inr (Some r)" "t1 = Cosigning eid sig1 pk1 r" "t2 = Cosigning eid sig2 pk2 r"
    using assms(2,3) by (auto simp: begin_cosign_Inr)
  obtain xs ys where log: "log = xs @ r # ys" "only_row xs r ys" "bind_text eid = Inr (row_event_id r)"
    using row_by_id_split [OF assms(1) r(1)] by blast
  have f: "countersign C eid r sig2 pk2 = Inr rec2" "log2 = update_row log (row_event_id r) (dumps True rec2)"
      "log1 = update_row log (row_event_id r) (dumps True rec1)"
    using assms(4,5) by (auto simp: r(2,3) finish_cosigning)
  let ?r = "r\<lparr>row_record_json := dumps True rec1, row_pending := False\<rparr>"
  have log1: "log1 = xs @ ?r # ys"
    using f(3) update_row_split [OF log(2)] log(1) by simp
  have only: "only_row xs ?r ys" "bind_text eid = Inr (row_event_id ?r)"
    using log(2,3) by (simp_all add: only_row_def)
  have "update_row log1 (row_event_id r) (dumps True rec2) = log2"
    using f(2) update_row_split [OF only(1)] update_row_split [OF log(2)] log1 log(1) by simp
  moreover have "row_by_id log1 eid = Inr (Some ?r)"
    unfolding log1 using row_by_id_found [OF only] .
  ultimately show ?thesis
    using f(1) by (auto simp: r(3) finish_cosigning finalize_pending_def countersign_def)
qed

lemma finalize_pending_begun:
  "finalize_pending C log eid sig pk = Inr (rec', log')
    \<Longrightarrow> \<exists>t. begin_cosign log eid sig pk = Inr t \<and> finish_task C log t = (Inr rec', log')"
  by (auto simp: finalize_pending_def begin_cosign_Inr finish_cosigning split: option.splits)

lemma concurrent_cosign_lost_witness:
  "\<exists>log t1 t2 rec1 log1 rec2 log2. finish_task toy_crypto log t1 = (Inr rec1, log1)
    \<and> finish_task toy_crypto log t2 = (Inr rec2, log2) \<and> finish_task toy_crypto log1 t2 = (Inr rec2, log2)
    \<and> begin_cosign log (JStr ''e'') (sign_only toy_crypto (toy_event ''e'' 5) toy_keypair ''A'') (kp_public toy_keypair) = Inr t1
    \<and> begin_cosign log (JStr ''e'') (sign_only toy_crypto (toy_event ''e'' 5) toy_keypair ''D'') (kp_public toy_keypair) = Inr t2"
proof -
  obtain r rec where r: "wf_log [r]"
    and fin: "\<forall>s. s \<noteq> ''B'' \<longrightarrow> (\<exists>rec' log'. rec' \<noteq> rec
       \<and> finalize_pending toy_crypto [r] (JStr ''e'') (sign_only toy_crypto (toy_event ''e'' 5) toy_keypair s)
           (kp_public toy_keypair) = Inr (rec', log'))"
    using toy_pending_row by (elim exE conjE)
  have fin: "\<exists>t rec' log'. begin_cosign [r] (JStr ''e'') (sign_only toy_crypto (toy_event ''e'' 5) toy_keypair s)
        (kp_public toy_keypair) = Inr t \<and> finish_task toy_crypto [r] t = (Inr rec', log')" if "s \<noteq> ''B''" for s
    using fin [rule_format, OF that] finalize_pending_begun by (elim exE conjE) blast
  have ne: "''A'' \<noteq> ''B''" "''D'' \<noteq> ''B''"
    by simp_all
  obtain t1 rec1 log1 where t1:
      "begin_cosign [r] (JStr ''e'') (sign_only toy_crypto (toy_event ''e'' 5) toy_keypair ''A'') (kp_public toy_keypair) = Inr t1"
      "finish_task toy_crypto [r] t1 = (Inr rec1, log1)"
    using fin [OF ne(1)] by (elim exE conjE)
  obtain t2 rec2 log2 where t2:
      "begin_cosign [r] (JStr ''e'') (sign_only toy_crypto (toy_event ''e'' 5) toy_keypair ''D'') (kp_public toy_keypair) = Inr t2"
      "finish_task toy_crypto [r] t2 = (Inr rec2, log2)"
    using fin [OF ne(2)] by (elim exE conjE)
  note concurrent_cosign_lost [OF r(1) t1(1) t2(1) t1(2) t2(2), THEN conjunct1]
  with t1 t2 show ?thesis
    by (intro exI conjI)
qed

end
