(* ===== verification/Atf_Journal.thy ===== *)
theory Atf_Journal
  imports Atf_Audit_Claims "HOL-Library.Multiset"
begin

text \<open>
  What the audit log promises, as an abstract journal: a list of entries, each with its id, its
  content, its signatures and whether it waits for the peer. An entry is entered once or settled
  once, with at most one more signature; nothing else ever happens. The SQLite table refines it.
\<close>

section \<open>The journal\<close>

record entry =
  en_id :: "string option"
  en_content :: json
  en_sigs :: "json list"
  en_open :: bool

inductive journal_step :: "entry list \<Rightarrow> entry list \<Rightarrow> bool" where
  entered: "en_id e = None \<or> en_id e \<notin> en_id ` set js \<Longrightarrow> journal_step js (js @ [e])"
| settled: "en_open e \<Longrightarrow> en_id e \<noteq> None \<Longrightarrow> length extra \<le> 1
    \<Longrightarrow> journal_step (xs @ e # ys) (xs @ e\<lparr>en_sigs := en_sigs e @ extra, en_open := False\<rparr> # ys)"

inductive_cases journal_stepE: "journal_step js js'"

definition entry_le :: "entry \<Rightarrow> entry \<Rightarrow> bool" where
  "entry_le e e' \<longleftrightarrow> en_id e' = en_id e \<and> en_content e' = en_content e
     \<and> (e' = e \<or> en_open e \<and> \<not> en_open e' \<and> (\<exists>extra. length extra \<le> 1 \<and> en_sigs e' = en_sigs e @ extra))"

lemma entry_le_refl [simp]: "entry_le e e"
  by (simp add: entry_le_def)

lemma entry_le_trans: "entry_le a b \<Longrightarrow> entry_le b c \<Longrightarrow> entry_le a c"
  by (auto simp: entry_le_def)

lemma journal_step_le: "journal_step js js' \<Longrightarrow> length js \<le> length js' \<and> (\<forall>i < length js. entry_le (js ! i) (js' ! i))"
  by (erule journal_stepE) (auto simp: nth_append nth_Cons' entry_le_def)

text \<open>Every entry keeps its place, its id and its content, and what is settled stays as it is.\<close>

lemma journal_run_le:
  "journal_step\<^sup>*\<^sup>* js js' \<Longrightarrow> length js \<le> length js' \<and> (\<forall>i < length js. entry_le (js ! i) (js' ! i))"
proof (induction rule: rtranclp_induct)
  case (step js1 js2)
  then have "\<forall>i < length js1. entry_le (js1 ! i) (js2 ! i)" "length js1 \<le> length js2"
    using journal_step_le by blast+
  then show ?case
    using step.IH entry_le_trans by (meson order_less_le_trans order_trans)
qed simp

section \<open>The table as a journal\<close>

definition entry_of :: "row \<Rightarrow> entry" where
  "entry_of r =
     \<lparr>en_id = row_event_id r,
      en_content = (case bind_res (loads (row_record_json r)) (\<lambda>v. py_index v ''content'') of Inr c \<Rightarrow> c | Inl e \<Rightarrow> JNull),
      en_sigs = (case bind_res (bind_res (loads (row_record_json r)) (\<lambda>v. py_index v ''signatures'')) py_iter of
        Inr sigs \<Rightarrow> sigs | Inl e \<Rightarrow> []),
      en_open = row_pending r\<rparr>"

definition journal_of :: "audit_log \<Rightarrow> entry list" where
  "journal_of log = map entry_of log"

lemma entry_of_stored:
  "stored r c sigs \<Longrightarrow> entry_of r = \<lparr>en_id = row_event_id r, en_content = c, en_sigs = sigs, en_open = row_pending r\<rparr>"
  by (simp add: entry_of_def loads_stored audit_record_def py_iter_def)

lemma entry_of_id [simp]: "en_id (entry_of r) = row_event_id r" "en_open (entry_of r) = row_pending r"
  by (simp_all add: entry_of_def)

lemma log_step_journal:
  assumes "log_step C log log'" and "wf_log log"
  shows "journal_step (journal_of log) (journal_of log')"
  using log_step_cases [OF assms(1)]
proof (elim disjE exE conjE)
  fix ev sigs pending r
  assume r: "inserts log ev (audit_record (event_content ev) sigs) pending r" and log': "log' = log @ [r]"
  have "en_id (entry_of r) = None \<or> en_id (entry_of r) \<notin> en_id ` set (journal_of log)"
    using r by (auto simp: inserts_def journal_of_def image_image)
  then show ?thesis
    by (simp add: log' journal_of_def journal_step.entered [unfolded journal_of_def])
next
  fix eid sig pk rcd
  assume f: "finalize_pending C log eid sig pk = Inr (rcd, log')" and n: "normal sig"
  obtain xs r ys c sigs extra where s: "log = xs @ r # ys" "row_pending r" "stored r c sigs" "only_row xs r ys"
      "extra \<in> {[], [sig]}" "rcd = audit_record c (sigs @ extra)"
      "log' = xs @ r\<lparr>row_record_json := dumps True rcd, row_pending := False\<rparr> # ys"
    using finalize_pending_Inr [OF assms(2) f] by blast
  let ?r = "r\<lparr>row_record_json := dumps True rcd, row_pending := False\<rparr>"
  have "stored ?r c (sigs @ map sort_json extra)"
    using finalized_row(1) [OF s(3,5) n] s(6) by simp
  then have "entry_of ?r = (entry_of r)\<lparr>en_sigs := en_sigs (entry_of r) @ map sort_json extra, en_open := False\<rparr>"
    using entry_of_stored [OF s(3)] entry_of_stored by simp
  moreover have "length (map sort_json extra) \<le> 1" "en_id (entry_of r) \<noteq> None" "en_open (entry_of r)"
    using s(2,4,5) by (auto simp: only_row_def)
  ultimately show ?thesis
    using journal_step.settled [of "entry_of r" "map sort_json extra" "map entry_of xs" "map entry_of ys"]
    by (simp add: s(1,7) journal_of_def)
qed

interpretation log_journal: refinement_map "log_step C" journal_step wf_log journal_of
  by unfold_locales (blast intro: log_step_wf log_step_journal)+

text \<open>What the log answers, the journal answers.\<close>

definition journal_entry :: "entry list \<Rightarrow> string \<Rightarrow> json option" where
  "journal_entry js k =
     map_option (\<lambda>e. audit_record (en_content e) (en_sigs e)) (find (\<lambda>e. en_id e = Some k) js)"

lemma find_map: "find P (map f xs) = map_option f (find (P \<circ> f) xs)"
  by (induction xs) auto

lemma get_event_journal:
  assumes "wf_log log"
  shows "get_event log (JStr k) = Inr (journal_entry (journal_of log) k)"
proof (cases "find (\<lambda>r. row_event_id r = Some k) log")
  case None
  then show ?thesis
    by (simp add: get_event_def row_by_id_Str journal_entry_def journal_of_def find_map comp_def)
next
  case (Some r)
  then have "r \<in> set log"
    by (auto simp: find_Some_iff)
  then obtain c sigs where "stored r c sigs"
    using assms by (auto simp: wf_log_def wf_row_def)
  then show ?thesis
    using get_event_row [OF Some] Some
    by (simp add: journal_entry_def journal_of_def find_map comp_def entry_of_stored)
qed

lemma pending_journal: "pending_peer_count log = length (filter en_open (journal_of log))"
  by (simp add: pending_peer_count_def journal_of_def filter_map comp_def)

lemma all_events_journal:
  assumes "wf_log log"
  shows "\<exists>es. all_events log = Inr es
    \<and> mset es = mset (map (\<lambda>e. audit_record (en_content e) (en_sigs e)) (journal_of log))"
proof -
  let ?read = "\<lambda>e. audit_record (en_content e) (en_sigs e)"
  have "loads (row_record_json r) = Inr (?read (entry_of r))" if row: "r \<in> set (sort_key row_key_of log)" for r
  proof -
    obtain c sigs where "stored r c sigs"
      using assms row by (auto simp: wf_log_def wf_row_def)
    then show ?thesis
      by (simp add: loads_stored entry_of_stored)
  qed
  then have "all_events log = Inr (map (\<lambda>r. ?read (entry_of r)) (sort_key row_key_of log))"
    unfolding all_events_def by (rule map_res_Inr)
  then show ?thesis
    by (simp add: journal_of_def comp_def)
qed

section \<open>Property\<close>

text \<open>C8: The SQLite log implements the journal: read through \<open>journal_of\<close>, whatever sequence of calls
  writes to it is a run of the abstract journal, in which entries are entered once and settled once
  and otherwise stay as they are; and looking an event up, counting the pending ones and listing
  all of them answer from the journal alone.\<close>

theorem log_refines_journal:
  assumes "(log_step C)\<^sup>*\<^sup>* [] log" and "(log_step C)\<^sup>*\<^sup>* log log'"
  shows "journal_step\<^sup>*\<^sup>* (journal_of log) (journal_of log')
    \<and> (\<forall>i < length log. entry_le (journal_of log ! i) (journal_of log' ! i))
    \<and> (\<forall>k. get_event log' (JStr k) = Inr (journal_entry (journal_of log') k))
    \<and> pending_peer_count log' = length (filter en_open (journal_of log'))
    \<and> (\<exists>es. all_events log' = Inr es
         \<and> mset es = mset (map (\<lambda>e. audit_record (en_content e) (en_sigs e)) (journal_of log')))"
proof -
  have wf: "wf_log log" "wf_log log'"
    using log_journal.run_inv [OF assms(1)] log_journal.run_inv [OF assms(2)] by simp_all
  have run: "journal_step\<^sup>*\<^sup>* (journal_of log) (journal_of log')"
    using log_journal.run_view [OF assms(2) wf(1)] .
  moreover have "\<forall>i < length log. entry_le (journal_of log ! i) (journal_of log' ! i)"
    using journal_run_le [OF run] by (auto simp: journal_of_def)
  ultimately show ?thesis
    using get_event_journal [OF wf(2)] pending_journal all_events_journal [OF wf(2)] by blast
qed

lemma log_refines_journal_witness:
  "\<exists>r r'. append_pending [r] (toy_event ''f'' 6) JNull = Inr (toy_record ''f'' 6, [r, r'])
    \<and> journal_step\<^sup>*\<^sup>* (journal_of [r]) (journal_of [r, r'])
    \<and> get_event [r, r'] (JStr ''e'') = Inr (journal_entry (journal_of [r, r']) ''e'')"
proof -
  obtain r where r: "log_step toy_crypto [] [r]" "row_event_id r = Some ''e''" "wf_log [r]"
    using toy_append [of "[]" "''e''" 5 toy_crypto] by auto
  obtain r' where r': "append_pending [r] (toy_event ''f'' 6) JNull = Inr (toy_record ''f'' 6, [r, r'])"
      "log_step toy_crypto [r] [r, r']"
    using toy_append [of "[r]" "''f''" 6 toy_crypto] r(2,3) by auto
  note log_refines_journal [OF r_into_rtranclp [of "log_step toy_crypto", OF r(1)]
      r_into_rtranclp [of "log_step toy_crypto", OF r'(2)]]
  then show ?thesis
    using r'(1) by blast
qed

end
