(* ===== verification/Atf_Lifecycle.thy ===== *)
theory Atf_Lifecycle
  imports Atf_Wire_Claims
begin

text \<open>
  The life of a token at the delegatee, as an abstract machine: a token id is fresh, then running,
  then spent. A run begins only with a fresh id and ends once; when the process dies every running
  id is spent. The server, with all its requests and restarts, refines this machine.
\<close>

section \<open>The machine\<close>

datatype phase = Fresh | Running | Spent

inductive phase_step :: "(string \<Rightarrow> phase) \<Rightarrow> (string \<Rightarrow> phase) \<Rightarrow> bool" where
  began: "p u = Fresh \<Longrightarrow> phase_step p (p(u := Running))"
| ended: "p u = Running \<Longrightarrow> phase_step p (p(u := Spent))"
| died: "phase_step p (\<lambda>u. if p u = Running then Spent else p u)"

definition phase_le :: "phase \<Rightarrow> phase \<Rightarrow> bool" where
  "phase_le x y \<longleftrightarrow> x = y \<or> x = Fresh \<or> y = Spent"

lemma phase_step_le: "phase_step p q \<Longrightarrow> phase_le (p u) (q u)"
  by (induction rule: phase_step.induct) (auto simp: phase_le_def)

text \<open>No token comes back.\<close>

lemma phase_run_le: "phase_step\<^sup>*\<^sup>* p q \<Longrightarrow> phase_le (p u) (q u)"
proof (induction rule: rtranclp_induct)
  case (step q r)
  then show ?case
    using phase_step_le [OF step(2), of u] by (auto simp: phase_le_def)
qed (simp add: phase_le_def)

section \<open>The server's view of its tokens\<close>

definition tkn :: "string \<Rightarrow> claims \<Rightarrow> bool" where
  "tkn u cl \<longleftrightarrow> dc_jti cl = ''tkn_'' @ u"

definition phases :: "server \<Rightarrow> string \<Rightarrow> phase" where
  "phases s u =
     (if \<exists>r \<in> set (sv_running s). tkn u (run_claims r) then Running
      else if \<exists>cl \<in> set (sv_history s). tkn u cl then Spent
      else Fresh)"

lemma tkn_unique: "tkn u cl \<Longrightarrow> tkn v cl \<longleftrightarrow> u = v"
  by (auto simp: tkn_def)

lemma filter_remove1_one:
  assumes "length (filter P xs) \<le> 1" and "x \<in> set xs" and "P x"
  shows "\<forall>y \<in> set (remove1 x xs). \<not> P y"
proof -
  have "length (filter P (remove1 x xs)) = length (filter P xs) - 1"
    using assms(2,3) by (simp add: filter_remove1 length_remove1)
  then have "filter P (remove1 x xs) = []"
    using assms(1) by simp
  then show ?thesis
    by (simp add: filter_empty_conv)
qed

lemma remove1_others: "\<not> P x \<Longrightarrow> (\<exists>y \<in> set (remove1 x xs). P y) \<longleftrightarrow> (\<exists>y \<in> set xs. P y)"
  by (induction xs) auto

lemma phases_agent: "phases (Server a' rs h) = phases (Server a rs h)"
  by (simp add: phases_def fun_eq_iff)

lemma started_fresh:
  assumes "invoke_begin C hs a hdr raw t1 t2 = (a', Reply r)" and "server_inv (Server a rs h)" and "tkn u (run_claims r)"
  shows "phases (Server a rs h) u = Fresh"
proof -
  have inv: "server_inv (Server a' (r # rs) (run_claims r # h))"
    using server_inv_started [OF assms(1,2)] .
  then have "length (filter (\<lambda>cl. dc_jti cl = ''tkn_'' @ u) (run_claims r # h)) \<le> 1"
    unfolding server_inv_def by (elim conjE) (drule spec, simp only: server.sel)
  then have none: "filter (\<lambda>cl. dc_jti cl = ''tkn_'' @ u) h = []"
    using assms(3) by (simp add: tkn_def)
  then show ?thesis
    using inv_running [OF assms(2)] by (auto simp: phases_def tkn_def filter_empty_conv)
qed

lemma phases_started:
  assumes "invoke_begin C hs a hdr raw t1 t2 = (a', Reply r)" and "server_inv (Server a rs h)"
  shows "phases (Server a' (r # rs) (run_claims r # h)) = phases (Server a rs h)
    \<or> phase_step (phases (Server a rs h)) (phases (Server a' (r # rs) (run_claims r # h)))"
proof (cases "\<exists>u. tkn u (run_claims r)")
  case True
  then obtain u where u: "tkn u (run_claims r)"
    by blast
  have "phases (Server a' (r # rs) (run_claims r # h)) = (phases (Server a rs h))(u := Running)"
    using tkn_unique [OF u] by (auto simp: phases_def fun_eq_iff)
  then show ?thesis
    using phase_step.began [of "phases (Server a rs h)" u] started_fresh [OF assms u] by simp
qed (auto simp: phases_def fun_eq_iff)

lemma phases_finished:
  assumes "r \<in> set rs" and "server_inv (Server a rs h)"
  shows "phases (Server a' (remove1 r rs) h) = phases (Server a rs h)
    \<or> phase_step (phases (Server a rs h)) (phases (Server a' (remove1 r rs) h))"
proof (cases "\<exists>u. tkn u (run_claims r)")
  case True
  then obtain u where u: "tkn u (run_claims r)"
    by blast
  have gone: "\<forall>q \<in> set (remove1 r rs). \<not> tkn u (run_claims q)"
    by (rule filter_remove1_one [OF inv_one_run [OF assms(2), of u, unfolded server.sel, folded tkn_def] assms(1) u])
  have others: "(\<exists>q \<in> set (remove1 r rs). tkn v (run_claims q)) \<longleftrightarrow> (\<exists>q \<in> set rs. tkn v (run_claims q))" if "v \<noteq> u" for v
    by (rule remove1_others) (use that tkn_unique [OF u] in simp)
  have "run_claims r \<in> set h"
    using inv_running [OF assms(2)] assms(1) by simp
  then have "phases (Server a' (remove1 r rs) h) = (phases (Server a rs h))(u := Spent)"
    using gone others u by (auto simp: phases_def fun_eq_iff)
  moreover have "phases (Server a rs h) u = Running"
    using assms(1) u by (auto simp: phases_def)
  ultimately show ?thesis
    using phase_step.ended [of "phases (Server a rs h)" u] by simp
next
  case False
  have "(\<exists>q \<in> set (remove1 r rs). tkn v (run_claims q)) \<longleftrightarrow> (\<exists>q \<in> set rs. tkn v (run_claims q))" for v
    by (rule remove1_others) (use False in simp)
  then show ?thesis
    by (auto simp: phases_def fun_eq_iff)
qed

lemma phases_died:
  assumes "server_inv (Server a rs h)"
  shows "phases (Server a' [] h) = (\<lambda>u. if phases (Server a rs h) u = Running then Spent else phases (Server a rs h) u)"
  using inv_running [OF assms] by (auto simp: phases_def fun_eq_iff)

lemma serve_step_phases:
  assumes "serve_step C hs s s'" and "server_inv s"
  shows "phases s' = phases s \<or> phase_step (phases s) (phases s')"
  using assms
proof (induction rule: serve_step.induct)
  case (started a hdr raw t1 t2 a' r rs h)
  then show ?case
    by (rule phases_started)
next
  case (finished r rs a result now t a' x h)
  then show ?case
    by (intro phases_finished)
next
  case (restarted nam ownr kid a fresh a' rs h)
  then show ?case
    using phases_died phase_step.died by metis
qed (rule disjI1, rule phases_agent)+

interpretation token_phases: refinement_map "serve_step C hs" phase_step server_inv phases
  by unfold_locales (rule serve_step_inv serve_step_phases; assumption)+

section \<open>Property\<close>

text \<open>C4: The life of a token. Whatever requests, ends of handlers, crashes and restarts the server goes
  through, the phases of its tokens make a run of the abstract machine: every token with an issued
  id is fresh at first, and only a fresh one can start a run, which ends once or dies with the
  process; from spent there is no way back.\<close>

theorem token_lifecycle:
  assumes "(log_step C)\<^sup>*\<^sup>* [] (ag_log a)" and "(serve_step C hs)\<^sup>*\<^sup>* (start_server a) s"
    and "(serve_step C hs)\<^sup>*\<^sup>* s s'"
  shows "phases (start_server a) = (\<lambda>_. Fresh) \<and> phase_step\<^sup>*\<^sup>* (phases s) (phases s')
    \<and> (\<forall>u. phase_le (phases s u) (phases s' u))
    \<and> (\<forall>u hdr raw t1 t2 a' r. invoke_begin C hs (sv_agent s) hdr raw t1 t2 = (a', Reply r)
         \<and> dc_jti (run_claims r) = ''tkn_'' @ u \<longrightarrow> phases s u = Fresh)"
proof -
  have inv: "server_inv s"
    using server_reachable_inv [OF log_steps_wf [OF assms(1)] assms(2)] by simp
  note run = token_phases.run_view [OF assms(3) inv]
  have "phases s u = Fresh"
    if "invoke_begin C hs (sv_agent s) hdr raw t1 t2 = (a', Reply r)" "dc_jti (run_claims r) = ''tkn_'' @ u"
    for u hdr raw t1 t2 a' r
    using started_fresh [OF that(1), of "sv_running s" "sv_history s" u] inv that(2) by (simp add: tkn_def)
  moreover have "phases (start_server a) = (\<lambda>_. Fresh)"
    by (simp add: phases_def start_server_def fun_eq_iff)
  ultimately show ?thesis
    using run phase_run_le [OF run] by blast
qed

lemma token_lifecycle_witness:
  "\<exists>s. (serve_step toy_crypto toy_handlers)\<^sup>*\<^sup>* (start_server (toy_agent [])) s \<and> phases s ''0'' = Running
    \<and> phase_step\<^sup>*\<^sup>* (\<lambda>_. Fresh) (phases s)"
proof -
  obtain token row r where b: "invoke_begin toy_crypto toy_handlers (toy_agent []) (Some token) toy_request (''2'', 130) (''3'', 130)
      = (set_log [row] (toy_agent []), Reply r)" "dc_jti (run_claims r) = ''tkn_'' @ ''0''"
    using toy_start by blast
  let ?s = "Server (set_log [row] (toy_agent [])) [r] [run_claims r]"
  have s: "(serve_step toy_crypto toy_handlers)\<^sup>*\<^sup>* (start_server (toy_agent [])) ?s"
    using serve_step.started [OF b(1), of "[]" "[]"] by (simp add: start_server_def)
  have log: "(log_step toy_crypto)\<^sup>*\<^sup>* [] (ag_log (toy_agent []))"
    by simp
  note life = token_lifecycle [OF log rtranclp.rtrancl_refl s]
  have "phases ?s ''0'' = Running"
    using b(2) by (simp add: phases_def tkn_def)
  moreover have "phase_step\<^sup>*\<^sup>* (\<lambda>_. Fresh) (phases ?s)"
    using life by (elim conjE) simp
  ultimately show ?thesis
    using s by blast
qed

end
