(* ===== verification/Atf_Keyfile.thy ===== *)
theory Atf_Keyfile
  imports Atf_Setup
begin

text \<open>
  The key file of \<open>Agent.create\<close> (\<open>agent.py\<close>): its test and its two effects, the write and the
  \<open>chmod\<close>, one by one. \<open>create\<close> takes them together; here the process may die between them, and
  two processes that both found no file may interleave.
\<close>

section \<open>Effects\<close>

text \<open>The content and the permission bits of \<open>private.pem\<close>, if there is one.\<close>

type_synonym key_file = "(bytes \<times> nat) option"

datatype key_effect = Write_bytes bytes | Chmod nat

text \<open>\<open>write_bytes\<close> gives a new file the bits \<open>open_mode\<close>, which the process's umask decides, and leaves
  those of an existing file alone.\<close>

definition key_effect :: "nat \<Rightarrow> key_effect \<Rightarrow> key_file \<Rightarrow> key_file" where
  "key_effect open_mode ef file =
     (case ef of
        Write_bytes pem \<Rightarrow> Some (pem, case file of None \<Rightarrow> open_mode | Some (_, m) \<Rightarrow> m)
      | Chmod m \<Rightarrow> map_option (\<lambda>(pem, _). (pem, m)) file)"

text \<open>\<open>0o600\<close>\<close>

definition private_mode :: nat where
  "private_mode = 6 * 8 * 8"

text \<open>\<open>if key_path.exists(): ... else: ...\<close>: the effects on the file of a process that finds it so.\<close>

definition key_effects :: "crypto \<Rightarrow> string \<Rightarrow> key_file \<Rightarrow> bytes \<Rightarrow> key_effect list" where
  "key_effects C kid file fresh =
     (case file of
        Some _ \<Rightarrow> []
      | None \<Rightarrow> [Write_bytes (private_pem C (generate C kid fresh)), Chmod private_mode])"

definition after_effects :: "nat \<Rightarrow> key_effect list \<Rightarrow> key_file \<Rightarrow> key_file" where
  "after_effects open_mode efs file = fold (key_effect open_mode) efs file"

lemmas key_effect_defs = key_effect_def key_effects_def after_effects_def

text \<open>Done without interruption they are what \<open>create\<close> does to the directory.\<close>

lemma create_key_file:
  assumes "create C nam ownr kid dir fresh = Inr a" and "dir_key dir = map_option fst file"
  shows "dir_key (ag_data_dir a) = map_option fst (after_effects open_mode (key_effects C kid file fresh) file)"
  using assms by (cases "file") (auto simp: create_def key_effect_defs Let_def split: option.splits)

lemma create_keypair:
  assumes "create C nam ownr kid dir fresh = Inr a"
  shows "dir_key dir = None \<Longrightarrow> ag_keypair a = generate C kid fresh"
    and "dir_key dir = Some pem \<Longrightarrow> from_pem C pem kid = Inr (ag_keypair a)"
  using assms by (auto simp: create_def Let_def split: option.splits)

lemma shuffles_two:
  "zs \<in> shuffles [a, b] [c, d] \<longleftrightarrow>
     zs \<in> {[a, b, c, d], [a, c, b, d], [a, c, d, b], [c, a, b, d], [c, a, d, b], [c, d, a, b]}"
  by auto

lemma effects_race:
  assumes "efs \<in> shuffles [Write_bytes p1, Chmod m] [Write_bytes p2, Chmod m]"
  shows "after_effects open_mode efs None \<in> {Some (p1, m), Some (p2, m)}"
  using assms unfolding shuffles_two
  by (elim insertE emptyE) (simp_all add: after_effects_def key_effect_def)

section \<open>Properties\<close>

text \<open>C22: Two processes create one agent at the same time. If both find no key file, then however their
  writes interleave the file ends up private and holds the key of one of them. Both go on, each with
  its own key, and every later start gets the key of the file: the other process has signed
  with a key that nothing keeps. And a process that dies between its write and its \<open>chmod\<close> leaves the
  private key with the bits of any new file; no later start repairs them, as it finds the file and
  does nothing to it.\<close>

theorem key_file_race:
  assumes "pem_correct C" and "dir_key dir = None"
    and "create C nam ownr kid dir k1 = Inr a1" and "create C nam ownr kid dir k2 = Inr a2"
    and "efs \<in> shuffles (key_effects C kid None k1) (key_effects C kid None k2)"
  shows "\<exists>pem. after_effects open_mode efs None = Some (pem, private_mode)
    \<and> (\<exists>winner \<in> {a1, a2}. \<forall>dir' k3 a3. dir_key dir' = Some pem \<and> create C nam ownr kid dir' k3 = Inr a3
         \<longrightarrow> ag_identity a3 = ag_identity winner \<and> ag_keypair a3 = ag_keypair winner)
    \<and> ag_keypair a1 = generate C kid k1 \<and> ag_keypair a2 = generate C kid k2
    \<and> after_effects open_mode (take 1 (key_effects C kid None k1)) None = Some (private_pem C (ag_keypair a1), open_mode)
    \<and> (\<forall>f k. after_effects open_mode (key_effects C kid (Some f) k) (Some f) = Some f)"
proof -
  note k = create_keypair(1) [OF assms(3,2)] create_keypair(1) [OF assms(4,2)]
  have cut: "after_effects open_mode (take 1 (key_effects C kid None k1)) None = Some (private_pem C (ag_keypair a1), open_mode)"
      "\<forall>f k. after_effects open_mode (key_effects C kid (Some f) k) (Some f) = Some f"
    by (simp_all add: k(1) key_effect_defs)
  have later: "ag_identity a3 = ag_identity w \<and> ag_keypair a3 = ag_keypair w"
    if w: "create C nam ownr kid dir k = Inr w" "ag_keypair w = generate C kid k"
      and d: "dir_key dir' = Some (private_pem C (generate C kid k))" "create C nam ownr kid dir' k3 = Inr a3"
    for k w dir' k3 a3
  proof -
    have "from_pem C (private_pem C (generate C kid k)) kid = Inr (generate C kid k)"
      using create_key(7) [OF w(1) assms(1)] create_key_file [OF w(1), of None] assms(2) w(2)
      by (simp add: key_effect_defs)
    then have "ag_keypair a3 = ag_keypair w"
      using create_keypair(2) [OF d(2,1)] w(2) by simp
    then show ?thesis
      using create_key(3) [OF d(2)] create_key(3) [OF w(1)] by simp
  qed
  have "efs \<in> shuffles [Write_bytes (private_pem C (generate C kid k1)), Chmod private_mode]
      [Write_bytes (private_pem C (generate C kid k2)), Chmod private_mode]"
    using assms(5) by (simp add: key_effects_def)
  from effects_race [OF this, of open_mode] show ?thesis
  proof (elim insertE emptyE)
    assume "after_effects open_mode efs None = Some (private_pem C (generate C kid k1), private_mode)"
    then show ?thesis
      using later [OF assms(3) k(1)] k cut by blast
  next
    assume "after_effects open_mode efs None = Some (private_pem C (generate C kid k2), private_mode)"
    then show ?thesis
      using later [OF assms(4) k(2)] k cut by blast
  qed
qed

lemma key_file_race_witness:
  "\<exists>a1 a2 pem. create toy_crypto ''b'' ''a'' ''1'' \<lparr>dir_key = None, dir_manifest = None, dir_log = []\<rparr> [1] = Inr a1
    \<and> create toy_crypto ''b'' ''a'' ''1'' \<lparr>dir_key = None, dir_manifest = None, dir_log = []\<rparr> [2] = Inr a2
    \<and> ag_keypair a1 \<noteq> ag_keypair a2
    \<and> after_effects 420 [Write_bytes (private_pem toy_crypto (generate toy_crypto ''1'' [1])),
          Write_bytes (private_pem toy_crypto (generate toy_crypto ''1'' [2])), Chmod private_mode, Chmod private_mode] None
        = Some (pem, private_mode)"
proof -
  let ?dir = "\<lparr>dir_key = None, dir_manifest = None, dir_log = []\<rparr>"
  let ?p = "\<lambda>k. private_pem toy_crypto (generate toy_crypto ''1'' k)"
  let ?efs = "[Write_bytes (?p [1]), Write_bytes (?p [2]), Chmod private_mode, Chmod private_mode]"
  obtain a1 a2 where a: "create toy_crypto ''b'' ''a'' ''1'' ?dir [1] = Inr a1" "create toy_crypto ''b'' ''a'' ''1'' ?dir [2] = Inr a2"
    using create_new by metis
  have "?efs \<in> shuffles (key_effects toy_crypto ''1'' None [1]) (key_effects toy_crypto ''1'' None [2])"
    by (simp add: key_effects_def)
  moreover have "dir_key ?dir = None"
    by simp
  ultimately obtain pem where "after_effects 420 ?efs None = Some (pem, private_mode)"
      "ag_keypair a1 = generate toy_crypto ''1'' [1]" "ag_keypair a2 = generate toy_crypto ''1'' [2]"
    using key_file_race [OF toy_crypto_ok(2) _ a, of ?efs 420] by blast
  moreover have "generate toy_crypto ''1'' [1] \<noteq> generate toy_crypto ''1'' [2]"
    by (simp add: generate_def toy_crypto_def)
  ultimately show ?thesis
    using a by (intro exI [of _ a1] exI [of _ a2] exI [of _ pem]) (simp only: simp_thms)
qed

end
