(* ===== verification/Atf_Workers.thy ===== *)
theory Atf_Workers
  imports Atf_Wire_Claims
begin

text \<open>
  Two server processes for one agent: the same key and peers, one \<open>audit.sqlite\<close>. Within a process no
  \<open>await\<close> separates the check of a token (\<open>invoke_check\<close>) from the record of its start
  (\<open>invoke_start\<close>); between two processes nothing orders them.
\<close>

lemma invoke_check_Reply:
  "invoke_check C hs a hdr raw t = (a', Reply (cl, body, spec)) \<longleftrightarrow>
     (\<exists>token. read_invoke hs hdr raw = Reply (token, body, spec)
        \<and> verify_delegation C a token (hs_capability spec) (fst t) (snd t) = (a, Inr cl) \<and> a' = a)"
proof (cases "read_invoke hs hdr raw")
  case (Reply x)
  then obtain token body' spec' where rd: "read_invoke hs hdr raw = Reply (token, body', spec')"
    by (cases x) auto
  obtain a1 res where v: "verify_delegation C a token (hs_capability spec') (fst t) (snd t) = (a1, res)"
    by fastforce
  then show ?thesis
    using rd verify_delegation_Inr by (cases res) (fastforce simp: invoke_check_def)+
qed (auto simp: invoke_check_def)

lemma invoke_begin_split:
  "invoke_begin C hs a hdr raw t1 t2 = (a', Reply r) \<longleftrightarrow>
     (\<exists>cl body spec. invoke_check C hs a hdr raw t1 = (a, Reply (cl, body, spec))
        \<and> invoke_start C a cl body spec t2 = (a', Reply r))"
proof -
  have "invoke_start C a cl body spec t2 = (a', Reply r) \<longleftrightarrow>
      journal C a (started_event a cl t2) = Inr a' \<and> start_run body cl spec = Inr r" for cl body spec
    by (auto simp: invoke_start_def split: sum.splits)
  then show ?thesis
    unfolding invoke_begin_Reply invoke_check_Reply by blast
qed

lemma invoke_start_ok:
  assumes "read_invoke hs hdr raw = Reply (token, body, spec)" and "wf_log (ag_log a)" and "tick_ok (ag_log a) t"
  shows "\<exists>row r. invoke_start C a cl body spec t = (set_log (ag_log a @ [row]) a, Reply r) \<and> run_claims r = cl
    \<and> row_event_id row = Some (''evt_'' @ fst t) \<and> journal C a (started_event a cl t) = Inr (set_log (ag_log a @ [row]) a)"
proof -
  let ?ev = "started_event a cl t"
  have "insertable (ag_log a) ?ev"
    unfolding started_event_def by (rule new_event_tick [OF assms(3)])
  then obtain row where row: "journal C a ?ev = Inr (set_log (ag_log a @ [row]) a)"
      "inserts (ag_log a) ?ev (audit_record (event_content ?ev)
         [sign_envelope C (event_content ?ev) (ag_keypair a) (ag_id a)]) False row"
    using journal_ok [OF assms(2), of ?ev C] by blast
  then have "row_event_id row = Some (''evt_'' @ fst t)"
    by (simp add: inserts_def started_event_def)
  then show ?thesis
    using row(1) start_run_ok [OF assms(1), of cl] by (fastforce simp: invoke_start_def)
qed

text \<open>C16: Check then act: a request whose token no process has started yet, sent to two workers that
  both check it before either records the start, starts the token twice. A worker that checks it
  after the record answers 409.\<close>

theorem workers_start_twice:
  assumes "(log_step C)\<^sup>*\<^sup>* [] (ag_log a)" and "invoke_check C hs a hdr raw t1 = (a, Reply (cl, body, spec))"
    and "dc_jti cl = ''tkn_'' @ u" and "tick_ok (ag_log a) t2" and "tick_ok (ag_log a) t3" and "fst t2 \<noteq> fst t3"
  shows "\<exists>a1 r1 a2 r2 a3 msg. invoke_start C a cl body spec t2 = (a1, Reply r1)
    \<and> invoke_start C a1 cl body spec t3 = (a2, Reply r2) \<and> run_claims r1 = cl \<and> run_claims r2 = cl
    \<and> invoke_check C hs a1 hdr raw t3 = (a3, HttpError 409 msg)"
proof -
  have wf: "wf_log (ag_log a)"
    using log_steps_wf [OF assms(1)] by simp
  obtain token where rd: "read_invoke hs hdr raw = Reply (token, body, spec)"
    and v: "verify_delegation C a token (hs_capability spec) (fst t1) (snd t1) = (a, Inr cl)"
    using assms(2) by (auto simp: invoke_check_Reply)
  obtain row1 r1 where r1: "invoke_start C a cl body spec t2 = (set_log (ag_log a @ [row1]) a, Reply r1)"
      "run_claims r1 = cl" "row_event_id row1 = Some (''evt_'' @ fst t2)"
      "journal C a (started_event a cl t2) = Inr (set_log (ag_log a @ [row1]) a)"
    using invoke_start_ok [OF rd wf assms(4)] by blast
  let ?a1 = "set_log (ag_log a @ [row1]) a"
  have t3: "tick_ok (ag_log ?a1) t3"
    using assms(5,6) r1(3) by (auto simp: tick_ok_def)
  obtain p i and pr :: peer_record and j where p: "peek_payload token = Inr p" "py_index p ''iss'' = Inr (JStr i)"
      "ag_peers a i = Some pr" "py_index p ''jti'' = Inr j" "dc_jti cl = py_str j"
      "verify_token C token (pr_public_key pr) (ag_id a) (Some (hs_capability spec)) (Some (pr_manifest_content pr)) (snd t1) = Inr cl"
    using verify_delegation_claims [OF v] by blast
  have wf1: "wf_log (ag_log ?a1)"
    using log_step_wf [OF journal_step [OF r1(4) started_event_normal [OF p(6)]] wf] .
  obtain row2 r2 where r2: "invoke_start C ?a1 cl body spec t3 = (set_log (ag_log ?a1 @ [row2]) ?a1, Reply r2)"
      "run_claims r2 = cl"
    using invoke_start_ok [OF rd wf1 t3] by blast
  have j: "j = JStr (''tkn_'' @ u)"
    using py_str_tkn p(5) assms(3) by metis
  have "log_uses (ag_log ?a1) (JStr (''tkn_'' @ u))"
    using started_journal [OF r1(4) started_event_normal [OF p(6)]] assms(3) by (simp add: log_started_def)
  then obtain row3 msg where "verify_delegation C ?a1 token (hs_capability spec) (fst t3) (snd t3)
      = (set_log (ag_log ?a1 @ [row3]) ?a1, Inl (Exn TokenReplay msg))"
    using verify_delegation_used [OF wf1 _ t3 p(1,2) _ p(4) [unfolded j], of pr] p(3) by fastforce
  then have "\<exists>a3 msg. invoke_check C hs ?a1 hdr raw t3 = (a3, HttpError 409 msg)"
    using rd delegation_refusal_status [of TokenReplay msg] by (auto simp: invoke_check_def refusal_status_def)
  then show ?thesis
    using r1(1,2) r2 by blast
qed

lemma workers_start_twice_witness:
  "\<exists>token cl body spec a1 r1 a2 r2.
      invoke_check toy_crypto toy_handlers (toy_agent []) (Some token) toy_request (''2'', 130)
        = (toy_agent [], Reply (cl, body, spec))
    \<and> invoke_start toy_crypto (toy_agent []) cl body spec (''3'', 130) = (a1, Reply r1)
    \<and> invoke_start toy_crypto a1 cl body spec (''4'', 130) = (a2, Reply r2) \<and> run_claims r1 = run_claims r2"
proof -
  obtain token row r where b: "invoke_begin toy_crypto toy_handlers (toy_agent []) (Some token) toy_request (''2'', 130) (''3'', 130)
      = (set_log [row] (toy_agent []), Reply r)" "dc_jti (run_claims r) = ''tkn_'' @ ''0''"
    using toy_start by (elim exE conjE) simp
  obtain cl body spec where c: "invoke_check toy_crypto toy_handlers (toy_agent []) (Some token) toy_request (''2'', 130)
      = (toy_agent [], Reply (cl, body, spec))"
      "invoke_start toy_crypto (toy_agent []) cl body spec (''3'', 130) = (set_log [row] (toy_agent []), Reply r)"
    using b(1) by (auto simp: invoke_begin_split)
  obtain tok where rd: "read_invoke toy_handlers (Some token) toy_request = Reply (tok, body, spec)"
    using c(1) by (auto simp: invoke_check_Reply)
  have log: "(log_step toy_crypto)\<^sup>*\<^sup>* [] (ag_log (toy_agent []))"
    by simp
  have "run_claims r = cl"
    using c(2) start_run_ok [OF rd, of cl] by (auto simp: invoke_start_def split: sum.splits)
  then have jti: "dc_jti cl = ''tkn_'' @ ''0''"
    using b(2) by simp
  have t: "tick_ok (ag_log (toy_agent [])) (''3'', 130)" "tick_ok (ag_log (toy_agent [])) (''4'', 130)"
      "fst (''3'', 130 :: int) \<noteq> fst (''4'', 130 :: int)"
    by (simp_all add: toy_tick)
  from workers_start_twice [OF log c(1) jti t] c(1) show ?thesis
    by (elim exE conjE) (intro exI conjI, (assumption | simp)+)
qed

end
