(* ===== verification/Atf_Separation.thy ===== *)
theory Atf_Separation
  imports Atf_Agent_Claims
begin

text \<open>
  One key signs four kinds of message without a tag that names the kind: compact tokens, and the
  canonical bytes of outcomes, manifests and audit events. A signature of one kind is never taken
  for another: a token's signing input is no JSON object, the first four letters of an object's
  first key are no base64url of JSON text, and each reader asks for a key only its own kind has.
\<close>

section \<open>Tokens and objects\<close>

lemma rstrip_pad_Cons: "c \<noteq> CHR ''='' \<Longrightarrow> rstrip_pad (c # s) = c # rstrip_pad s"
  by (cases "\<forall>x \<in> set s. x = CHR ''=''") (auto simp: rstrip_pad_def dropWhile_append)

lemma of_char_e: "(of_char (CHR ''e'') :: nat) = 101"
  by simp

lemma prefix_before: "x \<notin> set q \<Longrightarrow> hb @ x # pb = q @ t \<Longrightarrow> \<exists>us. hb = q @ us"
  by (auto simp: append_eq_append_conv2 append_eq_Cons_conv Cons_eq_append_conv)

lemma token_message_head: "\<exists>bs. token_message kp payload = 101 # bs"
proof -
  obtain bs where "canonical_json (jws_header kp) = 123 # 34 # 97 # bs"
    by (simp add: canonical_json_def dumps_def jws_header_def quote_def utf8_encode_def utf8_char_def escape_char_def)
  moreover have "char_of (101 :: nat) = CHR ''e''"
    by (metis (no_types) char_of_char of_char_e)
  ultimately have "\<exists>s. b64url_encode (canonical_json (jws_header kp)) = CHR ''e'' # s"
    by (simp add: b64url_encode_def b64_char_def rstrip_pad_Cons)
  then show ?thesis
    by (auto simp: token_message_def utf8_encode_def utf8_char_def)
qed

text \<open>Objects whose first key, in order, begins with letters that decode to no text.\<close>

definition undecodable :: "string \<Rightarrow> bool" where
  "undecodable k \<longleftrightarrow> take 4 k \<in> {''agen'', ''dele'', ''exec''}"

lemma quad_undecodable:
  assumes "undecodable q" and "length q = 4" and "b64url_decode (CHR 0x7B # CHR 0x22 # q @ t) = Inr bs"
  shows "\<exists>e. loads_bytes bs = Inl e"
proof -
  have "\<exists>b c d rest. bs = b # c # d # rest \<and> [b, c, d] \<in> {[0x6A, 0x07, 0xA7], [0x75, 0xE9, 0x5E], [0x7B, 0x17, 0x9C]}"
    using assms by (auto simp: undecodable_def b64url_decode_def urlsafe_b64decode_def b64_val_def Let_def split: if_splits)
  then show ?thesis
    by (auto simp: loads_bytes_def)
qed

text \<open>The text of an object begins with its first key in quotes.\<close>

definition first_key :: "json \<Rightarrow> string \<Rightarrow> bool" where
  "first_key v k \<longleftrightarrow> (\<exists>x kvs. sort_json v = JDict ((k, x) # kvs))"

lemma dumps_first_key:
  assumes "first_key v k" and "4 \<le> length k" and "undecodable k"
  shows "\<exists>t. dumps False v = CHR 0x7B # CHR 0x22 # take 4 k @ t"
proof -
  obtain x kvs where v: "sort_json v = JDict ((k, x) # kvs)"
    using assms(1) by (auto simp: first_key_def)
  have "concat (map (escape_char False) (take 4 k)) = take 4 k"
    using assms(3) by (auto simp: undecodable_def escape_char_def)
  then have "concat (map (escape_char False) k) = take 4 k @ concat (map (escape_char False) (drop 4 k))"
    by (metis append_take_drop_id concat_append map_append)
  then show ?thesis
    by (cases kvs) (simp_all add: dumps_def v quote_def)
qed

lemma object_not_token: "canonical_json (JDict kvs) \<noteq> token_message kp payload"
  using token_message_head [of kp payload]
  by (auto simp: canonical_json_def dumps_def utf8_encode_def utf8_char_def)

lemma object_message:
  assumes "first_key v k" and "4 \<le> length k" and "undecodable k"
  shows "\<not> token_states (canonical_json v) c"
proof -
  obtain t where t: "dumps False v = CHR 0x7B # CHR 0x22 # take 4 k @ t"
    using dumps_first_key [OF assms] by blast
  show "\<not> token_states (canonical_json v) c"
  proof
    assume "token_states (canonical_json v) c"
    then obtain hb pb where h: "CHR ''.'' \<notin> set hb" "dumps False v = hb @ ''.'' @ pb"
        "bind_res (b64url_decode hb) loads_bytes = Inr (fst c)"
      unfolding token_states_def canonical_json_def using utf8_encode_inj by blast
    let ?q = "CHR 0x7B # CHR 0x22 # take 4 k"
    have "CHR ''.'' \<notin> set ?q"
      using assms(3) by (auto simp: undecodable_def)
    then obtain us where "hb = ?q @ us"
      using prefix_before [of _ ?q hb pb t] h(2) t by auto
    moreover have "undecodable (take 4 k)" "length (take 4 k) = 4"
      using assms(2,3) by (simp_all add: undecodable_def)
    ultimately show False
      using quad_undecodable [of "take 4 k" us] h(3) by fastforce
  qed
qed

section \<open>The kinds of object\<close>

definition keys_of :: "json \<Rightarrow> string set" where
  "keys_of v = (case v of JDict kvs \<Rightarrow> fst ` set kvs | _ \<Rightarrow> {})"

lemma keys_of_sort [simp]: "keys_of (sort_json v) = keys_of v"
  by (cases v) (force simp: keys_of_def)+

lemma same_keys: "sort_json v = sort_json w \<Longrightarrow> keys_of v = keys_of w"
  using keys_of_sort by metis

lemma py_index_key: "py_index v k = Inr x \<Longrightarrow> k \<in> keys_of v"
  by (force simp: py_index_Inr keys_of_def dest!: map_of_SomeD)

text \<open>A key that one kind has and the others do not.\<close>

lemma kind_keys [simp]:
  "''payload_hash'' \<notin> keys_of (manifest_content m)" "''payload_hash'' \<notin> keys_of (event_content ev)"
  "''agent_id'' \<notin> keys_of (outcome_content out)" "''agent_id'' \<notin> keys_of (event_content ev)"
  "''event_id'' \<notin> keys_of (outcome_content out)" "''event_id'' \<notin> keys_of (manifest_content m)"
  by (simp_all add: keys_of_def manifest_content_def event_content_def outcome_content_def)

lemma first_keys:
  "first_key (outcome_content out) ''executed_at''" "first_key (manifest_content m) ''agent_id''"
  "first_key (event_content ev) ''delegatee_id''"
  by (simp_all add: first_key_def outcome_content_def manifest_content_def event_content_def)

lemma undecodable_keys [simp]: "undecodable ''executed_at''" "undecodable ''agent_id''" "undecodable ''delegatee_id''"
  by (simp_all add: undecodable_def)

lemma objects_no_token:
  "\<not> token_states (canonical_json (outcome_content out)) c" "\<not> token_states (canonical_json (manifest_content m)) c"
  "\<not> token_states (canonical_json (event_content ev)) c"
  by (rule object_message [OF first_keys(1)] object_message [OF first_keys(2)] object_message [OF first_keys(3)]; simp)+

text \<open>Everything one key pair signs.\<close>

definition signed_messages ::
  "keypair \<Rightarrow> claims set \<Rightarrow> outcome set \<Rightarrow> manifest set \<Rightarrow> audit_event set \<Rightarrow> bytes set"
where
  "signed_messages kp Ts Os Ms Es = tokens_of kp Ts \<union> (\<lambda>out. canonical_json (outcome_content out)) ` Os
     \<union> (\<lambda>m. canonical_json (manifest_content m)) ` Ms \<union> (\<lambda>ev. canonical_json (event_content ev)) ` Es"

definition sane_signer :: "claims set \<Rightarrow> outcome set \<Rightarrow> manifest set \<Rightarrow> audit_event set \<Rightarrow> bool" where
  "sane_signer Ts Os Ms Es \<longleftrightarrow> (\<forall>c \<in> Ts. normal (claims_dict c)) \<and> (\<forall>x \<in> Os. wf_outcome x)
     \<and> (\<forall>x \<in> Ms. wf_manifest x) \<and> (\<forall>x \<in> Es. normal_event x)"

lemma signed_token_message:
  assumes "m \<in> signed_messages kp Ts Os Ms Es" and "token_states m c"
  shows "m \<in> tokens_of kp Ts"
  using assms objects_no_token unfolding signed_messages_def by blast

lemma signed_object:
  assumes "canonical_json v \<in> signed_messages kp Ts Os Ms Es" and "v = JDict kvs" and "normal v"
    and "sane_signer Ts Os Ms Es"
  shows "(\<exists>x \<in> Os. sort_json v = sort_json (outcome_content x)) \<or> (\<exists>x \<in> Ms. sort_json v = sort_json (manifest_content x))
    \<or> (\<exists>x \<in> Es. sort_json v = sort_json (event_content x))"
proof -
  have "canonical_json v \<notin> tokens_of kp Ts"
    using object_not_token [of kvs] unfolding assms(2) tokens_of_def by blast
  then show ?thesis
    using assms(1,3,4) unfolding signed_messages_def sane_signer_def
    by (auto simp: canonical_json_eq outcome_content_normal manifest_content_normal normal_event_def)
qed

lemma signed_outcome_object:
  assumes "canonical_json v \<in> signed_messages kp Ts Os Ms Es" and "v = JDict kvs" and "normal v"
    and "sane_signer Ts Os Ms Es" and "''payload_hash'' \<in> keys_of v"
  shows "\<exists>x \<in> Os. sort_json v = sort_json (outcome_content x)"
  using signed_object [OF assms(1-4)] assms(5) by (auto dest!: same_keys simp del: sort_json.simps)

lemma signed_manifest_object:
  assumes "canonical_json v \<in> signed_messages kp Ts Os Ms Es" and "v = JDict kvs" and "normal v"
    and "sane_signer Ts Os Ms Es" and "''agent_id'' \<in> keys_of v"
  shows "\<exists>x \<in> Ms. sort_json v = sort_json (manifest_content x)"
  using signed_object [OF assms(1-4)] assms(5) by (auto dest!: same_keys simp del: sort_json.simps)

lemma signed_event_object:
  assumes "canonical_json v \<in> signed_messages kp Ts Os Ms Es" and "v = JDict kvs" and "normal v"
    and "sane_signer Ts Os Ms Es" and "''event_id'' \<in> keys_of v"
  shows "\<exists>x \<in> Es. sort_json v = sort_json (event_content x)"
  using signed_object [OF assms(1-4)] assms(5) by (auto dest!: same_keys simp del: sort_json.simps)

lemma accepted_outcome:
  assumes "verify_outcome C env pk expected = Inr c"
  shows "(\<exists>kvs. c = JDict kvs) \<and> ''payload_hash'' \<in> keys_of c"
proof -
  obtain kvs h where "c = JDict kvs" "map_of kvs ''payload_hash'' = Some h"
    using assms by (auto simp: verify_outcome_iff outcome_complete_def)
  then show ?thesis
    using map_of_SomeD [of kvs "''payload_hash''" h] by (force simp: keys_of_def)
qed

lemma registered_manifest:
  assumes "register_peer C a i jwk (Some pk) env = Inr (p, a')" and "normal env"
  shows "\<exists>c. verify_manifest C env pk = Inr c \<and> pr_manifest_content p = c \<and> ''agent_id'' \<in> keys_of c
    \<and> (\<exists>kvs. c = JDict kvs) \<and> normal c"
proof -
  obtain c d where c: "verify_manifest C env pk = Inr c" "py_index c ''agent_id'' = Inr d" "pr_manifest_content p = c"
    using assms(1) by (auto simp: register_peer_def Let_def split: if_splits)
  moreover have "normal c"
    using c(1) assms(2) normal_member by (auto simp: verify_manifest_iff)
  ultimately show ?thesis
    using py_index_key by (auto simp: py_index_Inr)
qed

section \<open>Properties\<close>

text \<open>C6: Signatures of one kind are worthless as another: if the only messages that verify under a key
  are the tokens, outcomes, manifests and audit events its holder signed, then an accepted token
  carries the claims of one of the tokens, an accepted outcome is one of the outcomes, a peer is
  registered with one of the manifests, and an event is finalized only if it is one of the events,
  each up to the order of keys.\<close>

theorem signatures_separated:
  assumes "signed_only C pk (signed_messages kp Ts Os Ms Es)" and "sane_signer Ts Os Ms Es"
  shows "(\<forall>c. verify_token C token pk expected required manifest now = Inr c \<longrightarrow> c \<in> sort_claims ` Ts)
    \<and> (\<forall>c. normal env \<and> verify_outcome C env pk schema = Inr c
         \<longrightarrow> (\<exists>x \<in> Os. sort_json c = sort_json (outcome_content x)))
    \<and> (\<forall>p a'. normal env \<and> register_peer C a i jwk (Some pk) env = Inr (p, a')
         \<longrightarrow> (\<exists>x \<in> Ms. sort_json (pr_manifest_content p) = sort_json (manifest_content x)))
    \<and> (\<forall>rcd log'. normal_event ev \<and> append_finalized C log ev mine peer pk = Inr (rcd, log')
         \<longrightarrow> (\<exists>x \<in> Es. sort_json (event_content ev) = sort_json (event_content x)))"
proof (intro conjI allI impI; (elim conjE)?)
  have sealed: "m \<in> signed_messages kp Ts Os Ms Es" if "\<exists>sig. ed_verify C pk sig m" for m
    using assms(1) that by (auto simp: signed_only_def)
  fix c
  assume v: "verify_token C token pk expected required manifest now = Inr c"
  then obtain m where m: "\<exists>sig. ed_verify C pk sig m"
      "\<exists>h payload. token_states m (h, payload) \<and> claims_of_payload payload = Inr c"
    using signed_token.accept_vouched [OF v] by blast
  then have "m \<in> tokens_of kp Ts"
    using signed_token_message [OF sealed] by blast
  then obtain x where "x \<in> Ts" "m = token_message kp (claims_dict x)"
    by (auto simp: tokens_of_def)
  then show "c \<in> sort_claims ` Ts"
    using m(2) assms(2) signed_token.message_states [where ?a = x and ?c = c] by (auto simp: sane_signer_def)
next
  fix c
  assume "normal env" and v: "verify_outcome C env pk schema = Inr c"
  then have n: "normal c" "\<exists>kvs. c = JDict kvs" "''payload_hash'' \<in> keys_of c"
    using verify_outcome_normal accepted_outcome by blast+
  have "canonical_json c \<in> signed_messages kp Ts Os Ms Es"
    using assms(1) v envelope_ok_vouched by (fastforce simp: verify_outcome_iff signed_only_def)
  then show "\<exists>x \<in> Os. sort_json c = sort_json (outcome_content x)"
    using signed_outcome_object n assms(2) by blast
next
  fix p a'
  assume "normal env" and "register_peer C a i jwk (Some pk) env = Inr (p, a')"
  then obtain c where c: "verify_manifest C env pk = Inr c" "pr_manifest_content p = c" "''agent_id'' \<in> keys_of c"
      "\<exists>kvs. c = JDict kvs" "normal c"
    using registered_manifest by blast
  have "canonical_json c \<in> signed_messages kp Ts Os Ms Es"
    using assms(1) c(1) envelope_ok_vouched by (fastforce simp: verify_manifest_iff signed_only_def)
  then show "\<exists>x \<in> Ms. sort_json (pr_manifest_content p) = sort_json (manifest_content x)"
    using signed_manifest_object c assms(2) by blast
next
  fix rcd log'
  assume n: "normal_event ev" and "append_finalized C log ev mine peer pk = Inr (rcd, log')"
  then have "canonical_json (event_content ev) \<in> signed_messages kp Ts Os Ms Es"
    using assms(1) envelope_ok_vouched by (fastforce simp: append_finalized_Inr signed_only_def)
  then show "\<exists>x \<in> Es. sort_json (event_content ev) = sort_json (event_content x)"
    using signed_event_object assms(2) n by (fastforce simp: normal_event_def keys_of_def event_content_def)
qed

lemma signatures_separated_witness:
  "sort_claims toy_claims \<in> sort_claims ` {toy_claims}
    \<and> (\<exists>x \<in> {toy_outcome}. sort_json (outcome_content toy_outcome) = sort_json (outcome_content x))"
proof -
  let ?t = "token_message toy_keypair (claims_dict toy_claims)"
  let ?o = "canonical_json (outcome_content toy_outcome)"
  let ?ms = "[?t, ?o, canonical_json (manifest_content toy_manifest), canonical_json (event_content (toy_event ''e'' 5))]"
  let ?C = "toy_sealed ?ms"
  let ?sg = "JDict [(''alg'', JStr ALG), (''value'', JStr (b64url_encode (ed_sign ?C (kp_private toy_keypair) ?o)))]"
  let ?env = "JDict [(''outcome'', outcome_content toy_outcome), (''signature'', ?sg)]"
  have only: "signed_only ?C (kp_private toy_keypair)
      (signed_messages toy_keypair {toy_claims} {toy_outcome} {toy_manifest} {toy_event ''e'' 5})"
    using toy_sealed_only [of ?ms] by (auto simp: signed_messages_def tokens_of_def signed_only_def)
  have "normal (claims_dict toy_claims)"
    unfolding toy_claims_def by (rule issue_claims_normal) simp
  then have sane: "sane_signer {toy_claims} {toy_outcome} {toy_manifest} {toy_event ''e'' 5}"
    by (simp add: sane_signer_def toy_outcome_wf toy_manifest_wf)
  have "ed_verify ?C (kp_private toy_keypair) (ed_sign ?C (kp_private toy_keypair) ?t) ?t"
    by (rule toy_sealed_verify) simp
  note token = toy_token_accepted [OF this]
  have "ed_verify ?C (kp_private toy_keypair) (ed_sign ?C (kp_private toy_keypair) ?o) ?o"
    by (rule toy_sealed_verify) simp
  then have "envelope_ok ?C (kp_private toy_keypair) ?sg ?o"
    by (simp add: envelope_ok_def b64url_inverse)
  then have "verify_outcome ?C ?env (kp_private toy_keypair) None = Inr (outcome_content toy_outcome)"
    using outcome_content_complete [of None toy_outcome] by (simp add: verify_outcome_iff)
  moreover have "normal ?env"
    by (simp add: outcome_content_normal toy_outcome_wf)
  ultimately show ?thesis
    using signatures_separated [OF only sane, THEN conjunct1] token
      signatures_separated [OF only sane, THEN conjunct2, THEN conjunct1] by blast
qed

end
