(* ===== verification/Atf_Faults.thy ===== *)
theory Atf_Faults
  imports Atf_Exchange
begin

text \<open>
  Messages that get lost: the request, the reply (or the client's patience, ten seconds), the push of
  the delegator's signature. What each leaves on the two sides, and what a retry does.
\<close>

lemma invoke_consumes:
  assumes "wf_log (ag_log b)" and "invoke C hs b hdr raw t1 t2 now t3 = (b1, Reply v)"
  shows "\<exists>token body spec cl. read_invoke hs hdr raw = Reply (token, body, spec)
    \<and> verify_delegation C b token (hs_capability spec) (fst t1) (snd t1) = (b, Inr cl)
    \<and> log_uses (ag_log b1) (JStr (dc_jti cl)) \<and> wf_log (ag_log b1) \<and> log_le (ag_log b) (ag_log b1)
    \<and> ag_peers b1 = ag_peers b \<and> ag_id b1 = ag_id b
    \<and> length (ag_log b1) = length (ag_log b) + 2
    \<and> pending_peer_count (ag_log b1) = Suc (pending_peer_count (ag_log b))"
proof -
  obtain bm r where b: "invoke_begin C hs b hdr raw t1 t2 = (bm, Reply r)"
    and f: "invoke_finish C bm r (hs_handler (run_spec r) (run_params r)) now t3 = (b1, Reply v)"
    using assms(2) by (auto simp: invoke_Reply)
  obtain token body spec cl where s: "read_invoke hs hdr raw = Reply (token, body, spec)"
      "verify_delegation C b token (hs_capability spec) (fst t1) (snd t1) = (b, Inr cl)"
      "journal C b (started_event b cl t2) = Inr bm" "start_run body cl spec = Inr r"
    using b by (auto simp: invoke_begin_Reply)
  have cl: "run_claims r = cl"
    using start_run_ok [OF s(1), of cl] s(4) by auto
  obtain pr :: peer_record where v: "verify_token C token (pr_public_key pr) (ag_id b) (Some (hs_capability spec))
      (Some (pr_manifest_content pr)) (snd t1) = Inr cl"
    using verify_delegation_claims [OF s(2)] by blast
  have st1: "log_step C (ag_log b) (ag_log bm)"
    using journal_step [OF s(3) started_event_normal [OF v]] .
  have wfm: "wf_log (ag_log bm)"
    using log_step_wf [OF st1 assms(1)] .
  have n: "normal_claims (run_claims r)"
    using verify_token_normal [OF v] cl by (simp add: normal_claims_def)
  obtain row where row: "b1 = set_log (ag_log bm @ [row]) bm"
    and p: "\<exists>ev sig rcd. append_pending (ag_log bm) ev sig = Inr (rcd, ag_log b1)"
    using invoke_finish_cases [OF f] by auto
  have st2: "log_step C (ag_log bm) (ag_log b1)"
    using invoke_finish_step [OF f n] row by (metis append_self_conv list.distinct(1) set_log_simps(1))
  have le: "log_le (ag_log bm) (ag_log b1)"
    using log_step_le [OF st2 wfm] .
  have uses: "log_uses (ag_log bm) (JStr (dc_jti cl))"
    using started_journal [OF s(3) started_event_normal [OF v]] by (simp add: log_started_def)
  obtain row0 where row0: "bm = set_log (ag_log b @ [row0]) b" "\<not> row_pending row0"
    using s(3) by (auto simp: journal_Inr inserts_def)
  have "pending_peer_count (ag_log b1) = Suc (pending_peer_count (ag_log b))"
    using p pending_append row0 by (auto simp: pending_peer_count_def)
  then show ?thesis
    using s(1,2) log_uses_mono [OF le uses] log_step_wf [OF st2 wfm] log_le_trans [OF log_step_le [OF st1 assms(1)] le]
      row row0 by (intro exI conjI) (assumption | simp)+
qed

lemma used_token_refused:
  assumes "read_invoke hs hdr raw = Reply (token, body, spec)" and "wf_log (ag_log b)"
    and "log_uses (ag_log b) (JStr j)" and "tick_ok (ag_log b) t1" and "peek_payload token = Inr p"
    and "py_index p ''iss'' = Inr (JStr i)" and "ag_peers b i = Some pr" and "py_index p ''jti'' = Inr (JStr j)"
  shows "\<exists>row msg. invoke C hs b hdr raw t1 t2 now t3 = (set_log (ag_log b @ [row]) b, HttpError 409 msg)
    \<and> row_type row = ''delegation.replay_attempt'' \<and> \<not> row_pending row
    \<and> row_token_jti row = Some j \<and> row_event_id row = Some (''evt_'' @ fst t1) \<and> log_step C (ag_log b) (ag_log b @ [row])"
proof -
  obtain row msg where v: "verify_delegation C b token (hs_capability spec) (fst t1) (snd t1)
      = (set_log (ag_log b @ [row]) b, Inl (Exn TokenReplay msg))" "row_type row = ''delegation.replay_attempt''"
      "\<not> row_pending row" "row_token_jti row = Some j" "row_event_id row = Some (''evt_'' @ fst t1)"
    using verify_delegation_used [OF assms(2-8)] by blast
  have step: "log_step C (ag_log b) (ag_log b @ [row])"
    using verify_delegation_step [OF v(1)] journal_step by (fastforce simp: set_log_def dest: arg_cong [of _ _ ag_log])
  obtain detail where "(delegation_refusal (Exn TokenReplay msg) :: run http) = HttpError 409 detail"
    using delegation_refusal_status [of TokenReplay msg] by (auto simp: refusal_status_def)
  then show ?thesis
    using invoke_begin_refuses [OF assms(1) v(1), of t2] v(2-) step
    by (intro exI [of _ row] exI [of _ detail]) (simp add: invoke_def)
qed

lemma client_refused:
  assumes "client_request token payload = Inr (p, body)"
    and "invoke C hs b (Some token) (send body) (xt_verify ts) (xt_started ts) (xt_outcome ts) (xt_completed ts)
      = (b', HttpError 409 detail)"
  shows "client_invoke C send hs a b token payload expected d cosign ts
    = (a, b', Inl (Exn ATFError (''invoke failed 409: '' @ detail)))"
proof -
  have "nat_str 409 = ''409''"
    by code_simp
  then show ?thesis
    using assms by (simp add: client_invoke_def lossy_invoke_def client_response_def deliver_def raise_def)
qed

section \<open>Properties\<close>

text \<open>C14: What a lost message leaves behind, beside the call in which nothing is lost. A lost request
  changes neither side. A lost reply leaves the delegator without a record and the delegatee with a
  pending event and a used token: repeating the call fails with 409 and only adds the evidence of a
  replay, so the outcome cannot be fetched any more. A lost push
  gives the delegator the same reply and log as without the loss, while the delegatee's event stays
  pending.\<close>

theorem lost_messages:
  assumes "(log_step C)\<^sup>*\<^sup>* [] (ag_log b)" and "client_request token payload = Inr (p, body)"
    and "py_index p ''jti'' = Inr (JStr (''tkn_'' @ u))"
    and "invoke C hs b (Some token) (send body) (xt_verify ts) (xt_started ts) (xt_outcome ts) (xt_completed ts)
      = (b1, Reply v)"
    and "client_invoke C send hs a b token payload expected d True ts = (a2, b2, Inr resp)"
    and "tick_ok (ag_log b1) (xt_verify ts')"
  shows "lossy_invoke C send hs RequestLost f a b token payload expected d True ts = (a, b, transport_error)
    \<and> lossy_invoke C send hs ReplyLost f a b token payload expected d True ts = (a, b1, transport_error)
    \<and> lossy_invoke C send hs Arrives RequestLost a b token payload expected d True ts = (a2, b1, Inr resp)
    \<and> pending_peer_count (ag_log b1) = Suc (pending_peer_count (ag_log b))
    \<and> (\<exists>b3 detail. client_invoke C send hs a b1 token payload expected d True ts'
           = (a, b3, Inl (Exn ATFError (''invoke failed 409: '' @ detail)))
         \<and> pending_peer_count (ag_log b3) = Suc (pending_peer_count (ag_log b))
         \<and> (\<exists>row. ag_log b3 = ag_log b1 @ [row] \<and> row_type row = ''delegation.replay_attempt''))"
proof -
  have wf: "wf_log (ag_log b)"
    using log_steps_wf [OF assms(1)] by simp
  obtain token' body' spec cl where s: "read_invoke hs (Some token) (send body) = Reply (token', body', spec)"
      "verify_delegation C b token' (hs_capability spec) (fst (xt_verify ts)) (snd (xt_verify ts)) = (b, Inr cl)"
    and b1: "log_uses (ag_log b1) (JStr (dc_jti cl))" "wf_log (ag_log b1)" "ag_peers b1 = ag_peers b"
      "pending_peer_count (ag_log b1) = Suc (pending_peer_count (ag_log b))"
    using invoke_consumes [OF wf assms(4)] by blast
  have tok: "token' = token"
    using s(1) by (auto simp: read_invoke_Reply)
  have peek: "peek_payload token = Inr p"
    using assms(2) by (auto simp: client_request_def)
  obtain i and pr :: peer_record where i: "py_index p ''iss'' = Inr (JStr i)" "ag_peers b i = Some pr"
      "dc_jti cl = py_str (JStr (''tkn_'' @ u))"
    using verify_delegation_claims [OF s(2)] peek assms(3) unfolding tok by auto
  have uses: "log_uses (ag_log b1) (JStr (''tkn_'' @ u))"
    using b1(1) i(3) by simp
  have peer: "ag_peers b1 i = Some pr"
    using i(2) b1(3) by simp
  obtain row detail where ref: "invoke C hs b1 (Some token) (send body) (xt_verify ts') (xt_started ts') (xt_outcome ts')
        (xt_completed ts') = (set_log (ag_log b1 @ [row]) b1, HttpError 409 detail)"
      "row_type row = ''delegation.replay_attempt''" "\<not> row_pending row"
    using used_token_refused [OF s(1) [unfolded tok] b1(2) uses assms(6) peek i(1) peer assms(3)] by blast
  have "pending_peer_count (ag_log (set_log (ag_log b1 @ [row]) b1)) = Suc (pending_peer_count (ag_log b))"
    using b1(4) ref(3) by (simp add: pending_peer_count_def)
  moreover have "lossy_invoke C send hs RequestLost f a b token payload expected d True ts = (a, b, transport_error)"
      "lossy_invoke C send hs ReplyLost f a b token payload expected d True ts = (a, b1, transport_error)"
    using assms(2,4) by (simp_all add: lossy_invoke_def)
  moreover have "lossy_invoke C send hs Arrives RequestLost a b token payload expected d True ts = (a2, b1, Inr resp)"
    using assms(2,4,5) by (auto simp: lossy_invoke_def client_invoke_def split: prod.splits sum.splits option.splits)
  ultimately show ?thesis
    using client_refused [where send = send, OF assms(2) ref(1), of a expected d True] ref(2) b1(4) by auto
qed

lemma toy_verified:
  "\<exists>token r cl. issue_delegation toy_crypto toy_delegator (ag_id (toy_agent [])) [''code.write.python''] ''p'' None 60 100 ''0'' ''1'' 100
      = Inr (token, set_log [r] toy_delegator) \<and> row_event_id r = Some ''evt_1''
    \<and> verify_delegation toy_crypto (toy_agent []) token (hs_capability toy_spec) ''2'' 130 = (toy_agent [], Inr cl)
    \<and> dc_jti cl = ''tkn_'' @ ''0'' \<and> log_step toy_crypto [] [r]"
proof -
  obtain token r where t: "issue_delegation toy_crypto toy_delegator (ag_id (toy_agent [])) [''code.write.python''] ''p'' None 60 100 ''0'' ''1'' 100
      = Inr (token, set_log [r] toy_delegator)" "row_event_id r = Some ''evt_1''"
    using toy_delegation by blast
  have wf: "wf_keypair toy_crypto (ag_keypair toy_delegator)"
    by (simp add: toy_keypair_wf)
  have log: "(log_step toy_crypto)\<^sup>*\<^sup>* [] (ag_log (toy_agent []))"
    by simp
  have peer: "ag_peers (toy_agent []) (ag_id toy_delegator) = Some toy_peer"
    by simp
  have pk: "pr_public_key toy_peer = kp_public (ag_keypair toy_delegator)" "proper_manifest (pr_manifest_content toy_peer)"
    by (simp_all add: toy_peer_def)
  have man: "own_manifest_content toy_delegator = Inr (pr_manifest_content toy_peer)"
    by (simp add: toy_peer_def)
  have fresh: "\<not> log_uses (ag_log (toy_agent [])) (JStr (''tkn_'' @ ''0''))"
    by (simp add: log_uses_def)
  have window: "(100 :: int) \<le> 130" "(130 :: int) < 100 + 60"
    by simp_all
  have scope: "''code.write.python'' \<in> set [''code.write.python'']" "covers ''code.write.python'' (hs_capability toy_spec)"
    by (simp_all add: covers_def toy_spec_def)
  note issued_delegation_accepted [OF toy_crypto_ok(1) wf disjI1 [OF refl] t(1) log peer pk toy_delegator_simps(4) man fresh window scope, of "''2''"]
  then show ?thesis
    using t issue_delegation_step(1) [OF t(1)] by auto
qed

lemma toy_ticks:
  "tick_ok [] (''3'', 130)" "tick_ok [] (''4'', 132)" "fst (''4'', 132 :: int) \<noteq> fst (''3'', 130 :: int)"
  "row_event_id r = Some ''evt_1'' \<Longrightarrow> tick_ok [r] (''4'', 132)"
  by (simp_all add: tick_ok_def)

definition toy_times :: exchange_ticks where
  "toy_times = \<lparr>xt_verify = (''2'', 130), xt_started = (''3'', 130), xt_outcome = 131, xt_completed = (''4'', 132),
     xt_client = (''5'', 133)\<rparr>"

lemma toy_times_simps [simp]:
  "xt_verify toy_times = (''2'', 130)" "xt_started toy_times = (''3'', 130)" "xt_completed toy_times = (''4'', 132)"
  by (simp_all add: toy_times_def)

lemma toy_call:
  "\<exists>token p body b1 v a a2 b2 resp. client_request token (JDict [(''action'', JStr ''run'')]) = Inr (p, body)
    \<and> py_index p ''jti'' = Inr (JStr (''tkn_'' @ ''0''))
    \<and> invoke toy_crypto toy_handlers (toy_agent []) (Some token) (utf8_encode (render True body)) (xt_verify toy_times)
        (xt_started toy_times) (xt_outcome toy_times) (xt_completed toy_times) = (b1, Reply v)
    \<and> client_invoke toy_crypto (\<lambda>v. utf8_encode (render True v)) toy_handlers a (toy_agent []) token
        (JDict [(''action'', JStr ''run'')]) None (ag_id (toy_agent [])) True toy_times = (a2, b2, Inr resp)"
proof -
  let ?b = "toy_agent []" and ?send = "\<lambda>v. utf8_encode (render True v)" and ?pay = "[(''action'', JStr ''run'')]"
  obtain token r cl where t: "row_event_id r = Some ''evt_1''" "log_step toy_crypto [] [r]"
      "verify_delegation toy_crypto ?b token (hs_capability toy_spec) ''2'' 130 = (?b, Inr cl)" "dc_jti cl = ''tkn_'' @ ''0''"
    using toy_verified by (elim exE conjE) simp
  let ?a = "set_log [r] toy_delegator"
  have v: "verify_delegation toy_crypto ?b token (hs_capability toy_spec) (fst (xt_verify toy_times)) (snd (xt_verify toy_times))
      = (?b, Inr cl)"
    using t(3) by simp
  obtain p j where p: "peek_payload token = Inr p" "py_index p ''jti'' = Inr j" "dc_jti cl = py_str j"
    using verify_delegation_claims [OF v] by blast
  have j: "j = JStr (''tkn_'' @ ''0'')"
    using py_str_tkn p(3) t(4) by metis
  have n: "normal (JDict ?pay)"
    by simp
  obtain kvs where req: "client_request token (JDict ?pay) = Inr (p, JDict kvs)" "normal (JDict kvs)"
      "map_of kvs ''payload'' = Some (JDict ?pay)"
    using client_request_ok [OF p(1,2) n] by blast
  have raw: "loads_bytes (?send (JDict kvs)) = Inr (JDict kvs)"
    using req(2) by (rule loads_bytes_render)
  have act: "map_of ?pay ''action'' = Some (JStr ''run'')" "''run'' \<noteq> []" "toy_handlers ''run'' = Some toy_spec"
    by (simp_all add: toy_handlers_def)
  have ticks: "tick_ok (ag_log ?b) (xt_started toy_times)" "tick_ok (ag_log ?b) (xt_completed toy_times)"
      "fst (xt_completed toy_times) \<noteq> fst (xt_started toy_times)" "tick_ok (ag_log ?a) (xt_completed toy_times)"
    using toy_ticks t(1) by simp_all
  have wf: "wf_log (ag_log ?b)" "wf_log (ag_log ?a)"
    using log_step_wf [OF t(2)] by simp_all
  obtain b1 reply where inv: "invoke toy_crypto toy_handlers ?b (Some token) (?send (JDict kvs)) (xt_verify toy_times)
      (xt_started toy_times) (xt_outcome toy_times) (xt_completed toy_times) = (b1, Reply reply)"
    using invoke_runs [where hs = toy_handlers and now = "xt_outcome toy_times",
        OF v wf(1) ticks(1) peek_not_Nil [OF p(1)] raw req(3) act ticks(2,3) toy_handlers_normal] by blast
  obtain pb where pb: "ag_peers toy_delegator (ag_id ?b) = Some pb" "pr_public_key pb = kp_public (ag_keypair ?b)"
    using toy_delegator_simps(6) by (auto simp del: toy_delegator_simps(6))
  have "\<exists>a2 b2 resp c sa sb. client_invoke toy_crypto ?send toy_handlers ?a ?b token (JDict ?pay) None (ag_id ?b) True toy_times
      = (a2, b2, Inr resp)
    \<and> get_event (ag_log a2) (JStr (''evt_'' @ fst (xt_completed toy_times))) = Inr (Some (audit_record c [sa, sb]))
    \<and> get_event (ag_log b2) (JStr (''evt_'' @ fst (xt_completed toy_times))) = Inr (Some (audit_record c [sb, sa]))
    \<and> (\<forall>sigs \<in> {[sa, sb], [sb, sa]}. verify_record_signatures toy_crypto (audit_record c sigs)
         [ag_id ?a \<mapsto> kp_public (ag_keypair ?a), ag_id ?b \<mapsto> kp_public (ag_keypair ?b)] = Inr ())
    \<and> pending_peer_count (ag_log b2) = pending_peer_count (ag_log ?b)"
    by (rule exchange_completes [where pa = toy_peer and pb = pb and spec = toy_spec and cl = cl and action = "''run''",
          OF toy_crypto_ok(1) faithful_render toy_handlers_normal _ _ _ wf(2,1) _ _ _ pb(2) v n act _ ticks])
      (use pb(1) toy_keypair_wf toy_keypair_2_wf toy_agent_id(1) [of "[]"] in \<open>simp_all add: toy_peer_def\<close>)
  then show ?thesis
    using req(1) p(2) inv unfolding j by blast
qed

lemma lost_messages_witness:
  "\<exists>token a b1. lossy_invoke toy_crypto (\<lambda>v. utf8_encode (render True v)) toy_handlers ReplyLost Arrives a (toy_agent []) token
        (JDict [(''action'', JStr ''run'')]) None (ag_id (toy_agent [])) True toy_times = (a, b1, transport_error)
    \<and> pending_peer_count (ag_log b1) = 1"
proof -
  obtain token p body b1 v a a2 b2 resp where c: "client_request token (JDict [(''action'', JStr ''run'')]) = Inr (p, body)"
      "py_index p ''jti'' = Inr (JStr (''tkn_'' @ ''0''))"
      "invoke toy_crypto toy_handlers (toy_agent []) (Some token) (utf8_encode (render True body)) (xt_verify toy_times)
        (xt_started toy_times) (xt_outcome toy_times) (xt_completed toy_times) = (b1, Reply v)"
      "client_invoke toy_crypto (\<lambda>v. utf8_encode (render True v)) toy_handlers a (toy_agent []) token
        (JDict [(''action'', JStr ''run'')]) None (ag_id (toy_agent [])) True toy_times = (a2, b2, Inr resp)"
    using toy_call by (elim exE conjE)
  obtain t where t: "tick_ok (ag_log b1) (xt_verify (toy_times\<lparr>xt_verify := t\<rparr>))"
    using fresh_tick [of "ag_log b1"] by auto
  have log: "(log_step toy_crypto)\<^sup>*\<^sup>* [] (ag_log (toy_agent []))"
    by simp
  note l = lost_messages [where send = "\<lambda>v. utf8_encode (render True v)", OF log c t]
  have "pending_peer_count (ag_log b1) = 1"
    using l by (simp add: pending_peer_count_def)
  then show ?thesis
    using l by blast
qed

end
