(* ===== verification/Atf_App.thy ===== *)
theory Atf_App
  imports Atf_Faults
begin

text \<open>
  The application \<open>build_app\<close> returns: which endpoint answers which request, and traffic as a
  sequence of requests. Requests to other routes are the framework's (\<open>404\<close>, \<open>405\<close>, its
  documentation pages): a parameter that sees the request and not the agent.
\<close>

section \<open>Routes\<close>

record request =
  rq_method :: string
  rq_path :: string
  rq_token :: "string option"
  rq_body :: bytes

record request_ticks =
  qt_verify :: tick
  qt_started :: tick
  qt_outcome :: int
  qt_completed :: tick

definition build_app ::
  "crypto \<Rightarrow> handlers \<Rightarrow> (request \<Rightarrow> json http) \<Rightarrow> agent \<Rightarrow> request \<Rightarrow> request_ticks \<Rightarrow> agent \<times> json http"
where
  "build_app C handlers framework a rq ts =
     (if rq_method rq = ''GET'' \<and> rq_path rq = ''/.well-known/atf/jwks.json'' then (a, serve_jwks a)
      else if rq_method rq = ''GET'' \<and> rq_path rq = ''/.well-known/atf/manifest.json'' then (a, serve_manifest a)
      else if rq_method rq = ''POST'' \<and> rq_path rq = ''/atf/v1/invoke'' then
        invoke C handlers a (rq_token rq) (rq_body rq) (qt_verify ts) (qt_started ts) (qt_outcome ts) (qt_completed ts)
      else if rq_method rq = ''POST'' \<and> rq_path rq = ''/atf/v1/audit/cosign'' then audit_cosign C a (rq_body rq)
      else if rq_method rq = ''GET'' \<and> rq_path rq = ''/atf/v1/audit/events'' then (a, audit_events a)
      else (a, framework rq))"

text \<open>Requests one after the other, each with its answer.\<close>

fun serve_all ::
  "crypto \<Rightarrow> handlers \<Rightarrow> (request \<Rightarrow> json http) \<Rightarrow> agent \<Rightarrow> (request \<times> request_ticks) list
    \<Rightarrow> agent \<times> (request \<times> json http) list"
where
  "serve_all C hs fw a [] = (a, [])"
| "serve_all C hs fw a ((rq, ts) # rest) =
     (let (a1, answer) = build_app C hs fw a rq ts;
          (a2, answers) = serve_all C hs fw a1 rest
      in (a2, (rq, answer) # answers))"

definition is_invoke :: "request \<Rightarrow> bool" where
  "is_invoke rq \<longleftrightarrow> rq_method rq = ''POST'' \<and> rq_path rq = ''/atf/v1/invoke''"

text \<open>The token id in the outcome of an answer.\<close>

definition answered_token :: "json http \<Rightarrow> json option" where
  "answered_token answer =
     (case answer of
        Reply v \<Rightarrow>
          (case bind_res (bind_res (py_index v ''outcome'') (\<lambda>env. py_index env ''outcome'')) (\<lambda>c. py_index c ''token_jti'') of
             Inr j \<Rightarrow> Some j
           | Inl _ \<Rightarrow> None)
      | _ \<Rightarrow> None)"

section \<open>Requests as steps of the server\<close>

lemma invoke_reply_token: "answered_token (Reply (invoke_reply rid (run_outcome C a r result now) ev sig))
    = Some (JStr (dc_jti (run_claims r)))"
  by (simp add: answered_token_def invoke_reply_def run_outcome_def make_outcome_def sign_outcome_def outcome_content_def
      Let_def split_beta)

lemma invoke_steps:
  assumes "invoke C hs a hdr raw t1 t2 now t3 = (a', x)"
  shows "\<exists>h'. (serve_step C hs)\<^sup>*\<^sup>* (Server a [] h) (Server a' [] (h' @ h))
    \<and> (\<forall>j. answered_token x = Some j \<longrightarrow> (\<exists>cl. h' = [cl] \<and> j = JStr (dc_jti cl)))"
proof (cases "\<exists>r. snd (invoke_begin C hs a hdr raw t1 t2) = Reply r")
  case True
  then obtain a1 r where b: "invoke_begin C hs a hdr raw t1 t2 = (a1, Reply r)"
    by (metis prod.collapse)
  then have f: "invoke_finish C a1 r (hs_handler (run_spec r) (run_params r)) now t3 = (a', x)"
    using assms by (simp add: invoke_def)
  have "serve_step C hs (Server a [] h) (Server a1 [r] (run_claims r # h))"
    using serve_step.started [OF b] .
  moreover have "serve_step C hs (Server a1 [r] (run_claims r # h)) (Server a' [] (run_claims r # h))"
    using serve_step.finished [OF _ f, of "[r]"] by simp
  ultimately have "(serve_step C hs)\<^sup>*\<^sup>* (Server a [] h) (Server a' [] ([run_claims r] @ h))"
    by (simp add: converse_rtranclp_into_rtranclp)
  moreover have "j = JStr (dc_jti (run_claims r))" if tok: "answered_token x = Some j" for j
  proof -
    obtain v where x: "x = Reply v"
      using tok by (cases x) (simp_all add: answered_token_def)
    then show ?thesis
      using tok invoke_finish_Reply f invoke_reply_token by (metis option.inject)
  qed
  ultimately show ?thesis
    by blast
next
  case False
  then obtain y where b: "invoke_begin C hs a hdr raw t1 t2 = (a', y)" "\<And>r. y \<noteq> Reply r" and "\<And>v. x \<noteq> Reply v"
    using assms by (cases "invoke_begin C hs a hdr raw t1 t2") (auto simp: invoke_def split: http.splits)
  then have "answered_token x = None"
    by (cases x) (auto simp: answered_token_def)
  moreover have "serve_step C hs (Server a [] h) (Server a' [] ([] @ h))"
    using serve_step.refused [OF b] by simp
  ultimately show ?thesis
    by (intro exI [of _ "[]"]) auto
qed

lemma build_app_steps:
  assumes "build_app C hs fw a rq ts = (a', x)"
  shows "\<exists>h'. (serve_step C hs)\<^sup>*\<^sup>* (Server a [] h) (Server a' [] (h' @ h))
    \<and> (\<forall>j. is_invoke rq \<and> answered_token x = Some j \<longrightarrow> (\<exists>cl. h' = [cl] \<and> j = JStr (dc_jti cl)))"
proof -
  consider (inv) "is_invoke rq" | (cos) "rq_method rq = ''POST''" "rq_path rq = ''/atf/v1/audit/cosign''" "\<not> is_invoke rq"
    | (rest) "\<not> is_invoke rq" "rq_method rq \<noteq> ''POST'' \<or> rq_path rq \<noteq> ''/atf/v1/audit/cosign''"
    by blast
  then show ?thesis
  proof cases
    case inv
    then have "invoke C hs a (rq_token rq) (rq_body rq) (qt_verify ts) (qt_started ts) (qt_outcome ts) (qt_completed ts) = (a', x)"
      using assms by (simp add: build_app_def is_invoke_def)
    from invoke_steps [OF this, of h] show ?thesis
      by (elim exE conjE) (intro exI conjI, assumption, simp)
  next
    case cos
    then have "audit_cosign C a (rq_body rq) = (a', x)"
      using assms by (simp add: build_app_def)
    then show ?thesis
      using serve_step.cosigned cos(3) by (intro exI [of _ "[]"]) auto
  next
    case rest
    then have "a' = a"
      using assms by (auto simp: build_app_def is_invoke_def split: if_splits)
    then show ?thesis
      using rest(1) by (intro exI [of _ "[]"]) simp
  qed
qed

definition answers_for :: "json \<Rightarrow> request \<times> json http \<Rightarrow> bool" where
  "answers_for j p \<longleftrightarrow> is_invoke (fst p) \<and> answered_token (snd p) = Some j"

lemma serve_all_steps:
  "serve_all C hs fw a rqs = (a', answers) \<Longrightarrow>
     \<exists>h'. (serve_step C hs)\<^sup>*\<^sup>* (Server a [] h) (Server a' [] (h' @ h))
       \<and> (\<forall>t. length (filter (answers_for (JStr t)) answers) \<le> length (filter (\<lambda>cl. dc_jti cl = t) h'))"
proof (induction rqs arbitrary: a a' answers h)
  case Nil
  then show ?case
    by (intro exI [of _ "[]"]) simp
next
  case (Cons p rest)
  obtain rq ts where p: "p = (rq, ts)"
    by (cases p)
  obtain a1 x where x: "build_app C hs fw a rq ts = (a1, x)"
    by fastforce
  obtain more where more: "serve_all C hs fw a1 rest = (a', more)" "answers = (rq, x) # more"
    using Cons.prems p x by (auto split: prod.splits)
  obtain h1 where h1: "(serve_step C hs)\<^sup>*\<^sup>* (Server a [] h) (Server a1 [] (h1 @ h))"
      "\<forall>j. is_invoke rq \<and> answered_token x = Some j \<longrightarrow> (\<exists>cl. h1 = [cl] \<and> j = JStr (dc_jti cl))"
    using build_app_steps [OF x, of h] by blast
  obtain h2 where h2: "(serve_step C hs)\<^sup>*\<^sup>* (Server a1 [] (h1 @ h)) (Server a' [] (h2 @ h1 @ h))"
      "\<forall>t. length (filter (answers_for (JStr t)) more) \<le> length (filter (\<lambda>cl. dc_jti cl = t) h2)"
    using Cons.IH [OF more(1), of "h1 @ h"] by blast
  have "length (filter (answers_for (JStr t)) answers) \<le> length (filter (\<lambda>cl. dc_jti cl = t) (h2 @ h1))" for t
    using h2(2) [rule_format, of t] h1(2) [rule_format, of "JStr t"] more(2)
    by (auto simp: answers_for_def)
  moreover have "(serve_step C hs)\<^sup>*\<^sup>* (Server a [] h) (Server a' [] ((h2 @ h1) @ h))"
    using rtranclp_trans [OF h1(1) h2(1)] by simp
  ultimately show ?case
    by blast
qed

text \<open>What traffic leaves alone: the identity, the keys, the manifest and the peers.\<close>

definition same_party :: "agent \<Rightarrow> agent \<Rightarrow> bool" where
  "same_party a a' \<longleftrightarrow> (\<exists>log. a' = set_log log a)"

lemma set_log_twice [simp]: "set_log l (set_log l' a) = set_log l a"
  by (simp add: set_log_def)

lemma set_log_id: "a = set_log (ag_log a) a"
  by (simp add: set_log_def)

lemma same_party_refl [simp]: "same_party a a"
  using set_log_id unfolding same_party_def by blast

lemma same_party_trans: "same_party a b \<Longrightarrow> same_party b c \<Longrightarrow> same_party a c"
  by (auto simp: same_party_def)

lemma journal_party: "journal C a ev = Inr a' \<Longrightarrow> same_party a a'"
  by (auto simp: journal_Inr same_party_def)

lemma invoke_party:
  assumes "invoke C hs a hdr raw t1 t2 now t3 = (a', x)"
  shows "same_party a a'"
proof -
  obtain a1 y where b: "invoke_begin C hs a hdr raw t1 t2 = (a1, y)"
    by fastforce
  have one: "same_party a a1"
  proof (cases "\<exists>r. y = Reply r")
    case True
    then show ?thesis
      using b journal_party by (auto simp: invoke_begin_Reply)
  next
    case False
    then show ?thesis
      using invoke_begin_refused [OF b] journal_party by auto
  qed
  have "same_party a1 a'" if "y = Reply r" for r
    using assms b that invoke_finish_cases [of C a1 r "hs_handler (run_spec r) (run_params r)" now t3 a' x]
    by (auto simp: invoke_def same_party_def intro: same_party_refl [unfolded same_party_def])
  then show ?thesis
    using one assms b same_party_trans by (cases y) (auto simp: invoke_def)
qed

lemma audit_cosign_party: "audit_cosign C a raw = (a', x) \<Longrightarrow> same_party a a'"
  by (drule audit_cosign_cases) (auto simp: same_party_def intro: same_party_refl [unfolded same_party_def])

lemma build_app_party: "build_app C hs fw a rq ts = (a', x) \<Longrightarrow> same_party a a'"
  by (auto simp: build_app_def intro: invoke_party audit_cosign_party split: if_splits)

lemma serve_all_party: "serve_all C hs fw a rqs = (a', answers) \<Longrightarrow> same_party a a'"
proof (induction rqs arbitrary: a answers)
  case (Cons p rest)
  obtain rq ts where p: "p = (rq, ts)"
    by (cases p)
  obtain a1 x where x: "build_app C hs fw a rq ts = (a1, x)"
    by fastforce
  then obtain more where "serve_all C hs fw a1 rest = (a', more)"
    using Cons.prems p by (auto split: prod.splits)
  then show ?case
    using Cons.IH build_app_party [OF x] same_party_trans by blast
qed simp

lemma serve_all_shape: "serve_all C hs fw a rqs = (a', answers) \<Longrightarrow> map fst answers = map fst rqs"
  by (induction rqs arbitrary: a answers) (auto split: prod.splits)

lemma build_app_get: "rq_method rq \<noteq> ''POST'' \<Longrightarrow> fst (build_app C hs fw a rq ts) = a"
  by (simp add: build_app_def)

lemma serve_all_gets:
  "serve_all C hs fw a rqs = (a', answers) \<Longrightarrow> \<forall>(rq, ts) \<in> set rqs. rq_method rq \<noteq> ''POST'' \<Longrightarrow> a' = a"
proof (induction rqs arbitrary: a answers)
  case (Cons p rest)
  obtain rq ts where p: "p = (rq, ts)"
    by (cases p)
  obtain a1 x where x: "build_app C hs fw a rq ts = (a1, x)"
    by fastforce
  then have "a1 = a"
    using build_app_get [of rq C hs fw a ts] Cons.prems(2) p by simp
  then show ?case
    using Cons x p by (auto split: prod.splits)
qed simp

text \<open>Every step of the server writes to the log as the log's own operations do.\<close>

lemma serve_step_log:
  assumes "serve_step C hs s s'" and "server_inv s"
  shows "ag_log (sv_agent s') = ag_log (sv_agent s) \<or> log_step C (ag_log (sv_agent s)) (ag_log (sv_agent s'))"
  using assms
proof (induction rule: serve_step.induct)
  case (started a hdr raw t1 t2 a' r rs h)
  obtain token and pr :: peer_record where "verify_token C token (pr_public_key pr) (ag_id a) (Some (hs_capability (run_spec r)))
      (Some (pr_manifest_content pr)) (snd t1) = Inr (run_claims r)" "journal C a (started_event a (run_claims r) t2) = Inr a'"
    using invoke_begin_claims [OF started(1)] by blast
  then show ?case
    using journal_step started_event_normal by fastforce
next
  case (refused a hdr raw t1 t2 a' x rs h)
  then show ?case
    using invoke_begin_refused [OF refused(1,2)] journal_step by fastforce
next
  case (finished r rs a result now t a' x h)
  then have "normal_claims (run_claims r)"
    by (simp add: server_inv_def)
  then show ?case
    using invoke_finish_step [OF finished(2)] by auto
next
  case (cosigned a raw a' x rs h)
  then show ?case
    using audit_cosign_step by fastforce
next
  case (registered a i jwk pk env p a' rs h)
  then show ?case
    using register_peer_log by fastforce
next
  case (restarted nam ownr kid a fresh a' rs h)
  then show ?case
    using create_same_log by fastforce
qed simp

lemma serve_steps_log:
  assumes "(serve_step C hs)\<^sup>*\<^sup>* s s'" and "server_inv s"
  shows "(log_step C)\<^sup>*\<^sup>* (ag_log (sv_agent s)) (ag_log (sv_agent s')) \<and> server_inv s'"
  using assms(1)
proof (induction rule: rtranclp_induct)
  case base
  then show ?case
    using assms(2) by simp
next
  case (step s1 s2)
  then show ?case
    using serve_step_log [OF step(2)] serve_step_inv [OF step(2)]
    by (metis rtranclp.rtrancl_into_rtrancl)
qed

section \<open>Properties\<close>

text \<open>C5: Whatever requests reach the server, forged, replayed or malformed: for each token id that
  \<open>issue_delegation\<close> can draw at most one answer of the invoke endpoint carries an outcome; the
  server's identity, keys, manifest and peers stay as they are; its log changes only as the
  operations of the audit log change it, so all their guarantees hold; and if nothing is posted,
  nothing changes.\<close>

theorem traffic_served:
  assumes "(log_step C)\<^sup>*\<^sup>* [] (ag_log a)" and "serve_all C hs framework a requests = (a', answers)"
  shows "length (filter (answers_for (JStr (''tkn_'' @ u))) answers) \<le> 1
    \<and> map fst answers = map fst requests
    \<and> a' = set_log (ag_log a') a \<and> (log_step C)\<^sup>*\<^sup>* (ag_log a) (ag_log a')
    \<and> ((\<forall>(rq, ts) \<in> set requests. rq_method rq \<noteq> ''POST'') \<longrightarrow> a' = a)"
proof -
  have inv: "server_inv (Server a [] [])"
    using log_steps_wf [OF assms(1)] by (simp add: server_inv_def)
  obtain h where h: "(serve_step C hs)\<^sup>*\<^sup>* (Server a [] []) (Server a' [] h)"
      "\<forall>t. length (filter (answers_for (JStr t)) answers) \<le> length (filter (\<lambda>cl. dc_jti cl = t) h)"
    using serve_all_steps [OF assms(2), of "[]"] by auto
  have s: "(log_step C)\<^sup>*\<^sup>* (ag_log a) (ag_log a')" "server_inv (Server a' [] h)"
    using serve_steps_log [OF h(1) inv] by auto
  have "length (filter (\<lambda>cl. dc_jti cl = ''tkn_'' @ u) h) \<le> 1"
    using s(2) unfolding server_inv_def by (elim conjE) (drule spec, simp only: server.sel)
  then have "length (filter (answers_for (JStr (''tkn_'' @ u))) answers) \<le> 1"
    using h(2) order_trans by blast
  moreover have "map fst answers = map fst requests" and "(\<forall>(rq, ts) \<in> set requests. rq_method rq \<noteq> ''POST'') \<longrightarrow> a' = a"
    using serve_all_shape [OF assms(2)] serve_all_gets [OF assms(2)] by auto
  moreover have "a' = set_log (ag_log a') a"
    using serve_all_party [OF assms(2)] by (auto simp: same_party_def)
  ultimately show ?thesis
    using s(1) by blast
qed

definition toy_post :: "string \<Rightarrow> request" where
  "toy_post token = \<lparr>rq_method = ''POST'', rq_path = ''/atf/v1/invoke'', rq_token = Some token, rq_body = toy_request\<rparr>"

definition toy_post_ticks :: request_ticks where
  "toy_post_ticks = \<lparr>qt_verify = (''2'', 130), qt_started = (''3'', 130), qt_outcome = 131, qt_completed = (''4'', 132)\<rparr>"

lemma traffic_served_witness:
  "\<exists>token a' v answer. serve_all toy_crypto toy_handlers (\<lambda>_. HttpError 404 ''Not Found'') (toy_agent [])
        [(toy_post token, toy_post_ticks), (toy_post token, toy_post_ticks)]
      = (a', [(toy_post token, Reply v), (toy_post token, answer)])
    \<and> length (filter (answers_for (JStr (''tkn_'' @ ''0''))) [(toy_post token, Reply v), (toy_post token, answer)]) \<le> 1"
proof -
  obtain token b' v where b: "invoke toy_crypto toy_handlers (toy_agent []) (Some token) toy_request (''2'', 130) (''3'', 130) 131 (''4'', 132)
      = (b', Reply v)"
    using toy_invoke by blast
  then have one: "build_app toy_crypto toy_handlers (\<lambda>_. HttpError 404 ''Not Found'') (toy_agent []) (toy_post token) toy_post_ticks
      = (b', Reply v)"
    by (simp add: build_app_def toy_post_def toy_post_ticks_def)
  obtain a' answer where two: "build_app toy_crypto toy_handlers (\<lambda>_. HttpError 404 ''Not Found'') b' (toy_post token) toy_post_ticks
      = (a', answer)"
    by fastforce
  have all: "serve_all toy_crypto toy_handlers (\<lambda>_. HttpError 404 ''Not Found'') (toy_agent [])
        [(toy_post token, toy_post_ticks), (toy_post token, toy_post_ticks)]
      = (a', [(toy_post token, Reply v), (toy_post token, answer)])"
    using one two by simp
  have log: "(log_step toy_crypto)\<^sup>*\<^sup>* [] (ag_log (toy_agent []))"
    by simp
  show ?thesis
    using all traffic_served [OF log all, of "''0''", THEN conjunct1] by (intro exI conjI)
qed

text \<open>A request that names a used token, whatever its header and its signature say.\<close>

definition names_token :: "agent \<Rightarrow> handlers \<Rightarrow> string \<Rightarrow> request \<Rightarrow> bool" where
  "names_token b hs j rq \<longleftrightarrow> is_invoke rq
     \<and> (\<exists>token body spec p i. read_invoke hs (rq_token rq) (rq_body rq) = Reply (token, body, spec)
          \<and> peek_payload token = Inr p \<and> py_index p ''iss'' = Inr (JStr i) \<and> ag_peers b i \<noteq> None
          \<and> py_index p ''jti'' = Inr (JStr j))"

lemma named_request:
  assumes "names_token b hs j rq" and "wf_log (ag_log b)" and "log_uses (ag_log b) (JStr j)"
    and "tick_ok (ag_log b) (qt_verify ts)"
  shows "\<exists>row msg. build_app C hs fw b rq ts = (set_log (ag_log b @ [row]) b, HttpError 409 msg)
    \<and> row_type row = ''delegation.replay_attempt'' \<and> row_token_jti row = Some j
    \<and> row_event_id row = Some (''evt_'' @ fst (qt_verify ts)) \<and> log_step C (ag_log b) (ag_log b @ [row])"
proof -
  obtain token body spec p i and pr :: peer_record where n: "is_invoke rq"
      "read_invoke hs (rq_token rq) (rq_body rq) = Reply (token, body, spec)" "peek_payload token = Inr p"
      "py_index p ''iss'' = Inr (JStr i)" "ag_peers b i = Some pr" "py_index p ''jti'' = Inr (JStr j)"
    using assms(1) unfolding names_token_def by blast
  have "build_app C hs fw b rq ts
      = invoke C hs b (rq_token rq) (rq_body rq) (qt_verify ts) (qt_started ts) (qt_outcome ts) (qt_completed ts)"
    using n(1) by (simp add: build_app_def is_invoke_def)
  then show ?thesis
    using used_token_refused [OF n(2) assms(2-4) n(3-6)] by metis
qed

lemma names_token_log [simp]: "names_token (set_log log b) hs j rq \<longleftrightarrow> names_token b hs j rq"
  by (simp add: names_token_def)

lemma named_requests:
  assumes "wf_log (ag_log b)" and "log_uses (ag_log b) (JStr j)"
    and "\<forall>(rq, ts) \<in> set requests. names_token b hs j rq \<and> tick_ok (ag_log b) (qt_verify ts)"
    and "distinct (map (\<lambda>(rq, ts). fst (qt_verify ts)) requests)"
  shows "\<exists>rows. fst (serve_all C hs fw b requests) = set_log (ag_log b @ rows) b \<and> length rows = length requests
    \<and> (\<forall>row \<in> set rows. row_type row = ''delegation.replay_attempt'' \<and> row_token_jti row = Some j)
    \<and> (\<forall>(rq, answer) \<in> set (snd (serve_all C hs fw b requests)). \<exists>msg. answer = HttpError 409 msg)"
  using assms
proof (induction requests arbitrary: b)
  case Nil
  then show ?case
    by (simp add: set_log_def)
next
  case (Cons x rest)
  obtain rq ts where x: "x = (rq, ts)"
    by (cases x)
  obtain row msg where one: "build_app C hs fw b rq ts = (set_log (ag_log b @ [row]) b, HttpError 409 msg)"
      "row_type row = ''delegation.replay_attempt''" "row_token_jti row = Some j"
      "row_event_id row = Some (''evt_'' @ fst (qt_verify ts))" "log_step C (ag_log b) (ag_log b @ [row])"
    using named_request [OF _ Cons.prems(1,2), of hs rq ts C fw] Cons.prems(3) x by auto
  let ?b = "set_log (ag_log b @ [row]) b"
  have le: "log_le (ag_log b) (ag_log ?b)" and wf: "wf_log (ag_log ?b)"
    using log_step_le [OF one(5) Cons.prems(1)] log_step_wf [OF one(5) Cons.prems(1)] by simp_all
  have "\<forall>(rq, ts) \<in> set rest. names_token ?b hs j rq \<and> tick_ok (ag_log ?b) (qt_verify ts)"
    using Cons.prems(3,4) one(4) x by (force simp: tick_ok_def)
  then obtain rows where rows: "fst (serve_all C hs fw ?b rest) = set_log (ag_log ?b @ rows) ?b" "length rows = length rest"
      "\<forall>row \<in> set rows. row_type row = ''delegation.replay_attempt'' \<and> row_token_jti row = Some j"
      "\<forall>(rq, answer) \<in> set (snd (serve_all C hs fw ?b rest)). \<exists>msg. answer = HttpError 409 msg"
    using Cons.IH [OF wf log_uses_mono [OF le Cons.prems(2)]] Cons.prems(4) x by auto
  show ?case
    using rows one(1-3) by (intro exI [of _ "row # rows"]) (auto simp: x split_beta Let_def set_log_def)
qed

text \<open>C17: Used tokens let anyone write to the log. The replay test comes before the signature, so once a
  token was used, every request that repeats its issuer and its id, with any signature, whoever
  sends it, appends one row: as many requests, as many rows, each answered with 409.\<close>

theorem forged_replays_logged:
  assumes "(log_step C)\<^sup>*\<^sup>* [] (ag_log b)" and "log_uses (ag_log b) (JStr j)"
    and "\<forall>(rq, ts) \<in> set requests. names_token b hs j rq \<and> tick_ok (ag_log b) (qt_verify ts)"
    and "distinct (map (\<lambda>(rq, ts). fst (qt_verify ts)) requests)"
  shows "\<exists>rows. fst (serve_all C hs framework b requests) = set_log (ag_log b @ rows) b \<and> length rows = length requests
    \<and> (\<forall>row \<in> set rows. row_type row = ''delegation.replay_attempt'' \<and> row_token_jti row = Some j)
    \<and> (\<forall>(rq, answer) \<in> set (snd (serve_all C hs framework b requests)). \<exists>msg. answer = HttpError 409 msg)"
  by (rule named_requests [OF log_steps_wf [OF assms(1) wf_log_Nil] assms(2-4)])

lemma forged_replays_logged_witness:
  "\<exists>r rows. fst (serve_all toy_crypto toy_handlers (\<lambda>_. HttpError 404 ''Not Found'') (toy_agent [r])
      [(toy_post toy_unsigned, toy_post_ticks), (toy_post toy_unsigned, toy_post_ticks\<lparr>qt_verify := (''7'', 131)\<rparr>)])
        = set_log ([r] @ rows) (toy_agent [r]) \<and> length rows = 2"
proof -
  obtain r kvs sigs where r: "log_step toy_crypto [] [r]" "stored r (JDict kvs) sigs"
      "map_of kvs ''token_jti'' = Some (JStr ''tkn_1'')" "map_of kvs ''type'' = Some (JStr ''delegation.completed'')"
      "row_event_id r = Some ''e''"
    using toy_used_log [of toy_crypto] by blast
  let ?a = "toy_agent [r]"
  let ?rqs = "[(toy_post toy_unsigned, toy_post_ticks), (toy_post toy_unsigned, toy_post_ticks\<lparr>qt_verify := (''7'', 131)\<rparr>)]"
  have log: "(log_step toy_crypto)\<^sup>*\<^sup>* [] (ag_log ?a)"
    using r(1) by (simp add: r_into_rtranclp)
  have "event_uses (JStr ''tkn_1'') (JDict kvs)"
    using r(3,4) by (simp add: event_uses_def)
  then have uses: "log_uses (ag_log ?a) (JStr ''tkn_1'')"
    using r(2) unfolding log_uses_def by auto
  have read: "read_invoke toy_handlers (rq_token (toy_post toy_unsigned)) (rq_body (toy_post toy_unsigned))
      = Reply (toy_unsigned, JDict [(''payload'', JDict [(''action'', JStr ''run'')])], toy_spec)"
    using toy_request_loads by (simp add: read_invoke_Reply toy_post_def toy_unsigned_def toy_handlers_def)
  have parts: "py_index (toy_payload (JStr ''tkn_1'')) ''iss'' = Inr (JStr (agent_id toy_identity))"
      "py_index (toy_payload (JStr ''tkn_1'')) ''jti'' = Inr (JStr ''tkn_1'')"
    by (simp_all add: toy_payload_def py_index_def)
  have "is_invoke (toy_post toy_unsigned)" "ag_peers ?a (agent_id toy_identity) \<noteq> None"
    by (simp_all add: is_invoke_def toy_post_def)
  then have named: "names_token ?a toy_handlers ''tkn_1'' (toy_post toy_unsigned)"
    using read toy_unsigned_peek parts unfolding names_token_def by blast
  have "tick_ok (ag_log ?a) (qt_verify toy_post_ticks)" "tick_ok (ag_log ?a) (''7'', 131)"
    using r(5) by (simp_all add: tick_ok_def toy_post_ticks_def)
  then have ticks: "\<forall>(rq, ts) \<in> set ?rqs. names_token ?a toy_handlers ''tkn_1'' rq \<and> tick_ok (ag_log ?a) (qt_verify ts)"
    using named by simp
  have two: "distinct (map (\<lambda>(rq, ts). fst (qt_verify ts)) ?rqs)"
    by (simp add: toy_post_ticks_def)
  show ?thesis
    using forged_replays_logged [where framework = "\<lambda>_. HttpError 404 ''Not Found''", OF log uses ticks two]
    by (elim exE conjE) (intro exI conjI, simp_all only: toy_agent_simps length_Cons length_0_conv list.size numeral_2_eq_2)
qed

end
