(* ===== verification/Atf_Tool.thy ===== *)
theory Atf_Tool
  imports Atf_Cli
begin

text \<open>
  The \<open>atf\<close> command as a whole: the parameters each command declares, the data directory it works
  in, what it prints and its exit code. Parsing the command line is click's: a parameter of the
  model that is given the declared parameters, with click's documented behaviour as its law.
\<close>

section \<open>Declared parameters\<close>

datatype param_kind = Text | Whole_number | Existing_file

record param =
  pa_name :: string
  pa_flag :: "string option"
  pa_kind :: param_kind
  pa_multiple :: bool
  pa_required :: bool
  pa_default :: "int option"

definition argument :: "string \<Rightarrow> param" where
  "argument name =
     \<lparr>pa_name = name, pa_flag = None, pa_kind = Text, pa_multiple = False, pa_required = True, pa_default = None\<rparr>"

definition opt :: "string \<Rightarrow> string \<Rightarrow> param" where
  "opt flag name =
     \<lparr>pa_name = name, pa_flag = Some flag, pa_kind = Text, pa_multiple = False, pa_required = False, pa_default = None\<rparr>"

definition init_params :: "param list" where
  "init_params = [argument ''agent_id'', opt ''--data-dir'' ''data_dir'']"

definition publish_params :: "param list" where
  "publish_params =
     [argument ''agent_id'', (opt ''--cap'' ''caps'')\<lparr>pa_multiple := True, pa_required := True\<rparr>,
      opt ''--data-dir'' ''data_dir'']"

definition delegate_params :: "param list" where
  "delegate_params =
     [argument ''agent_id'', (opt ''--to'' ''delegatee'')\<lparr>pa_required := True\<rparr>,
      (opt ''--scope'' ''scopes'')\<lparr>pa_multiple := True, pa_required := True\<rparr>,
      (opt ''--purpose'' ''purpose'')\<lparr>pa_required := True\<rparr>,
      (opt ''--expires-in'' ''expires_in'')\<lparr>pa_kind := Whole_number, pa_default := Some 3600\<rparr>,
      opt ''--data-dir'' ''data_dir'']"

definition verify_params :: "param list" where
  "verify_params =
     [argument ''token'', (opt ''--jwks-file'' ''jwks_file'')\<lparr>pa_kind := Existing_file, pa_required := True\<rparr>,
      (opt ''--expected-sub'' ''expected_sub'')\<lparr>pa_required := True\<rparr>,
      (opt ''--scope'' ''scope'')\<lparr>pa_required := True\<rparr>]"

definition audit_ls_params :: "param list" where
  "audit_ls_params =
     [argument ''agent_id'', opt ''--data-dir'' ''data_dir'',
      (opt ''--limit'' ''limit'')\<lparr>pa_kind := Whole_number, pa_default := Some 20\<rparr>]"

definition decode_params :: "param list" where
  "decode_params = [argument ''token'']"

text \<open>The groups \<open>main\<close> and \<open>audit\<close>\<close>

datatype command = Init | Publish | Delegate | Verify | Audit_ls | Decode

definition commands :: "(string list \<times> command) list" where
  "commands =
     [([''init''], Init), ([''publish''], Publish), ([''delegate''], Delegate), ([''verify''], Verify),
      ([''audit'', ''ls''], Audit_ls), ([''decode''], Decode)]"

definition params_of :: "command \<Rightarrow> param list" where
  "params_of c =
     (case c of Init \<Rightarrow> init_params | Publish \<Rightarrow> publish_params | Delegate \<Rightarrow> delegate_params
      | Verify \<Rightarrow> verify_params | Audit_ls \<Rightarrow> audit_ls_params | Decode \<Rightarrow> decode_params)"

section \<open>What click hands over\<close>

datatype bound = Absent | Word string | Words "string list" | Number int

text \<open>Either click ends the process itself, with what it prints and a status (\<open>--help\<close>, a usage error),
  or it calls the function of a command.\<close>

type_synonym click = "string list \<Rightarrow> (string list \<times> nat) + (command \<times> (string \<Rightarrow> bound))"

text \<open>A value click may bind to a parameter, and what it binds when the flag is not given.\<close>

definition fits :: "param \<Rightarrow> bound \<Rightarrow> bool" where
  "fits p b =
     (case b of
        Absent \<Rightarrow> \<not> pa_required p \<and> \<not> pa_multiple p \<and> pa_default p = None
      | Word s \<Rightarrow> \<not> pa_multiple p \<and> pa_kind p \<noteq> Whole_number
      | Words ss \<Rightarrow> pa_multiple p \<and> pa_kind p \<noteq> Whole_number \<and> (pa_required p \<longrightarrow> ss \<noteq> [])
      | Number i \<Rightarrow> \<not> pa_multiple p \<and> pa_kind p = Whole_number)"

definition click_ok :: "click \<Rightarrow> bool" where
  "click_ok click \<longleftrightarrow>
     (\<forall>args. case click args of
        Inl (lines, code) \<Rightarrow> code \<in> {0, 2}
      | Inr (c, vals) \<Rightarrow>
          (\<exists>names. (names, c) \<in> set commands \<and> set names \<subseteq> set args)
          \<and> (\<forall>p \<in> set (params_of c). fits p (vals (pa_name p))
               \<and> (\<forall>f i. pa_flag p = Some f \<and> pa_default p = Some i \<and> (\<forall>a \<in> set args. \<not> prefix f a)
                    \<longrightarrow> vals (pa_name p) = Number i)))"

lemma click_binds:
  assumes "click_ok click" and "click args = Inr (c, vals)" and "p \<in> set (params_of c)"
  shows "fits p (vals (pa_name p))"
    and "pa_flag p = Some f \<Longrightarrow> pa_default p = Some i \<Longrightarrow> \<forall>a \<in> set args. \<not> prefix f a
      \<Longrightarrow> vals (pa_name p) = Number i"
proof -
  have "\<forall>p \<in> set (params_of c). fits p (vals (pa_name p))
      \<and> (\<forall>f i. pa_flag p = Some f \<and> pa_default p = Some i \<and> (\<forall>a \<in> set args. \<not> prefix f a)
           \<longrightarrow> vals (pa_name p) = Number i)"
    using assms(1) [unfolded click_ok_def, THEN spec, of args] unfolding assms(2) sum.case prod.case by (rule conjunct2)
  then show "fits p (vals (pa_name p))"
    and "pa_flag p = Some f \<Longrightarrow> pa_default p = Some i \<Longrightarrow> \<forall>a \<in> set args. \<not> prefix f a
      \<Longrightarrow> vals (pa_name p) = Number i"
    using assms(3) by blast+
qed

text \<open>The arguments of the command's function.\<close>

definition word :: "bound \<Rightarrow> string" where
  "word b = (case b of Word s \<Rightarrow> s | _ \<Rightarrow> [])"

definition words :: "bound \<Rightarrow> string list" where
  "words b = (case b of Words ss \<Rightarrow> ss | _ \<Rightarrow> [])"

definition number :: "bound \<Rightarrow> int" where
  "number b = (case b of Number i \<Rightarrow> i | _ \<Rightarrow> 0)"

section \<open>Directories\<close>

text \<open>The machine: the home directory, the text of files, the place a path leads to, links and relative
  paths resolved, and the places of the directories above a place.\<close>

record machine =
  mc_home :: string
  mc_files :: "string \<Rightarrow> string"
  mc_place :: "string \<Rightarrow> string"
  mc_above :: "string \<Rightarrow> string list"

text \<open>\<open>Path(data_dir) if data_dir else Path.home() / ".atf" / f"{owner}.{name}"\<close>; click hands over a
  \<open>Path\<close>, which is true even when it is empty.\<close>

definition base_dir :: "string \<Rightarrow> bound \<Rightarrow> string \<Rightarrow> string \<Rightarrow> string" where
  "base_dir home data_dir ownr name =
     (case data_dir of Absent \<Rightarrow> home @ ''/.atf/'' @ ownr @ ''.'' @ name | _ \<Rightarrow> word data_dir)"

text \<open>The directories by their places; \<open>mkdir\<close> makes an empty one, and with \<open>parents=True\<close> also the
  missing ones above it.\<close>

type_synonym disk = "string \<Rightarrow> data_dir option"

definition made :: "data_dir option \<Rightarrow> data_dir" where
  "made d = (case d of Some dir \<Rightarrow> dir | None \<Rightarrow> \<lparr>dir_key = None, dir_manifest = None, dir_log = []\<rparr>)"

definition make_parents :: "machine \<Rightarrow> string \<Rightarrow> disk \<Rightarrow> disk" where
  "make_parents m path disk =
     (\<lambda>p. if p \<in> set (mc_above m path) \<and> disk p = None then Some (made None) else disk p)"

definition in_dir :: "machine \<Rightarrow> disk \<Rightarrow> (string \<Rightarrow> bound) \<Rightarrow> (data_dir \<Rightarrow> string \<Rightarrow> data_dir \<times> 'a res) \<Rightarrow> disk \<times> 'a res" where
  "in_dir m disk vals f =
     (let ident = word (vals ''agent_id'') in
      case resolve ident of
        Inl e \<Rightarrow> (disk, Inl e)
      | Inr (ownr, name) \<Rightarrow>
          (let path = mc_place m (base_dir (mc_home m) (vals ''data_dir'') ownr name);
               (dir, r) = f (made (disk path)) ident
           in ((make_parents m path disk)(path \<mapsto> dir), r)))"

section \<open>Running a command\<close>

text \<open>Printed lines and the exception that ended the command.\<close>

definition printed :: "string res \<Rightarrow> string list \<times> exn option" where
  "printed r = (case r of Inl e \<Rightarrow> ([], Some e) | Inr text \<Rightarrow> ([text], None))"

definition flat :: "(string list \<times> exn option) res \<Rightarrow> string list \<times> exn option" where
  "flat r = (case r of Inl e \<Rightarrow> ([], Some e) | Inr p \<Rightarrow> p)"

record entropy =
  en_key :: bytes
  en_token :: tick
  en_event :: tick
  en_now :: int

definition run_command ::
  "crypto \<Rightarrow> machine \<Rightarrow> disk \<Rightarrow> command \<Rightarrow> (string \<Rightarrow> bound) \<Rightarrow> entropy
    \<Rightarrow> disk \<times> string list \<times> exn option"
where
  "run_command C m disk c vals en =
     (case c of
        Init \<Rightarrow>
          map_prod id printed (in_dir m disk vals (\<lambda>dir ident. cli_init C dir ident (en_key en)))
      | Publish \<Rightarrow>
          map_prod id printed
            (in_dir m disk vals (\<lambda>dir ident. cli_publish C dir ident (words (vals ''caps'')) (en_key en)))
      | Delegate \<Rightarrow>
          map_prod id printed
            (in_dir m disk vals (\<lambda>dir ident.
               cli_delegate C dir ident (word (vals ''delegatee'')) (words (vals ''scopes'')) (word (vals ''purpose''))
                 (number (vals ''expires_in'')) (en_key en) (en_token en) (en_event en)))
      | Verify \<Rightarrow>
          (disk, printed (cli_verify C (word (vals ''token'')) (mc_files m (word (vals ''jwks_file'')))
             (word (vals ''expected_sub'')) (word (vals ''scope'')) (en_now en)))
      | Audit_ls \<Rightarrow>
          map_prod id flat
            (in_dir m disk vals (\<lambda>dir ident. cli_audit_ls C dir ident (number (vals ''limit'')) (en_key en)))
      | Decode \<Rightarrow> (disk, cli_decode (word (vals ''token''))))"

text \<open>click ends the process with 2 after a \<open>UsageError\<close>; any other exception ends it with 1.\<close>

definition exit_code :: "exn option \<Rightarrow> nat" where
  "exit_code e = (case e of None \<Rightarrow> 0 | Some e \<Rightarrow> if exn_cls e = UsageError then 2 else 1)"

definition atf ::
  "crypto \<Rightarrow> click \<Rightarrow> machine \<Rightarrow> disk \<Rightarrow> string list \<Rightarrow> entropy \<Rightarrow> disk \<times> string list \<times> nat"
where
  "atf C click m disk args en =
     (case click args of
        Inl (lines, code) \<Rightarrow> (disk, lines, code)
      | Inr (c, vals) \<Rightarrow>
          (let (disk', lines, e) = run_command C m disk c vals en in (disk', lines, exit_code e)))"

section \<open>What a command may do to a directory\<close>

definition dir_kept :: "crypto \<Rightarrow> data_dir \<Rightarrow> data_dir \<Rightarrow> bool" where
  "dir_kept C d d' \<longleftrightarrow> (dir_key d \<noteq> None \<longrightarrow> dir_key d' = dir_key d)
     \<and> (dir_manifest d \<noteq> None \<longrightarrow> dir_manifest d' \<noteq> None)
     \<and> (log_step C)\<^sup>*\<^sup>* (dir_log d) (dir_log d')"

lemma dir_kept_refl [simp]: "dir_kept C d d"
  by (simp add: dir_kept_def)

lemma dir_kept_trans: "dir_kept C d1 d2 \<Longrightarrow> dir_kept C d2 d3 \<Longrightarrow> dir_kept C d1 d3"
  unfolding dir_kept_def by (auto intro: rtranclp_trans)

lemma create_kept: "create C name ownr kid dir fresh = Inr a \<Longrightarrow> dir_kept C dir (ag_data_dir a)"
  by (auto simp: create_def dir_kept_def Let_def split: option.splits)

lemma created_kept: "dir_kept C dir (created_dir C kid dir fresh)"
  by (simp add: created_dir_def dir_kept_def split: option.split)

lemma with_agent_kept:
  assumes "\<And>a. dir_kept C (ag_data_dir a) (fst (f a))"
  shows "dir_kept C dir (fst (with_agent C dir ident fresh f))"
  using assms create_kept created_kept dir_kept_trans
  by (fastforce simp: with_agent_def split: sum.splits prod.splits)

lemma issue_delegation_dir:
  assumes "issue_delegation C a to scope purpose constraints x now uuid euuid enow = Inr (token, a')"
  shows "dir_kept C (ag_data_dir a) (ag_data_dir a')"
proof -
  obtain ev where "journal C a ev = Inr a'"
    using assms by (auto simp: issue_delegation_def)
  then have "\<exists>log. a' = set_log log a"
    by (auto simp: journal_Inr)
  then show ?thesis
    using issue_delegation_step(1) [OF assms] by (auto simp: dir_kept_def set_log_def)
qed

lemma cli_init_kept: "dir_kept C dir (fst (cli_init C dir ident fresh))"
  unfolding cli_init_def by (rule with_agent_kept) simp

lemma cli_publish_kept: "dir_kept C dir (fst (cli_publish C dir ident caps fresh))"
  unfolding cli_publish_def by (rule with_agent_kept) (simp add: publish_manifest_eq Let_def dir_kept_def)

lemma cli_delegate_kept: "dir_kept C dir (fst (cli_delegate C dir ident to scopes purpose x fresh t1 t2))"
  unfolding cli_delegate_def
proof (rule with_agent_kept)
  fix a
  show "dir_kept C (ag_data_dir a)
      (fst (case issue_delegation C a to scopes purpose None x (snd t1) (fst t1) (fst t2) (snd t2) of
        Inl e \<Rightarrow> (ag_data_dir a, Inl e) | Inr (token, a') \<Rightarrow> (ag_data_dir a', Inr token)))"
    by (auto split: sum.split intro: issue_delegation_dir)
qed

lemma cli_audit_ls_kept: "dir_kept C dir (fst (cli_audit_ls C dir ident limit fresh))"
  unfolding cli_audit_ls_def by (rule with_agent_kept) simp

lemmas commands_kept = cli_init_kept cli_publish_kept cli_delegate_kept cli_audit_ls_kept

text \<open>Only the chosen directory and missing ones above it are touched, and only when the identifier is
  understood.\<close>

definition disk_kept :: "crypto \<Rightarrow> machine \<Rightarrow> string \<Rightarrow> disk \<Rightarrow> disk \<Rightarrow> bool" where
  "disk_kept C m path disk disk' \<longleftrightarrow> (\<exists>d'. disk' = (make_parents m path disk)(path \<mapsto> d') \<and> dir_kept C (made (disk path)) d')"

definition chosen_dir :: "machine \<Rightarrow> (string \<Rightarrow> bound) \<Rightarrow> string \<Rightarrow> string \<Rightarrow> string" where
  "chosen_dir m vals ownr name = mc_place m (base_dir (mc_home m) (vals ''data_dir'') ownr name)"

lemma in_dir_kept:
  assumes "\<And>dir ident. dir_kept C dir (fst (f dir ident))" and "in_dir m disk vals f = (disk', r)"
  shows "case resolve (word (vals ''agent_id'')) of
      Inl e \<Rightarrow> disk' = disk \<and> r = Inl e
    | Inr (ownr, name) \<Rightarrow> disk_kept C m (chosen_dir m vals ownr name) disk disk'"
proof (cases "resolve (word (vals ''agent_id''))")
  case (Inr p)
  obtain ownr name where p: "p = (ownr, name)"
    by (cases p)
  let ?path = "chosen_dir m vals ownr name"
  have "disk' = (make_parents m ?path disk)(?path \<mapsto> fst (f (made (disk ?path)) (word (vals ''agent_id''))))"
    using assms(2) Inr p by (auto simp: in_dir_def chosen_dir_def Let_def split: prod.splits)
  then show ?thesis
    using assms(1) Inr p by (auto simp: disk_kept_def)
qed (use assms(2) in \<open>simp add: in_dir_def Let_def\<close>)

lemma in_dir_map_kept:
  assumes "\<And>dir ident. dir_kept C dir (fst (f dir ident))" and "\<And>e. g (Inl e) = ([], Some e)"
    and "map_prod id g (in_dir m disk vals f) = (disk', r)"
  shows "case resolve (word (vals ''agent_id'')) of
      Inl e \<Rightarrow> disk' = disk \<and> r = ([], Some e)
    | Inr (ownr, name) \<Rightarrow> disk_kept C m (chosen_dir m vals ownr name) disk disk'"
proof -
  obtain y where y: "in_dir m disk vals f = (disk', y)" "r = g y"
    using assms(3) by (cases "in_dir m disk vals f") simp
  show ?thesis
    using in_dir_kept [OF assms(1) y(1)] assms(2) y(2) by (auto split: sum.splits)
qed

lemma printed_Inl: "printed (Inl e) = ([], Some e)" "flat (Inl e) = ([], Some e)"
  by (simp_all add: printed_def flat_def)

lemma run_command_kept:
  assumes "run_command C m disk c vals en = (disk', r)" and "c \<notin> {Verify, Decode}"
  shows "case resolve (word (vals ''agent_id'')) of
      Inl e \<Rightarrow> disk' = disk \<and> r = ([], Some e)
    | Inr (ownr, name) \<Rightarrow> disk_kept C m (chosen_dir m vals ownr name) disk disk'"
proof (cases c)
  case Init
  show ?thesis
    by (rule in_dir_map_kept [OF cli_init_kept printed_Inl(1)]) (use assms Init in \<open>simp add: run_command_def\<close>)
next
  case Publish
  show ?thesis
    by (rule in_dir_map_kept [OF cli_publish_kept printed_Inl(1)]) (use assms Publish in \<open>simp add: run_command_def\<close>)
next
  case Delegate
  show ?thesis
    by (rule in_dir_map_kept [OF cli_delegate_kept printed_Inl(1)]) (use assms Delegate in \<open>simp add: run_command_def\<close>)
next
  case Audit_ls
  show ?thesis
    by (rule in_dir_map_kept [OF cli_audit_ls_kept printed_Inl(2)]) (use assms Audit_ls in \<open>simp add: run_command_def\<close>)
qed (use assms(2) in simp_all)

text \<open>What an agent identifier on the command line stands for.\<close>

definition identifies :: "string \<Rightarrow> string \<Rightarrow> string \<Rightarrow> bool" where
  "identifies u ownr name \<longleftrightarrow>
     (\<exists>kid. u = ''agent://'' @ ownr @ ''/'' @ name @ ''#'' @ kid
        \<and> CHR ''/'' \<notin> set ownr \<and> CHR ''#'' \<notin> set ownr \<and> CHR ''#'' \<notin> set name)
     \<or> (u = ownr @ ''.'' @ name \<and> CHR ''/'' \<notin> set u \<and> CHR ''.'' \<notin> set name)"

lemma resolve_exact:
  "resolve u = Inr (ownr, name) \<longleftrightarrow> identifies u ownr name"
  "resolve u = Inl e \<Longrightarrow> exn_cls e = (if prefix ''agent://'' u then IdentityError else UsageError)"
proof -
  show "resolve u = Inr (ownr, name) \<longleftrightarrow> identifies u ownr name"
    using resolve_forms [of u ownr name] by (auto simp: identifies_def agent_uri_def)
  show "exn_cls e = (if prefix ''agent://'' u then IdentityError else UsageError)" if "resolve u = Inl e"
    using that by (auto simp: resolve_def raise_def bind_res_eq_Inl dest: parse_agent_uri_error split: if_splits)
qed

text \<open>A command line, by what click makes of it.\<close>

lemma atf_cases:
  assumes "atf C click m disk args en = (disk', lines, code)"
  shows "click args = Inl out \<Longrightarrow> disk' = disk \<and> out = (lines, code)"
    and "click args = Inr (c, vals) \<Longrightarrow> c \<in> {Verify, Decode} \<Longrightarrow> disk' = disk"
    and "click args = Inr (c, vals) \<Longrightarrow> c \<notin> {Verify, Decode} \<Longrightarrow> identifies (word (vals ''agent_id'')) ownr name
      \<Longrightarrow> disk_kept C m (chosen_dir m vals ownr name) disk disk'"
    and "click args = Inr (c, vals) \<Longrightarrow> c \<notin> {Verify, Decode} \<Longrightarrow> \<nexists>ownr name. identifies (word (vals ''agent_id'')) ownr name
      \<Longrightarrow> disk' = disk \<and> lines = [] \<and> code = (if prefix ''agent://'' (word (vals ''agent_id'')) then 1 else 2)"
proof -
  show "disk' = disk \<and> out = (lines, code)" if "click args = Inl out"
    using assms that by (auto simp: atf_def split: prod.splits)
  assume c: "click args = Inr (c, vals)"
  then obtain r where r: "run_command C m disk c vals en = (disk', lines, r)" "code = exit_code r"
    using assms by (auto simp: atf_def split: prod.splits)
  show "disk' = disk" if "c \<in> {Verify, Decode}"
    using r(1) that by (auto simp: run_command_def)
  assume n: "c \<notin> {Verify, Decode}"
  show "disk_kept C m (chosen_dir m vals ownr name) disk disk'" if i: "identifies (word (vals ''agent_id'')) ownr name"
    using run_command_kept [OF r(1) n] i [folded resolve_exact(1)] by simp
  assume "\<nexists>ownr name. identifies (word (vals ''agent_id'')) ownr name"
  then obtain e where e: "resolve (word (vals ''agent_id'')) = Inl e"
    by (cases "resolve (word (vals ''agent_id''))") (auto simp flip: resolve_exact(1))
  show "disk' = disk \<and> lines = [] \<and> code = (if prefix ''agent://'' (word (vals ''agent_id'')) then 1 else 2)"
    using run_command_kept [OF r(1) n] r(2) resolve_exact(2) [OF e] by (simp add: e exit_code_def)
qed

section \<open>Properties\<close>

text \<open>C20: What the tool can do to the machine it runs on, whatever the arguments. A command for an agent
  takes its identifier as \<open>agent://owner/name#kid\<close>, without slash or hash in the owner and without
  hash in the name, or as \<open>owner.name\<close> without a slash, split at the last dot. Then it changes the
  directory \<open>--data-dir\<close> names, or \<open>~/.atf/owner.name\<close> without one, and beside it only makes empty
  directories above it where there were none. Any other identifier changes nothing and prints
  nothing, and the status is 1 if it begins with \<open>agent://\<close> and 2 if not. \<open>verify\<close> and \<open>decode\<close> change
  nothing, nor does a command line that click answers itself. No private key that exists is ever
  replaced, no manifest removed, no directory removed, and every audit log changes only as the
  log's operations change it.\<close>

theorem atf_confined:
  assumes "atf C click m disk args en = (disk', lines, code)"
  shows "(\<forall>c vals ownr name. click args = Inr (c, vals) \<and> c \<notin> {Verify, Decode} \<and> identifies (word (vals ''agent_id'')) ownr name \<longrightarrow>
        (\<forall>p. p \<noteq> mc_place m (case vals ''data_dir'' of Absent \<Rightarrow> mc_home m @ ''/.atf/'' @ ownr @ ''.'' @ name | _ \<Rightarrow> word (vals ''data_dir'')) \<longrightarrow>
           disk' p = disk p \<or> (disk p = None \<and> disk' p = Some \<lparr>dir_key = None, dir_manifest = None, dir_log = []\<rparr>
             \<and> p \<in> set (mc_above m (mc_place m (case vals ''data_dir'' of Absent \<Rightarrow> mc_home m @ ''/.atf/'' @ ownr @ ''.'' @ name
                 | _ \<Rightarrow> word (vals ''data_dir'')))))))
    \<and> (\<forall>c vals. click args = Inr (c, vals) \<and> c \<notin> {Verify, Decode} \<and> (\<nexists>ownr name. identifies (word (vals ''agent_id'')) ownr name)
         \<longrightarrow> disk' = disk \<and> lines = [] \<and> code = (if prefix ''agent://'' (word (vals ''agent_id'')) then 1 else 2))
    \<and> (\<forall>c vals. click args = Inr (c, vals) \<and> c \<in> {Verify, Decode} \<longrightarrow> disk' = disk)
    \<and> (\<forall>out. click args = Inl out \<longrightarrow> disk' = disk \<and> out = (lines, code))
    \<and> (\<forall>path d. disk path = Some d \<longrightarrow> (\<exists>d'. disk' path = Some d' \<and> (dir_key d \<noteq> None \<longrightarrow> dir_key d' = dir_key d)
         \<and> (dir_manifest d \<noteq> None \<longrightarrow> dir_manifest d' \<noteq> None) \<and> (log_step C)\<^sup>*\<^sup>* (dir_log d) (dir_log d')))"
proof -
  note run = atf_cases [OF assms]
  have touched: "disk' p = disk p \<or> (disk p = None \<and> disk' p = Some \<lparr>dir_key = None, dir_manifest = None, dir_log = []\<rparr>
      \<and> p \<in> set (mc_above m (chosen_dir m vals ownr name)))"
    if "click args = Inr (c, vals)" "c \<notin> {Verify, Decode}" "identifies (word (vals ''agent_id'')) ownr name"
      "p \<noteq> chosen_dir m vals ownr name" for c vals ownr name p
    using run(3) [OF that(1-3)] that(4) by (auto simp: disk_kept_def make_parents_def made_def split: if_splits)
  have "disk' = disk \<or> (\<exists>path. disk_kept C m path disk disk')"
  proof (cases "click args")
    case (Inr p)
    obtain c vals where p: "p = (c, vals)"
      by (cases p)
    show ?thesis
      using run(2-4) [OF Inr [unfolded p]] by blast
  qed (use run(1) in blast)
  then have kept: "\<exists>d'. disk' path = Some d' \<and> dir_kept C d d'" if "disk path = Some d" for path d
    using that by (elim disjE exE) (auto simp: disk_kept_def make_parents_def made_def)
  show ?thesis
    unfolding base_dir_def [symmetric] chosen_dir_def [symmetric]
    by (intro conjI; intro allI impI; (elim conjE)?)
      ((rule touched | rule run | rule kept [unfolded dir_kept_def]); assumption)+
qed

definition toy_machine :: machine where
  "toy_machine = \<lparr>mc_home = ''/home'', mc_files = (\<lambda>_. []), mc_place = id, mc_above = (\<lambda>_. [''/home/.atf''])\<rparr>"

definition toy_vals :: "(string \<times> bound) list \<Rightarrow> string \<Rightarrow> bound" where
  "toy_vals bs n = (case map_of bs n of Some b \<Rightarrow> b | None \<Rightarrow> Absent)"

lemma atf_confined_witness:
  "(\<exists>disk' lines. atf toy_crypto (\<lambda>_. Inr (Init, toy_vals [(''agent_id'', Word ''x'')])) toy_machine (\<lambda>_. None) []
      \<lparr>en_key = [7], en_token = (''0'', 0), en_event = (''1'', 0), en_now = 0\<rparr> = (disk', lines, 2)
      \<and> disk' = (\<lambda>_. None) \<and> lines = [])
    \<and> (\<exists>disk' lines. atf toy_crypto (\<lambda>_. Inr (Init, toy_vals [(''agent_id'', Word ''agent://x'')])) toy_machine (\<lambda>_. None) []
      \<lparr>en_key = [7], en_token = (''0'', 0), en_event = (''1'', 0), en_now = 0\<rparr> = (disk', lines, 1)
      \<and> disk' = (\<lambda>_. None) \<and> lines = [])
    \<and> (\<exists>disk' lines code. atf toy_crypto (\<lambda>_. Inr (Init, toy_vals [(''agent_id'', Word ''x.y'')])) toy_machine (\<lambda>_. None) []
      \<lparr>en_key = [7], en_token = (''0'', 0), en_event = (''1'', 0), en_now = 0\<rparr> = (disk', lines, code)
      \<and> disk' ''/home/.atf/x.z'' = None)"
proof -
  let ?en = "\<lparr>en_key = [7], en_token = (''0'', 0), en_event = (''1'', 0), en_now = 0\<rparr>"
  let ?atf = "\<lambda>u. atf toy_crypto (\<lambda>_. Inr (Init, toy_vals [(''agent_id'', Word u)])) toy_machine (\<lambda>_. None) [] ?en"
  have "\<nexists>ownr name. identifies ''x'' ownr name" "\<nexists>ownr name. identifies ''agent://x'' ownr name"
    unfolding resolve_exact(1) [symmetric] by (auto simp: resolve_def parse_agent_uri_def raise_def Let_def)
  moreover obtain d1 l1 c1 where 1: "?atf ''x'' = (d1, l1, c1)"
    by (metis prod_cases3)
  moreover obtain d2 l2 c2 where 2: "?atf ''agent://x'' = (d2, l2, c2)"
    by (metis prod_cases3)
  moreover obtain d3 l3 c3 where 3: "?atf ''x.y'' = (d3, l3, c3)"
    by (metis prod_cases3)
  moreover have "identifies ''x.y'' ''x'' ''y''"
    unfolding resolve_exact(1) [symmetric] by code_simp
  then have "d3 ''/home/.atf/x.z'' = None"
    using conjunct1 [OF atf_confined [OF 3], THEN spec [of _ Init], THEN spec [of _ "toy_vals [(''agent_id'', Word ''x.y'')]"],
        THEN spec [of _ "''x''"], THEN spec [of _ "''y''"], THEN mp, THEN spec [of _ "''/home/.atf/x.z''"]]
    by (simp add: toy_vals_def word_def toy_machine_def)
  ultimately show ?thesis
    using atf_confined [OF 1] atf_confined [OF 2] 3
    by (auto simp: toy_vals_def word_def)
qed

lemma create_from_key:
  assumes "pem_correct C" and "create C n1 o1 kid dir k1 = Inr a1"
  shows "\<exists>a2. create C n2 o2 kid (ag_data_dir a1) k2 = Inr a2 \<and> ag_data_dir a2 = ag_data_dir a1
    \<and> ag_keypair a2 = ag_keypair a1 \<and> id_owner (ag_identity a2) = o2 \<and> id_name (ag_identity a2) = n2"
proof -
  obtain pem where pem: "dir_key (ag_data_dir a1) = Some pem" "from_pem C pem kid = Inr (ag_keypair a1)"
    using create_key(1,7) [OF assms(2)] assms(1) by auto
  have man: "dir_manifest (ag_data_dir a1) = None \<or> (\<exists>text env. dir_manifest (ag_data_dir a1) = Some text \<and> loads text = Inr env)"
    using create_frame [OF assms(2)] by (auto split: option.splits)
  then show ?thesis
    using pem by (auto simp: create_def Let_def)
qed

lemma run_init:
  assumes "vals ''agent_id'' = Word u" and "vals ''data_dir'' = Absent" and "resolve u = Inr (ownr, name)"
  shows "run_command C m disk Init vals en =
    (let path = mc_place m (mc_home m @ ''/.atf/'' @ ownr @ ''.'' @ name); base = make_parents m path disk in
     case create C name ownr ''1'' (made (disk path)) (en_key en) of
       Inl e \<Rightarrow> (base(path \<mapsto> created_dir C ''1'' (made (disk path)) (en_key en)), [], Some e)
     | Inr a \<Rightarrow> (base(path \<mapsto> ag_data_dir a), [render_indent True 0 (identity_document (ag_identity a))], None))"
  using assms by (simp add: run_command_def in_dir_def Let_def word_def base_dir_def cli_init_def with_agent_def printed_def
      split: sum.split)

lemma make_parents_again:
  "(make_parents m p ((make_parents m p disk)(p \<mapsto> d)))(p \<mapsto> d) = (make_parents m p disk)(p \<mapsto> d)"
  by (rule ext) (simp add: make_parents_def)

lemma resolve_owner: "resolve u = Inr (ownr, name) \<Longrightarrow> CHR ''/'' \<notin> set ownr"
proof (cases "prefix ''agent://'' u")
  case True
  assume "resolve u = Inr (ownr, name)"
  then obtain kid where "parse_agent_uri u = Inr (ownr, name, kid)"
    using True by (auto simp: resolve_def)
  then show ?thesis
    using parse_agent_uri_sound by (auto simp: uri_parts_ok_def)
next
  case False
  assume "resolve u = Inr (ownr, name)"
  then have "CHR ''.'' \<in> set u" "CHR ''/'' \<notin> set u" "rsplit_once (CHR ''.'') u = (ownr, name)"
    using False by (auto simp: resolve_def split: if_splits)
  then show ?thesis
    using rsplit_once_join [of "CHR ''.''" u ownr name] by auto
qed

lemma first_separator:
  "x \<notin> set a \<Longrightarrow> x \<notin> set c \<Longrightarrow> a @ x # b = c @ x # d \<longleftrightarrow> a = c \<and> b = d"
proof (induction a arbitrary: c)
  case (Cons y a)
  then show ?case
    by (cases c) auto
qed (auto simp: Cons_eq_append_conv)

lemma agent_id_eq:
  assumes "CHR ''/'' \<notin> set (id_owner i)" and "CHR ''/'' \<notin> set (id_owner j)"
    and "kp_kid (id_keypair i) = kp_kid (id_keypair j)"
  shows "agent_id i = agent_id j \<longleftrightarrow> id_owner i = id_owner j \<and> id_name i = id_name j"
  using assms by (auto simp: agent_id_def agent_uri_def first_separator)

lemma issued_payload:
  assumes "issue_delegation C a to scopes purpose None x now uuid euuid enow = Inr (token, a')"
  shows "0 < x \<and> x \<le> MAX_TTL_SECONDS \<and> (\<exists>kvs. peek_payload token = Inr (JDict kvs)
    \<and> map_of kvs ''exp'' = Some (JInt (now + x)) \<and> map_of kvs ''scope'' = Some (JList (map JStr scopes)))"
proof -
  let ?c = "issue_claims (ag_identity a) to scopes purpose None x (Some (''local://'' @ ag_id a)) now uuid"
  have t: "0 < x" "x \<le> MAX_TTL_SECONDS" "token = sign_compact C (claims_dict ?c) (ag_keypair a)"
    using assms by (auto simp: issue_delegation_def issue_token_def split: if_splits)
  have n: "normal (claims_dict ?c)"
    by (rule issue_claims_normal) simp
  obtain ds where ds: "claims_dict ?c = JDict ds" "distinct (map fst ds)" "map_of ds ''exp'' = Some (JInt (now + x))"
      "map_of ds ''scope'' = Some (JList (map JStr scopes))"
    by (simp add: claims_dict_def issue_claims_def)
  then have "peek_payload token = Inr (JDict (sort_dict ds))"
    using peek_sign_compact [OF n] sort_json_sort_dict by (simp add: t(3))
  moreover have "map_of (sort_dict ds) ''exp'' = Some (JInt (now + x))"
      "map_of (sort_dict ds) ''scope'' = Some (JList (map JStr scopes))"
    using sort_dict_lookup [OF ds(2)] ds(3,4) by (simp_all add: comp_def)
  ultimately show ?thesis
    using t(1,2) by blast
qed

lemma run_delegate:
  assumes "run_command C m disk Delegate vals en = (disk', lines, None)"
  shows "\<exists>a a' token. lines = [token] \<and> issue_delegation C a (word (vals ''delegatee'')) (words (vals ''scopes''))
    (word (vals ''purpose'')) None (number (vals ''expires_in'')) (snd (en_token en)) (fst (en_token en))
    (fst (en_event en)) (snd (en_event en)) = Inr (token, a')"
  using assms
  by (auto simp: run_command_def in_dir_def cli_delegate_def with_agent_def printed_def Let_def
      split: sum.splits prod.splits)

text \<open>\<open>atf delegate\<close> prints a token only for a lifetime of one second up to the limit and for at least
  one scope, with the expiry that many seconds after the clock's time; without \<open>--expires-in\<close> it is
  an hour.\<close>

theorem delegate_expiry:
  assumes "click_ok click" and "click args = Inr (Delegate, vals)"
    and "atf C click m disk args en = (disk', lines, 0)"
  shows "\<exists>n token kvs scopes. vals ''expires_in'' = Number n \<and> 0 < n \<and> n \<le> MAX_TTL_SECONDS \<and> lines = [token]
    \<and> peek_payload token = Inr (JDict kvs) \<and> map_of kvs ''exp'' = Some (JInt (snd (en_token en) + n))
    \<and> map_of kvs ''scope'' = Some (JList (map JStr scopes)) \<and> vals ''scopes'' = Words scopes \<and> scopes \<noteq> []
    \<and> ((\<forall>a \<in> set args. \<not> prefix ''--expires-in'' a) \<longrightarrow> n = 3600)"
proof -
  have run: "run_command C m disk Delegate vals en = (disk', lines, None)"
    using assms(2,3) by (auto simp: atf_def exit_code_def split: prod.splits option.splits if_splits)
  let ?e = "(opt ''--expires-in'' ''expires_in'')\<lparr>pa_kind := Whole_number, pa_default := Some 3600\<rparr>"
  let ?s = "(opt ''--scope'' ''scopes'')\<lparr>pa_multiple := True, pa_required := True\<rparr>"
  have p: "?e \<in> set (params_of Delegate)" "?s \<in> set (params_of Delegate)"
    by (simp_all add: delegate_params_def params_of_def)
  note e = click_binds [OF assms(1,2) p(1)] and s = click_binds(1) [OF assms(1,2) p(2)]
  obtain n where n: "vals ''expires_in'' = Number n"
    using e(1) by (cases "vals ''expires_in''") (simp_all add: fits_def opt_def)
  obtain scopes where sc: "vals ''scopes'' = Words scopes" "scopes \<noteq> []"
    using s by (cases "vals ''scopes''") (simp_all add: fits_def opt_def)
  have default: "(\<forall>a \<in> set args. \<not> prefix ''--expires-in'' a) \<longrightarrow> n = 3600"
    using e(2) [of "''--expires-in''" 3600] n by (simp add: opt_def)
  obtain a a' token where t: "lines = [token]"
      "issue_delegation C a (word (vals ''delegatee'')) scopes (word (vals ''purpose'')) None n
         (snd (en_token en)) (fst (en_token en)) (fst (en_event en)) (snd (en_event en)) = Inr (token, a')"
    using run_delegate [OF run] n sc(1) by (auto simp: number_def words_def)
  show ?thesis
    using issued_payload [OF t(2)] t(1) n sc default by blast
qed

definition toy_args :: "string list" where
  "toy_args = [''delegate'', ''a.b'', ''--to'', ''x'', ''--scope'', ''s'', ''--purpose'', ''p'']"

definition toy_bound :: "string \<Rightarrow> bound" where
  "toy_bound = toy_vals [(''agent_id'', Word ''a.b''), (''delegatee'', Word ''x''), (''scopes'', Words [''s'']),
     (''purpose'', Word ''p''), (''expires_in'', Number 3600)]"

definition toy_click :: click where
  "toy_click args = (if args = toy_args then Inr (Delegate, toy_bound) else Inl ([], 2))"

lemma toy_click_ok: "click_ok toy_click"
proof -
  have "([''delegate''], Delegate) \<in> set commands" "set [''delegate''] \<subseteq> set toy_args"
    by (simp_all add: commands_def toy_args_def)
  moreover have "\<forall>p \<in> set (params_of Delegate). fits p (toy_bound (pa_name p))
      \<and> (\<forall>f i. pa_flag p = Some f \<and> pa_default p = Some i \<and> (\<forall>a \<in> set toy_args. \<not> prefix f a)
           \<longrightarrow> toy_bound (pa_name p) = Number i)"
    by (simp add: params_of_def delegate_params_def argument_def opt_def fits_def toy_bound_def toy_vals_def)
  ultimately have "\<exists>names. (names, Delegate) \<in> set commands \<and> set names \<subseteq> set toy_args"
      and "\<forall>p \<in> set (params_of Delegate). fits p (toy_bound (pa_name p))
      \<and> (\<forall>f i. pa_flag p = Some f \<and> pa_default p = Some i \<and> (\<forall>a \<in> set toy_args. \<not> prefix f a)
           \<longrightarrow> toy_bound (pa_name p) = Number i)"
    by blast+
  then show ?thesis
    by (simp add: click_ok_def toy_click_def) blast
qed

lemma delegate_expiry_witness:
  "\<exists>disk' token kvs. atf toy_crypto toy_click toy_machine (\<lambda>_. None) toy_args
      \<lparr>en_key = [7], en_token = (''0'', 100), en_event = (''1'', 100), en_now = 100\<rparr> = (disk', [token], 0)
    \<and> peek_payload token = Inr (JDict kvs) \<and> map_of kvs ''exp'' = Some (JInt 3700)"
proof -
  let ?en = "\<lparr>en_key = [7], en_token = (''0'', 100), en_event = (''1'', 100), en_now = 100\<rparr>"
  obtain a where a: "create toy_crypto ''b'' ''a'' ''1'' (made None) [7] = Inr a" "ag_log a = []" "ag_manifest_envelope a = None"
    using create_new [of toy_crypto "''b''" "''a''" "''1''" "[7]", THEN iffD2, OF refl] by (simp add: made_def)
  have check: "check_own_manifest a [''s''] = Inr ()"
    using a(3) by (simp add: check_own_manifest_def)
  obtain token r where i: "issue_delegation toy_crypto a ''x'' [''s''] ''p'' None 3600 100 ''0'' ''1'' 100
      = Inr (token, set_log (ag_log a @ [r]) a)"
    using issue_delegation_ok [where C = toy_crypto and to = "''x''" and purpose = "''p''" and now = 100 and uuid = "''0''",
        OF _ check, of 3600 None "''1''" 100] a(2) by (auto simp: MAX_TTL_SECONDS_def tick_ok_def)
  have r: "resolve ''a.b'' = Inr (''a'', ''b'')"
    by code_simp
  have vals: "toy_bound ''agent_id'' = Word ''a.b''" "toy_bound ''delegatee'' = Word ''x''" "toy_bound ''scopes'' = Words [''s'']"
      "toy_bound ''purpose'' = Word ''p''" "toy_bound ''expires_in'' = Number 3600" "toy_bound ''data_dir'' = Absent"
    by (simp_all add: toy_bound_def toy_vals_def)
  have click: "toy_click toy_args = Inr (Delegate, toy_bound)"
    by (simp add: toy_click_def)
  have run: "\<exists>disk'. atf toy_crypto toy_click toy_machine (\<lambda>_. None) toy_args ?en = (disk', [token], 0)"
    using a(1) i r vals click
    by (simp add: atf_def run_command_def in_dir_def cli_delegate_def with_agent_def Let_def word_def words_def
        number_def printed_def exit_code_def)
  then obtain disk' where run: "atf toy_crypto toy_click toy_machine (\<lambda>_. None) toy_args ?en = (disk', [token], 0)"
    by blast
  from delegate_expiry [OF toy_click_ok click run]
  have "\<exists>kvs. peek_payload token = Inr (JDict kvs) \<and> map_of kvs ''exp'' = Some (JInt (100 + 3600))"
    using vals(5) by (elim exE conjE) simp
  then obtain kvs where "peek_payload token = Inr (JDict kvs)" "map_of kvs ''exp'' = Some (JInt 3700)"
    by auto
  with run show ?thesis
    by (intro exI conjI)
qed

text \<open>C21: Two agents, one directory: identifiers whose owner and name give the same text joined by a dot
  (\<open>a.b.c\<close> and \<open>agent://a/b.c#1\<close>) stand for different agents that share the default directory.
  Initialising the second one writes nothing: it is given the first one's private key, and the two
  go on sharing one audit log and manifest.\<close>

theorem agents_share_directory:
  assumes "pem_correct C" and "resolve u1 = Inr (o1, n1)" and "resolve u2 = Inr (o2, n2)"
    and "o1 @ ''.'' @ n1 = o2 @ ''.'' @ n2"
    and "vals1 ''agent_id'' = Word u1" and "vals1 ''data_dir'' = Absent"
    and "vals2 ''agent_id'' = Word u2" and "vals2 ''data_dir'' = Absent"
    and "run_command C m disk Init vals1 en1 = (disk1, lines1, None)"
  shows "\<exists>a1 a2. lines1 = [render_indent True 0 (identity_document (ag_identity a1))]
    \<and> run_command C m disk1 Init vals2 en2
        = (disk1, [render_indent True 0 (identity_document (ag_identity a2))], None)
    \<and> ag_keypair a2 = ag_keypair a1 \<and> ag_data_dir a2 = ag_data_dir a1
    \<and> (ag_id a1 = ag_id a2 \<longleftrightarrow> o1 = o2 \<and> n1 = n2)"
proof -
  let ?path = "mc_place m (mc_home m @ ''/.atf/'' @ o1 @ ''.'' @ n1)"
  note run1 = run_init [OF assms(5,6,2), of C m disk en1]
  note run2 = run_init [OF assms(7,8,3), of C m disk1 en2]
  obtain a1 where a1: "create C n1 o1 ''1'' (made (disk ?path)) (en_key en1) = Inr a1"
      "disk1 = (make_parents m ?path disk)(?path \<mapsto> ag_data_dir a1)" "lines1 = [render_indent True 0 (identity_document (ag_identity a1))]"
    using run1 assms(9) by (auto simp: Let_def split: sum.splits)
  obtain a2 where a2: "create C n2 o2 ''1'' (ag_data_dir a1) (en_key en2) = Inr a2" "ag_data_dir a2 = ag_data_dir a1"
      "ag_keypair a2 = ag_keypair a1" "id_owner (ag_identity a2) = o2" "id_name (ag_identity a2) = n2"
    using create_from_key [OF assms(1) a1(1)] by blast
  have "mc_place m (mc_home m @ ''/.atf/'' @ o2 @ ''.'' @ n2) = ?path"
    using assms(4) by simp
  then have "run_command C m disk1 Init vals2 en2
        = (disk1, [render_indent True 0 (identity_document (ag_identity a2))], None)"
    unfolding run2 using a1(2) a2(1,2) by (simp add: Let_def made_def make_parents_again)
  moreover have "ag_id a1 = ag_id a2 \<longleftrightarrow> o1 = o2 \<and> n1 = n2"
    unfolding ag_id_def
    using create_key(3,5) [OF a1(1)] create_key(3,5) [OF a2(1)] resolve_owner [OF assms(2)] resolve_owner [OF assms(3)]
      agent_id_eq [of "ag_identity a1" "ag_identity a2"] by simp
  ultimately show ?thesis
    using a1(3) a2(2,3) by blast
qed

lemma agents_share_directory_witness:
  "\<exists>a1 a2. ag_keypair a2 = ag_keypair a1 \<and> ag_id a1 \<noteq> ag_id a2
    \<and> resolve ''a.b.c'' = Inr (''a.b'', ''c'') \<and> resolve ''agent://a/b.c#1'' = Inr (''a'', ''b.c'')"
proof -
  let ?v1 = "toy_vals [(''agent_id'', Word ''a.b.c'')]" and ?v2 = "toy_vals [(''agent_id'', Word ''agent://a/b.c#1'')]"
  let ?en = "\<lparr>en_key = [7], en_token = (''0'', 0), en_event = (''1'', 0), en_now = 0\<rparr>"
  have r: "resolve ''a.b.c'' = Inr (''a.b'', ''c'')" "resolve ''agent://a/b.c#1'' = Inr (''a'', ''b.c'')"
    by code_simp+
  have same: "''a.b'' @ ''.'' @ ''c'' = ''a'' @ ''.'' @ ''b.c''"
    by simp
  have v: "?v1 ''agent_id'' = Word ''a.b.c''" "?v1 ''data_dir'' = Absent"
      "?v2 ''agent_id'' = Word ''agent://a/b.c#1''" "?v2 ''data_dir'' = Absent"
    by (simp_all add: toy_vals_def)
  note made = create_new [of toy_crypto "''c''" "''a.b''" "''1''" "[7]", THEN iffD2, OF refl]
  then obtain disk1 lines1 where run: "run_command toy_crypto toy_machine (\<lambda>_. None) Init ?v1 ?en = (disk1, lines1, None)"
    unfolding run_init [OF v(1,2) r(1)] by (simp add: Let_def made_def del: create_new)
  have ne: "\<not> (''a.b'' = ''a'' \<and> ''c'' = ''b.c'')"
    by simp
  from agents_share_directory [OF toy_crypto_ok(2) r same v run, of ?en]
  obtain a1 a2 where a: "ag_keypair a2 = ag_keypair a1" "ag_id a1 = ag_id a2 \<longleftrightarrow> ''a.b'' = ''a'' \<and> ''c'' = ''b.c''"
    by (elim exE conjE)
  then have "ag_id a1 \<noteq> ag_id a2"
    using ne by (simp only: simp_thms)
  then show ?thesis
    using a(1) r by (intro exI conjI)
qed

text \<open>C19: The session the README shows does not work: after its \<open>atf publish\<close> with \<open>code.write\<close> only, its
  \<open>atf delegate\<close> of \<open>image.generate\<close> prints nothing and ends with an \<open>ATFError\<close>, whatever the directory held
  before, and leaves the directory as it was.\<close>

theorem readme_session:
  assumes "pem_correct C" and "cli_publish C dir ''example.com.coding'' [''code.write''] k1 = (dir1, Inr text)"
  shows "\<exists>msg. cli_delegate C dir1 ''example.com.coding'' ''agent://example.com/image#1'' [''image.generate'']
      ''blog illustration'' 3600 k2 t1 t2 = (dir1, Inl (Exn ATFError msg)) \<and> exit_code (Some (Exn ATFError msg)) = 1"
proof -
  have r: "resolve ''example.com.coding'' = Inr (''example.com'', ''coding'')"
    by code_simp
  obtain a env content where a: "create C ''coding'' ''example.com'' ''1'' dir1 k2 = Inr a" "ag_data_dir a = dir1"
      "ag_manifest_envelope a = Some env" "own_manifest_content a = Inr content" "proper_manifest content"
      "declared_names content = [''code.write'']"
    using restart_published [OF assms(1) r assms(2), of k2] by blast
  have "\<not> covers ''code.write'' ''image.generate''"
    by (simp add: covers_def)
  then have "\<exists>msg. check_own_manifest a [''image.generate''] = Inl (Exn ATFError msg)"
    using check_own_manifest_proper [OF a(3-5), of "[''image.generate'']"] a(6) by simp
  then show ?thesis
    unfolding cli_delegate_eq [OF r a(1,2)] by (auto simp: issue_delegation_def exit_code_def)
qed

lemma readme_session_witness:
  "\<exists>dir1 text msg. cli_publish toy_crypto (made None) ''example.com.coding'' [''code.write''] [7] = (dir1, Inr text)
    \<and> cli_delegate toy_crypto dir1 ''example.com.coding'' ''agent://example.com/image#1'' [''image.generate'']
        ''blog illustration'' 3600 [8] (''0'', 100) (''1'', 100) = (dir1, Inl (Exn ATFError msg))"
proof -
  have r: "resolve ''example.com.coding'' = Inr (''example.com'', ''coding'')"
    by code_simp
  have "\<exists>dir1 text. cli_publish toy_crypto (made None) ''example.com.coding'' [''code.write''] [7] = (dir1, Inr text)"
    by (simp add: cli_publish_def with_agent_def r create_def made_def Let_def split: prod.split)
  then show ?thesis
    using readme_session [OF toy_crypto_ok(2), of "made None" "[7]"] by (elim exE) blast
qed

end
